(* ===== verification/Prelude.thy ===== *)
theory Prelude
  imports Main "HOL-Library.Word" "HOL-Library.Sublist"
begin

text \<open>
  Shared ground of the development: the exception hierarchy and the \<open>Result\<close>
  struct of \<^verbatim>\<open>include/domain\<close>, the sequencing of operations that read and write a
  state and may throw, and the parts of the C++ standard library the program uses
  (byte and string conversion, \<open>std::string::find\<close>, \<open>substr\<close>, hexadecimal and
  decimal output, \<open>std::stoull\<close>), with the lemmas the components share.
  A \<open>std::string\<close> is a \<^typ>\<open>string\<close> (one \<^typ>\<open>char\<close> per byte), a
  \<open>std::vector<uint8_t>\<close> a list of 8-bit words.
\<close>

unbundle bit_operations_syntax

named_theorems sx_simps \<open>unfolding rules for sequenced stateful operations\<close>
named_theorems codec_simps \<open>byte-level encoders and decoders\<close>
named_theorems vtable_simps \<open>the operations behind an interface\<close>

type_synonym byte = "8 word"
type_synonym bytes = "8 word list"
type_synonym u32 = "32 word"
type_synonym u64 = "64 word"

section \<open>Exceptions and results\<close>

text \<open>
  The exception classes of \<^verbatim>\<open>exceptions.hpp\<close>; \<open>RuntimeError\<close> is a plain
  \<open>std::runtime_error\<close> (or another \<open>std::exception\<close> of the standard library).
\<close>

datatype exn =
    ValidationException string
  | AuthException string
  | NotFoundException string
  | StorageException string
  | IntegrityException string
  | TransportException string
  | RuntimeError string

primrec what :: "exn \<Rightarrow> string" where
  "what (ValidationException m) = m"
| "what (AuthException m) = m"
| "what (NotFoundException m) = m"
| "what (StorageException m) = m"
| "what (IntegrityException m) = m"
| "what (TransportException m) = m"
| "what (RuntimeError m) = m"

record 'a Result =
  ok :: bool
  rvalue :: "'a option"
  error :: string

definition success :: "'a \<Rightarrow> 'a Result" where
  "success v = \<lparr>ok = True, rvalue = Some v, error = ''''\<rparr>"

definition failure :: "string \<Rightarrow> 'a Result" where
  "failure e = \<lparr>ok = False, rvalue = None, error = e\<rparr>"

text \<open>The test \<open>!r.ok || !r.value.has_value()\<close> that every caller makes, as one view of a result.\<close>

definition got :: "'a Result \<Rightarrow> 'a option" where
  "got r = (if ok r then rvalue r else None)"

lemma ok_success [simp]: "ok (success v)" "rvalue (success v) = Some v" "error (success v) = ''''"
  by (simp_all add: success_def)

lemma ok_failure [simp]: "\<not> ok (failure e)" "rvalue (failure e) = None" "error (failure e) = e"
  by (simp_all add: failure_def)

lemma got_simps [simp]: "got (success v) = Some v" "got (failure e) = None"
  by (simp_all add: got_def)

lemma success_failure_distinct [simp]:
  "success v \<noteq> failure e" "failure e \<noteq> success v"
  "success v = success w \<longleftrightarrow> v = w" "failure e = failure d \<longleftrightarrow> e = d"
  by (auto simp: success_def failure_def)

section \<open>Stateful operations that may throw\<close>

text \<open>
  An operation on a state \<open>'s\<close> returns a value or an exception together with the state
  it leaves: what was written before a \<open>throw\<close> stays written, as in the code.
\<close>

type_synonym ('s, 'a) sx = "'s \<Rightarrow> (exn + 'a) \<times> 's"

definition retS :: "'a \<Rightarrow> ('s, 'a) sx" where
  "retS x s = (Inr x, s)"

definition throwS :: "exn \<Rightarrow> ('s, 'a) sx" where
  "throwS e s = (Inl e, s)"

definition bindS :: "('s, 'a) sx \<Rightarrow> ('a \<Rightarrow> ('s, 'b) sx) \<Rightarrow> ('s, 'b) sx" where
  "bindS m f s = (case m s of (Inl e, t) \<Rightarrow> (Inl e, t) | (Inr x, t) \<Rightarrow> f x t)"

definition catchS :: "('s, 'a) sx \<Rightarrow> (exn \<Rightarrow> ('s, 'a) sx) \<Rightarrow> ('s, 'a) sx" where
  "catchS m h s = (case m s of (Inl e, t) \<Rightarrow> h e t | (Inr x, t) \<Rightarrow> (Inr x, t))"

definition getS :: "('s \<Rightarrow> exn + 'a) \<Rightarrow> ('s, 'a) sx" where
  "getS f s = (f s, s)"

definition zoomS :: "('s \<Rightarrow> 't) \<Rightarrow> ('t \<Rightarrow> 's \<Rightarrow> 's) \<Rightarrow> ('t, 'a) sx \<Rightarrow> ('s, 'a) sx" where
  "zoomS rd wr m s = (case m (rd s) of (r, t) \<Rightarrow> (r, wr t s))"

lemma sx_eqs [sx_simps]:
  "retS x s = (Inr x, s)"
  "throwS e s = (Inl e, s)"
  "getS g s = (g s, s)"
  "zoomS rd wr n s = (case n (rd s) of (r, t) \<Rightarrow> (r, wr t s))"
  "bindS m f s = (case m s of (Inl e, t) \<Rightarrow> (Inl e, t) | (Inr x, t) \<Rightarrow> f x t)"
  "catchS m h s = (case m s of (Inl e, t) \<Rightarrow> h e t | (Inr x, t) \<Rightarrow> (Inr x, t))"
  by (simp_all add: retS_def throwS_def getS_def zoomS_def bindS_def catchS_def)

text \<open>Sequencing without a state: the rest runs only if the first part did not throw.\<close>

text \<open>A computation keeps a relation between the states before and after it, whether it returns or throws.\<close>

definition preserves :: "('c \<Rightarrow> 'c \<Rightarrow> bool) \<Rightarrow> ('c, 'x) sx \<Rightarrow> bool" where
  "preserves R m \<longleftrightarrow> (\<forall>c. R c (snd (m c)))"

lemma preserves_retS: "reflp R \<Longrightarrow> preserves R (retS x)"
  by (simp add: preserves_def retS_def reflpD)

lemma preserves_getS: "reflp R \<Longrightarrow> preserves R (getS g)"
  by (simp add: preserves_def getS_def reflpD)

lemma preserves_bindS:
  "transp R \<Longrightarrow> preserves R m \<Longrightarrow> (\<And>x. preserves R (k x)) \<Longrightarrow> preserves R (bindS m k)"
  unfolding preserves_def
  by (auto simp: bindS_def split: prod.splits sum.splits) (metis snd_conv transpD)+

lemma preserves_catchS:
  "transp R \<Longrightarrow> preserves R m \<Longrightarrow> (\<And>x. preserves R (h x)) \<Longrightarrow> preserves R (catchS m h)"
  unfolding preserves_def
  by (auto simp: catchS_def split: prod.splits sum.splits) (metis snd_conv transpD)+

definition bindE :: "exn + 'a \<Rightarrow> ('a \<Rightarrow> exn + 'b) \<Rightarrow> exn + 'b" where
  "bindE m f = (case m of Inl e \<Rightarrow> Inl e | Inr x \<Rightarrow> f x)"

lemma bindE_simps [simp]: "bindE (Inl e) f = Inl e" "bindE (Inr x) f = f x"
  by (simp_all add: bindE_def)

lemma bindE_Inr_iff: "bindE m f = Inr y \<longleftrightarrow> (\<exists>x. m = Inr x \<and> f x = Inr y)"
  by (cases m) simp_all

section \<open>Bytes and strings\<close>

definition byte_of_char :: "char \<Rightarrow> byte" where
  "byte_of_char c = word_of_nat (of_char c)"

definition char_of_byte :: "byte \<Rightarrow> char" where
  "char_of_byte b = char_of (unat b)"

definition bytes_of_string :: "string \<Rightarrow> bytes" where
  "bytes_of_string s = map byte_of_char s"

definition string_of_bytes :: "bytes \<Rightarrow> string" where
  "string_of_bytes b = map char_of_byte b"

lemma unat_byte_less [simp]: "unat (b :: byte) < 256"
  using unsigned_less [of b, where ?'a = nat] by simp

lemma unat_byte_div_less [simp]: "unat (b :: byte) div 16 < 16"
  by (rule less_mult_imp_div_less) simp

lemma unat_word_of_nat_less:
  "n < 2 ^ LENGTH('a) \<Longrightarrow> unat (word_of_nat n :: 'a::len word) = n"
  by (simp add: unat_of_nat)

lemma char_of_byte_inverse [simp]: "char_of_byte (byte_of_char c) = c"
  by (simp add: char_of_byte_def byte_of_char_def unat_of_nat)

lemma byte_of_char_inverse [simp]: "byte_of_char (char_of_byte b) = b"
  by (simp add: char_of_byte_def byte_of_char_def)

lemma string_bytes_string [simp]: "string_of_bytes (bytes_of_string s) = s"
  by (simp add: string_of_bytes_def bytes_of_string_def comp_def)

lemma bytes_string_bytes [simp]: "bytes_of_string (string_of_bytes b) = b"
  by (simp add: string_of_bytes_def bytes_of_string_def comp_def)

lemma length_string_bytes [simp]:
  "length (bytes_of_string s) = length s" "length (string_of_bytes b) = length b"
  by (simp_all add: string_of_bytes_def bytes_of_string_def)

lemma bytes_of_string_inj [simp]: "bytes_of_string s = bytes_of_string t \<longleftrightarrow> s = t"
  by (metis string_bytes_string)

text \<open>The cast of a size to an \<open>int\<close>: the value modulo \<open>2 ^ 32\<close>, read as a signed number.\<close>

definition as_int :: "nat \<Rightarrow> int" where
  "as_int n = (let m = int n mod 2 ^ 32 in if m < 2 ^ 31 then m else m - 2 ^ 32)"

lemma as_int_small: "n < 2 ^ 31 \<Longrightarrow> as_int n = int n"
  by (simp add: as_int_def)

lemma as_int_wraps: "as_int (n + 2 ^ 32) = as_int n"
  by (simp add: as_int_def)

section \<open>Searching and slicing strings\<close>

text \<open>\<open>s.find(pat, pos)\<close>: the least index from \<open>pos\<close> on, \<^const>\<open>None\<close> for \<open>npos\<close>.\<close>

fun find_sub :: "string \<Rightarrow> string \<Rightarrow> nat option" where
  "find_sub pat [] = (if pat = [] then Some 0 else None)"
| "find_sub pat (c # cs) =
     (if prefix pat (c # cs) then Some 0 else map_option Suc (find_sub pat cs))"

definition str_find :: "string \<Rightarrow> string \<Rightarrow> nat \<Rightarrow> nat option" where
  "str_find s pat pos =
     (if length s < pos then None else map_option ((+) pos) (find_sub pat (drop pos s)))"

text \<open>\<open>s.substr(p, q - p)\<close>, where \<open>q = npos\<close> runs to the end of the string.\<close>

definition str_slice :: "string \<Rightarrow> nat \<Rightarrow> nat option \<Rightarrow> string" where
  "str_slice s p q = (case q of None \<Rightarrow> drop p s | Some q \<Rightarrow> take (q - p) (drop p s))"

definition contains :: "string \<Rightarrow> string \<Rightarrow> bool" where
  "contains s pat \<longleftrightarrow> str_find s pat 0 \<noteq> None"

lemma find_sub_Some_iff:
  "(\<exists>i. find_sub pat s = Some i) \<longleftrightarrow> (\<exists>u v. s = u @ pat @ v)"
proof (induction s)
  case Nil
  then show ?case by simp
next
  case (Cons c cs)
  have "(\<exists>u v. c # cs = u @ pat @ v) \<longleftrightarrow> prefix pat (c # cs) \<or> (\<exists>u v. cs = u @ pat @ v)"
  proof
    assume "\<exists>u v. c # cs = u @ pat @ v"
    then obtain u v where "c # cs = u @ pat @ v" by blast
    then show "prefix pat (c # cs) \<or> (\<exists>u v. cs = u @ pat @ v)"
      by (cases u) (auto simp: prefix_def)
  next
    assume "prefix pat (c # cs) \<or> (\<exists>u v. cs = u @ pat @ v)"
    then show "\<exists>u v. c # cs = u @ pat @ v"
    proof
      assume "prefix pat (c # cs)"
      then obtain v where "c # cs = [] @ pat @ v" by (auto simp: prefix_def)
      then show ?thesis by blast
    next
      assume "\<exists>u v. cs = u @ pat @ v"
      then obtain u v where "c # cs = (c # u) @ pat @ v" by auto
      then show ?thesis by blast
    qed
  qed
  with Cons show ?case by auto
qed

lemma contains_iff: "contains s pat \<longleftrightarrow> (\<exists>u v. s = u @ pat @ v)"
  using find_sub_Some_iff [of pat s] by (auto simp: contains_def str_find_def)

lemma find_sub_hit: "prefix pat s \<Longrightarrow> find_sub pat s = Some 0"
  by (cases s) auto

lemma find_sub_skip:
  "c0 \<notin> set a \<Longrightarrow> find_sub (c0 # pat) (a @ s) = map_option ((+) (length a)) (find_sub (c0 # pat) s)"
  by (induction a) (auto simp: option.map_comp comp_def option.map_ident cong: map_option_cong)

lemma str_slice_mid [simp]:
  "p = length u \<Longrightarrow> q = length u + length w \<Longrightarrow> str_slice (u @ w @ v) p (Some q) = w"
  by (simp add: str_slice_def)

section \<open>Hexadecimal and decimal text\<close>

definition hex_digit :: "nat \<Rightarrow> char" where
  "hex_digit n = (if n < 10 then char_of (48 + n) else char_of (87 + n))"

text \<open>\<open>setw(2) << setfill('0') << hex\<close>, equally \<open>snprintf "%02x"\<close>, of one byte.\<close>

definition hex_byte :: "byte \<Rightarrow> string" where
  "hex_byte b = [hex_digit (unat b div 16), hex_digit (unat b mod 16)]"

definition hex_string :: "bytes \<Rightarrow> string" where
  "hex_string bs = concat (map hex_byte bs)"

definition hex_val :: "char \<Rightarrow> nat option" where
  "hex_val c = (let n = of_char c :: nat in
     if 48 \<le> n \<and> n \<le> 57 then Some (n - 48)
     else if 97 \<le> n \<and> n \<le> 102 then Some (n - 87)
     else if 65 \<le> n \<and> n \<le> 70 then Some (n - 55)
     else None)"

fun dec_string :: "nat \<Rightarrow> string" where
  "dec_string n =
     (if n < 10 then [char_of (48 + n)] else dec_string (n div 10) @ [char_of (48 + n mod 10)])"

declare dec_string.simps [simp del]

definition to_string :: "int \<Rightarrow> string" where
  "to_string n = (if n < 0 then CHR ''-'' # dec_string (nat (- n)) else dec_string (nat n))"

definition is_digit :: "char \<Rightarrow> bool" where
  "is_digit c \<longleftrightarrow> 48 \<le> (of_char c :: nat) \<and> (of_char c :: nat) \<le> 57"

definition is_space :: "char \<Rightarrow> bool" where
  "is_space c \<longleftrightarrow> (of_char c :: nat) = 32 \<or> 9 \<le> (of_char c :: nat) \<and> (of_char c :: nat) \<le> 13"

definition dec_val :: "string \<Rightarrow> nat" where
  "dec_val ds = foldl (\<lambda>n c. 10 * n + (of_char c - 48)) 0 ds"

text \<open>
  \<open>std::stoull(s)\<close>: leading white space and a sign are skipped, the longest run of
  digits is read; \<^const>\<open>None\<close> is the exception thrown for no digits or out of range.
\<close>

definition stoull :: "string \<Rightarrow> u64 option" where
  "stoull s =
     (let t = dropWhile is_space s;
          neg = (t \<noteq> [] \<and> hd t = CHR ''-'');
          u = (if t \<noteq> [] \<and> (hd t = CHR ''-'' \<or> hd t = CHR ''+'') then tl t else t);
          ds = takeWhile is_digit u
      in if ds = [] \<or> 2 ^ 64 \<le> dec_val ds then None
         else Some (if neg then - word_of_nat (dec_val ds) else word_of_nat (dec_val ds)))"

lemma hex_val_digit: "n < 16 \<Longrightarrow> hex_val (hex_digit n) = Some n"
  by (auto simp: hex_val_def hex_digit_def Let_def)

lemma length_hex_string [simp]: "length (hex_string bs) = 2 * length bs"
  by (induction bs) (auto simp: hex_string_def hex_byte_def)

lemma hex_string_simps [simp]:
  "hex_string [] = []" "hex_string (b # bs) = hex_byte b @ hex_string bs"
  by (simp_all add: hex_string_def)

lemma hex_byte_inj: "hex_byte a = hex_byte b \<Longrightarrow> a = b"
proof -
  assume eq: "hex_byte a = hex_byte b"
  have bounds: "unat a div 16 < 16" "unat b div 16 < 16" "unat a mod 16 < 16" "unat b mod 16 < 16"
    by simp_all
  from eq have "hex_val (hex_digit (unat a div 16)) = hex_val (hex_digit (unat b div 16))"
    and "hex_val (hex_digit (unat a mod 16)) = hex_val (hex_digit (unat b mod 16))"
    by (simp_all add: hex_byte_def)
  with bounds have "unat a div 16 = unat b div 16" and "unat a mod 16 = unat b mod 16"
    by (simp_all add: hex_val_digit)
  then have "unat a = unat b" by (metis div_mult_mod_eq)
  then show "a = b" by (rule word_unat_eq_iff [THEN iffD2])
qed

lemma hex_string_inj: "hex_string as = hex_string bs \<Longrightarrow> as = bs"
proof (induction as arbitrary: bs)
  case Nil
  then show ?case by (cases bs) (auto simp: hex_byte_def)
next
  case (Cons a as)
  from Cons.prems obtain b bs' where bs: "bs = b # bs'"
    by (cases bs) (auto simp: hex_byte_def)
  with Cons.prems have "hex_byte a = hex_byte b" and "hex_string as = hex_string bs'"
    by (simp_all add: hex_byte_def)
  with bs Cons.IH show ?case by (simp add: hex_byte_inj)
qed

lemma set_hex_string: "c \<in> set (hex_string bs) \<Longrightarrow> \<exists>n<16. c = hex_digit n"
proof (induction bs)
  case (Cons b bs)
  have "\<exists>n<16. c = hex_digit n" if "c \<in> set (hex_byte b)"
  proof -
    from that consider "c = hex_digit (unat b div 16)" | "c = hex_digit (unat b mod 16)"
      unfolding hex_byte_def by auto
    then show ?thesis
      by cases (use unat_byte_div_less [of b] in blast, use mod_less_divisor [of 16 "unat b"] in force)
  qed
  with Cons show ?case by auto
qed simp

lemma dec_string_digits: "c \<in> set (dec_string n) \<Longrightarrow> is_digit c"
proof (induction n rule: dec_string.induct)
  case (1 n)
  show ?case
  proof (cases "n < 10")
    case True
    with "1.prems" show ?thesis by (simp add: dec_string.simps [of n] is_digit_def)
  next
    case False
    with "1" show ?thesis by (auto simp: dec_string.simps [of n] is_digit_def)
  qed
qed

lemma dec_string_nonempty [simp]: "dec_string n \<noteq> []"
  by (subst dec_string.simps) simp

lemma dec_val_append: "dec_val (ds @ [c]) = 10 * dec_val ds + (of_char c - 48)"
  by (simp add: dec_val_def)

lemma dec_val_string [simp]: "dec_val (dec_string n) = n"
proof (induction n rule: dec_string.induct)
  case (1 n)
  show ?case
  proof (cases "n < 10")
    case True
    then show ?thesis by (simp add: dec_string.simps [of n] dec_val_def)
  next
    case False
    with "1" show ?thesis by (simp add: dec_string.simps [of n] dec_val_append)
  qed
qed

lemma is_digit_not_space: "is_digit c \<Longrightarrow> \<not> is_space c"
  by (auto simp: is_digit_def is_space_def)

lemma is_digit_not_sign: "is_digit c \<Longrightarrow> c \<noteq> CHR ''-'' \<and> c \<noteq> CHR ''+''"
  by (auto simp: is_digit_def)

lemma stoull_dec_string:
  assumes "n < 2 ^ 64"
  shows "stoull (dec_string n) = Some (word_of_nat n)"
proof -
  obtain d ds where d: "dec_string n = d # ds" by (cases "dec_string n") simp_all
  then have dig: "is_digit d" using dec_string_digits [of d n] by simp
  have all: "takeWhile is_digit (d # ds) = d # ds"
    using dec_string_digits [of _ n] d by (metis takeWhile_eq_all_conv)
  have v: "dec_val (d # ds) = n" using dec_val_string [of n] d by simp
  show ?thesis
    using assms dig is_digit_not_space [OF dig] is_digit_not_sign [OF dig]
    by (simp add: stoull_def d all v Let_def del: takeWhile.simps)
qed

section \<open>Lists and maps\<close>

lemma take_drop_split: "take n (xs @ ys) = xs \<Longrightarrow> length xs = n \<Longrightarrow> drop n (xs @ ys) = ys"
  by simp

lemma ran_upd_fresh: "m k = None \<Longrightarrow> ran (m(k \<mapsto> v)) = insert v (ran m)"
  by (rule ran_map_upd)

lemma unat_word32_of_length [simp]:
  "length xs < 2 ^ 32 \<Longrightarrow> unat (word_of_nat (length xs) :: u32) = length xs"
  by (simp add: unat_word_of_nat_less)

end
