(* ===== verification/Framing.thy ===== *)
theory Framing
  imports Prelude
begin

text \<open>
  The wire format of \<^verbatim>\<open>include/ports/transport.hpp\<close> (big-endian integers,
  length-prefixed fields, frames) and the three transports that carry frames: the
  receive loops of \<^verbatim>\<open>AsioTlsTransport\<close> and \<^verbatim>\<open>AsioTcpTransport\<close>, which
  reassemble frames from whatever pieces \<open>read_some\<close> returns, and the queue of
  \<^verbatim>\<open>FakeTransport\<close>. Offsets into a buffer are natural numbers (a \<open>size_t\<close>
  never exceeds the size of a vector here); the 32-bit length prefixes keep their width.
\<close>

section \<open>Message types and frames\<close>

text \<open>
  \<open>MsgType\<close> is a C++ \<open>enum class : uint8_t\<close>, so a byte cast to it may be none of the
  named enumerators: \<open>Unnamed\<close> holds those.
\<close>

datatype MsgType =
    HELLO | AUTH | REGISTER | LOGOUT | ADMIN_ACTIVATE | ADMIN_DEACTIVATE
  | UPLOAD_INIT | UPLOAD_DATA | UPLOAD_COMMIT | DOWNLOAD_REQ | DOWNLOAD_DATA | LIST
  | ERR | Unnamed byte

definition byte_of_MsgType :: "MsgType \<Rightarrow> byte" where
  "byte_of_MsgType t = (case t of
     HELLO \<Rightarrow> 1 | AUTH \<Rightarrow> 2 | REGISTER \<Rightarrow> 3 | LOGOUT \<Rightarrow> 4 | ADMIN_ACTIVATE \<Rightarrow> 5
   | ADMIN_DEACTIVATE \<Rightarrow> 6 | UPLOAD_INIT \<Rightarrow> 7 | UPLOAD_DATA \<Rightarrow> 8 | UPLOAD_COMMIT \<Rightarrow> 9
   | DOWNLOAD_REQ \<Rightarrow> 10 | DOWNLOAD_DATA \<Rightarrow> 11 | LIST \<Rightarrow> 12 | ERR \<Rightarrow> 255 | Unnamed b \<Rightarrow> b)"

definition MsgType_of_byte :: "byte \<Rightarrow> MsgType" where
  "MsgType_of_byte b =
     (if b = 1 then HELLO else if b = 2 then AUTH else if b = 3 then REGISTER
      else if b = 4 then LOGOUT else if b = 5 then ADMIN_ACTIVATE
      else if b = 6 then ADMIN_DEACTIVATE else if b = 7 then UPLOAD_INIT
      else if b = 8 then UPLOAD_DATA else if b = 9 then UPLOAD_COMMIT
      else if b = 10 then DOWNLOAD_REQ else if b = 11 then DOWNLOAD_DATA
      else if b = 12 then LIST else if b = 255 then ERR else Unnamed b)"

text \<open>A message type in its one representation: a named byte is not \<open>Unnamed\<close>.\<close>

definition canonical_type :: "MsgType \<Rightarrow> bool" where
  "canonical_type t \<longleftrightarrow> MsgType_of_byte (byte_of_MsgType t) = t"

record Frame =
  ftype :: MsgType
  requestId :: u32
  body :: bytes

section \<open>Integers and length-prefixed fields\<close>

definition put32be :: "bytes \<Rightarrow> u32 \<Rightarrow> bytes" where
  "put32be v x = v @ [ucast (drop_bit 24 x AND 0xFF), ucast (drop_bit 16 x AND 0xFF),
                      ucast (drop_bit 8 x AND 0xFF), ucast (x AND 0xFF)]"

text \<open>\<open>get32be(buf.data() + off)\<close>; every caller below checks that four bytes are there.\<close>

definition get32be :: "bytes \<Rightarrow> nat \<Rightarrow> u32" where
  "get32be b off =
     push_bit 24 (ucast (b ! off)) OR push_bit 16 (ucast (b ! (off + 1)))
       OR push_bit 8 (ucast (b ! (off + 2))) OR ucast (b ! (off + 3))"

definition put64be :: "bytes \<Rightarrow> u64 \<Rightarrow> bytes" where
  "put64be v x = v @ map (\<lambda>i. ucast (drop_bit (i * 8) x AND 0xFF)) [7, 6, 5, 4, 3, 2, 1, 0]"

definition get64be :: "bytes \<Rightarrow> nat \<Rightarrow> u64" where
  "get64be b off = foldl (\<lambda>v i. push_bit 8 v OR ucast (b ! (off + i))) 0 [0, 1, 2, 3, 4, 5, 6, 7]"

definition putBytesWithLen :: "bytes \<Rightarrow> bytes \<Rightarrow> bytes" where
  "putBytesWithLen v b = put32be v (word_of_nat (length b)) @ b"

definition putStringWithLen :: "bytes \<Rightarrow> string \<Rightarrow> bytes" where
  "putStringWithLen v s = put32be v (word_of_nat (length s)) @ bytes_of_string s"

definition getBytesWithLen :: "bytes \<Rightarrow> nat \<Rightarrow> exn + bytes \<times> nat" where
  "getBytesWithLen buf off =
     (if off + 4 > length buf then Inl (RuntimeError ''short'')
      else let len = unat (get32be buf off); off = off + 4
           in if off + len > length buf then Inl (RuntimeError ''short body'')
              else Inr (take len (drop off buf), off + len))"

definition getStringWithLen :: "bytes \<Rightarrow> nat \<Rightarrow> exn + string \<times> nat" where
  "getStringWithLen buf off =
     (if off + 4 > length buf then Inl (RuntimeError ''short'')
      else let len = unat (get32be buf off); off = off + 4
           in if off + len > length buf then Inl (RuntimeError ''short body'')
              else Inr (string_of_bytes (take len (drop off buf)), off + len))"

section \<open>Frames on the wire\<close>

definition maxFrame :: u32 where
  "maxFrame = 4 * 1024 * 1024"

definition encodeFrame :: "Frame \<Rightarrow> bytes" where
  "encodeFrame f =
     (let payload = put32be [byte_of_MsgType (ftype f)] (requestId f) @ body f
      in put32be [] (word_of_nat (length payload)) @ payload)"

definition tryDecode :: "bytes \<Rightarrow> (Frame \<times> nat) option" where
  "tryDecode buf =
     (if length buf < 4 then None
      else let len = get32be buf 0
           in if len > maxFrame then None
              else if length buf < unat (4 + len) \<or> len < 5 then None
              else Some (\<lparr>ftype = MsgType_of_byte (buf ! 4), requestId = get32be buf 5,
                          body = take (unat (4 + len) - 9) (drop 9 buf)\<rparr>, unat (4 + len)))"

text \<open>Frames that fit: the receivers take at most \<^const>\<open>maxFrame\<close> bytes of payload.\<close>

definition sendable :: "Frame \<Rightarrow> bool" where
  "sendable f \<longleftrightarrow> canonical_type (ftype f) \<and> length (body f) + 5 \<le> unat maxFrame"

section \<open>Receive loops\<close>

text \<open>
  One call of \<open>read_some\<close> returns an error, or some bytes (none of them at the end of
  the stream). \<open>recvFrame\<close> consumes the reads it needs from the list of reads to come;
  an exhausted list is a call that still waits for data.
\<close>

datatype read = ReadError | ReadSome bytes

datatype recv = Got Frame | RecvFalse | Waiting | Undefined

text \<open>
  The accesses to the receive buffer, as C++ defines them: an index or a range outside the
  vector, or a range that ends before it begins, has no value.
\<close>

definition byte_at :: "bytes \<Rightarrow> nat \<Rightarrow> byte option" where
  "byte_at b i = (if i < length b then Some (b ! i) else None)"

definition get32be_at :: "bytes \<Rightarrow> nat \<Rightarrow> u32 option" where
  "get32be_at b off =
     Option.bind (byte_at b off) (\<lambda>b0. Option.bind (byte_at b (off + 1)) (\<lambda>b1.
     Option.bind (byte_at b (off + 2)) (\<lambda>b2. Option.bind (byte_at b (off + 3)) (\<lambda>b3.
       Some (push_bit 24 (ucast b0) OR push_bit 16 (ucast b1) OR push_bit 8 (ucast b2) OR ucast b3)))))"

definition range_of :: "bytes \<Rightarrow> nat \<Rightarrow> nat \<Rightarrow> bytes option" where
  "range_of b i j = (if i \<le> j \<and> j \<le> length b then Some (take (j - i) (drop i b)) else None)"

text \<open>Taking a frame of \<open>n\<close> bytes off the front of the buffer: type, request, body, then erasing them.\<close>

definition take_frame :: "bytes \<Rightarrow> nat \<Rightarrow> (Frame \<times> bytes) option" where
  "take_frame rxBuf n =
     Option.bind (byte_at rxBuf 4) (\<lambda>t. Option.bind (get32be_at rxBuf 5) (\<lambda>r.
     Option.bind (range_of rxBuf 9 n) (\<lambda>b. Option.bind (range_of rxBuf n (length rxBuf)) (\<lambda>rest.
       Some (\<lparr>ftype = MsgType_of_byte t, requestId = r, body = b\<rparr>, rest)))))"

text \<open>
  The first half of the loop body, which looks at the buffer: it returns from \<open>recvFrame\<close>
  with a result and a new buffer, or goes on to read (\<^const>\<open>None\<close>). An access without a value
  is the \<open>Undefined\<close> result. The length test adds in 32 bits, as the code does.
\<close>

definition from_buffer :: "bytes \<Rightarrow> (u32 \<Rightarrow> bool) \<Rightarrow> (recv \<times> bytes) option" where
  "from_buffer rxBuf refuse =
     (if length rxBuf \<ge> 4
      then case get32be_at rxBuf 0 of
             None \<Rightarrow> Some (Undefined, rxBuf)
           | Some len \<Rightarrow>
               if refuse len then Some (RecvFalse, [])
               else if length rxBuf \<ge> unat (4 + len)
               then Some (case take_frame rxBuf (unat (4 + len)) of
                            None \<Rightarrow> (Undefined, rxBuf)
                          | Some (f, rest) \<Rightarrow> (Got f, rest))
               else None
      else None)"

fun AsioTls_recvFrame :: "bytes \<Rightarrow> read list \<Rightarrow> recv \<times> bytes \<times> read list" where
  "AsioTls_recvFrame rxBuf reads =
     (case from_buffer rxBuf (\<lambda>len. len < 5 \<or> len > maxFrame) of
        Some (r, rx) \<Rightarrow> (r, rx, reads)
      | None \<Rightarrow>
          (case reads of
             [] \<Rightarrow> (Waiting, rxBuf, [])
           | ReadError # rs \<Rightarrow> (RecvFalse, rxBuf, rs)
           | ReadSome buf # rs \<Rightarrow>
               if buf = [] then (RecvFalse, rxBuf, rs)
               else AsioTls_recvFrame (rxBuf @ buf) rs))"

text \<open>The plain TCP transport lacks the lower bound on the length and the test for an empty read.\<close>

fun AsioTcp_recvFrame :: "bytes \<Rightarrow> read list \<Rightarrow> recv \<times> bytes \<times> read list" where
  "AsioTcp_recvFrame rxBuf reads =
     (case from_buffer rxBuf (\<lambda>len. len > maxFrame) of
        Some (r, rx) \<Rightarrow> (r, rx, reads)
      | None \<Rightarrow>
          (case reads of
             [] \<Rightarrow> (Waiting, rxBuf, [])
           | ReadError # rs \<Rightarrow> (RecvFalse, rxBuf, rs)
           | ReadSome buf # rs \<Rightarrow> AsioTcp_recvFrame (rxBuf @ buf) rs))"

declare AsioTls_recvFrame.simps [simp del] AsioTcp_recvFrame.simps [simp del]

text \<open>The connection loop of the server and the test clients: receive until a call fails or waits.\<close>

fun recv_all :: "nat \<Rightarrow> bytes \<Rightarrow> read list \<Rightarrow> Frame list" where
  "recv_all 0 rxBuf reads = []"
| "recv_all (Suc n) rxBuf reads =
     (case AsioTls_recvFrame rxBuf reads of
        (Got f, rx, rs) \<Rightarrow> f # recv_all n rx rs
      | _ \<Rightarrow> [])"

text \<open>
  Both ends of one direction of a TLS connection: the receive buffer and the pieces that
  the calls of \<open>read_some\<close> (into a buffer of 1024 bytes) are still to return.
\<close>

record TlsLink =
  rxBuf :: bytes
  inflight :: "bytes list"

fun pieces :: "nat \<Rightarrow> bytes \<Rightarrow> bytes list" where
  "pieces n bs = (if n = 0 \<or> length bs \<le> n then (if bs = [] then [] else [bs])
                  else take n bs # pieces n (drop n bs))"

declare pieces.simps [simp del]

definition AsioTls_sendFrame :: "TlsLink \<Rightarrow> Frame \<Rightarrow> TlsLink" where
  "AsioTls_sendFrame l f = l\<lparr>inflight := inflight l @ pieces 1024 (encodeFrame f)\<rparr>"

definition AsioTls_recv :: "TlsLink \<Rightarrow> Frame option \<times> TlsLink" where
  "AsioTls_recv l =
     (case AsioTls_recvFrame (rxBuf l) (map ReadSome (inflight l)) of
        (r, rx, rs) \<Rightarrow>
          (case r of Got f \<Rightarrow> Some f | _ \<Rightarrow> None,
           \<lparr>rxBuf = rx, inflight = map (\<lambda>r. case r of ReadSome b \<Rightarrow> b | ReadError \<Rightarrow> []) rs\<rparr>))"

section \<open>The in-process transport\<close>

record FakeTransport =
  queue :: "bytes list"

definition FakeTransport_sendFrame :: "FakeTransport \<Rightarrow> Frame \<Rightarrow> FakeTransport" where
  "FakeTransport_sendFrame t f = t\<lparr>queue := queue t @ [encodeFrame f]\<rparr>"

definition FakeTransport_recvFrame :: "FakeTransport \<Rightarrow> Frame option \<times> FakeTransport" where
  "FakeTransport_recvFrame t =
     (case queue t of
        [] \<Rightarrow> (None, t)
      | wire # rest \<Rightarrow> (map_option fst (tryDecode wire), t\<lparr>queue := rest\<rparr>))"

section \<open>Codec lemmas\<close>

lemma length_put32be [simp]: "length (put32be v x) = length v + 4"
  by (simp add: put32be_def)

lemma length_put64be [simp]: "length (put64be v x) = length v + 8"
  by (simp add: put64be_def)

lemma put32be_append: "put32be v x = v @ put32be [] x"
  by (simp add: put32be_def)

lemma put64be_append: "put64be v x = v @ put64be [] x"
  by (simp add: put64be_def)

lemma byte_of_MsgType_of_byte [simp]: "byte_of_MsgType (MsgType_of_byte b) = b"
  by (simp add: byte_of_MsgType_def MsgType_of_byte_def)

lemma canonical_named [simp]:
  "canonical_type HELLO" "canonical_type AUTH" "canonical_type REGISTER" "canonical_type LOGOUT"
  "canonical_type ADMIN_ACTIVATE" "canonical_type ADMIN_DEACTIVATE" "canonical_type UPLOAD_INIT"
  "canonical_type UPLOAD_DATA" "canonical_type UPLOAD_COMMIT" "canonical_type DOWNLOAD_REQ"
  "canonical_type DOWNLOAD_DATA" "canonical_type LIST" "canonical_type ERR"
  by (simp_all add: canonical_type_def byte_of_MsgType_def MsgType_of_byte_def)

lemma canonical_decoded [simp]: "canonical_type (MsgType_of_byte b)"
  by (simp add: canonical_type_def)

lemma ucast_low_byte: "(ucast (y AND 0xFF) :: byte) = ucast (y :: 'a::len word)"
proof -
  have m: "(0xFF :: 'a word) = mask 8" by (simp add: mask_eq_exp_minus_1)
  show ?thesis unfolding m take_bit_eq_mask [symmetric]
    by (rule bit_word_eqI) (auto simp: bit_simps)
qed

lemma be32_join:
  "(push_bit 24 (ucast (ucast (drop_bit 24 x) :: byte))
      OR push_bit 16 (ucast (ucast (drop_bit 16 x) :: byte))
      OR push_bit 8 (ucast (ucast (drop_bit 8 x) :: byte))
      OR ucast (ucast x :: byte)) = (x :: u32)" (is "?l = x")
proof (rule bit_word_eqI)
  fix n assume "n < LENGTH(32)"
  then have n: "n < 32" by simp
  consider "n < 8" | "8 \<le> n" "n < 16" | "16 \<le> n" "n < 24" | "24 \<le> n" by linarith
  then show "bit ?l n = bit x n"
    using n by cases (simp_all add: bit_simps less_diff_conv2)
qed

lemma be64_join:
  "foldl (\<lambda>v w. push_bit 8 v OR ucast (w :: byte)) (0 :: u64)
     (map (\<lambda>i. ucast (drop_bit (i * 8) x)) [7, 6, 5, 4, 3, 2, 1, 0]) = (x :: u64)" (is "?l = x")
proof (rule bit_word_eqI)
  fix n assume "n < LENGTH(64)"
  then have n: "n < 64" by simp
  consider "n < 8" | "8 \<le> n" "n < 16" | "16 \<le> n" "n < 24" | "24 \<le> n" "n < 32"
    | "32 \<le> n" "n < 40" | "40 \<le> n" "n < 48" | "48 \<le> n" "n < 56" | "56 \<le> n" by linarith
  then show "bit ?l n = bit x n"
    using n by cases (simp_all add: bit_simps less_diff_conv2)
qed

lemma get32be_append [simp]: "get32be (v @ r) (length v + k) = get32be r k"
  by (simp add: get32be_def nth_append)

lemma get32be_prefix: "off + 4 \<le> length v \<Longrightarrow> get32be (v @ r) off = get32be v off"
  by (simp add: get32be_def nth_append)

lemma get64be_append [simp]: "get64be (v @ r) (length v + k) = get64be r k"
  by (simp add: get64be_def nth_append)

lemma get32be_put32be [simp]: "get32be (put32be [] x @ r) 0 = x"
  using be32_join [of x] by (simp add: get32be_def put32be_def ucast_low_byte)

lemma get64be_put64be [simp]: "get64be (put64be [] x @ r) 0 = x"
  using be64_join [of x] by (simp add: get64be_def put64be_def ucast_low_byte)

text \<open>
  Reading back a length-prefixed field that stands after \<open>v\<close> in the buffer: it is
  returned with the offset of what follows it, whatever that is.
\<close>

lemma getBytesWithLen_put:
  assumes "length b < 2 ^ 32"
  shows "getBytesWithLen (v @ putBytesWithLen [] b @ r) (length v)
           = Inr (b, length (v @ putBytesWithLen [] b))"
  using assms get32be_append [of v "put32be [] (word_of_nat (length b)) @ b @ r" 0]
  by (simp add: getBytesWithLen_def putBytesWithLen_def Let_def)

lemma getStringWithLen_put:
  assumes "length s < 2 ^ 32"
  shows "getStringWithLen (v @ putStringWithLen [] s @ r) (length v)
           = Inr (s, length (v @ putStringWithLen [] s))"
  using assms get32be_append [of v "put32be [] (word_of_nat (length s)) @ bytes_of_string s @ r" 0]
  by (simp add: getStringWithLen_def putStringWithLen_def Let_def)

section \<open>Frames: layout, reading, reassembly\<close>

lemma be32_split_bytes:
  fixes b0 b1 b2 b3 :: byte
  defines "x \<equiv> push_bit 24 (ucast b0) OR push_bit 16 (ucast b1) OR push_bit 8 (ucast b2) OR ucast b3 :: u32"
  shows "(ucast (drop_bit 24 x) :: byte) = b0" "(ucast (drop_bit 16 x) :: byte) = b1"
    "(ucast (drop_bit 8 x) :: byte) = b2" "(ucast x :: byte) = b3"
proof -
  have out: "\<not> bit (b :: byte) n" if "8 \<le> n" for b n
    using that bit_imp_le_length [of b n] by fastforce
  show "(ucast (drop_bit 24 x) :: byte) = b0" "(ucast (drop_bit 16 x) :: byte) = b1"
    "(ucast (drop_bit 8 x) :: byte) = b2" "(ucast x :: byte) = b3"
    unfolding x_def by (rule bit_word_eqI, auto simp: bit_simps out)+
qed

lemma be32_split:
  assumes "4 \<le> length b"
  shows "put32be [] (get32be b 0) = take 4 b"
proof -
  obtain b0 b1 b2 b3 r where b: "b = b0 # b1 # b2 # b3 # r"
    using assms by (auto simp: numeral_eq_Suc Suc_le_length_iff)
  define x where "x = get32be b 0"
  then have "x = push_bit 24 (ucast b0) OR push_bit 16 (ucast b1) OR push_bit 8 (ucast b2) OR ucast b3"
    by (simp add: get32be_def b)
  note bs = be32_split_bytes [of b0 b1 b2 b3, folded this]
  show ?thesis
    unfolding x_def [symmetric] by (simp add: put32be_def ucast_low_byte bs b)
qed

lemma be64_byte:
  fixes w :: byte
  assumes "i < 8"
  shows "(ucast (drop_bit (i * 8) (push_bit 8 v OR ucast w :: u64) AND 0xFF) :: byte)
         = (if i = 0 then w else ucast (drop_bit ((i - 1) * 8) v AND 0xFF))"
proof -
  have out: "\<not> bit w n" if "8 \<le> n" for n
    using that bit_imp_le_length [of w n] by fastforce
  have idx: "i * 8 + n - 8 = (i - 1) * 8 + n" if "i \<noteq> 0" for n
    using that by (cases i) simp_all
  show ?thesis unfolding ucast_low_byte
    by (rule bit_word_eqI) (use assms out idx in \<open>auto simp: bit_simps\<close>)
qed

lemma be64_split:
  assumes "8 \<le> length b"
  shows "put64be [] (get64be b 0) = take 8 b"
proof -
  obtain b0 b1 b2 b3 b4 b5 b6 b7 r where b: "b = b0 # b1 # b2 # b3 # b4 # b5 # b6 # b7 # r"
    using assms by (auto simp: numeral_eq_Suc Suc_le_length_iff)
  define step :: "u64 \<Rightarrow> byte \<Rightarrow> u64" where "step v w = push_bit 8 v OR ucast w" for v w
  have shift: "put64be [] (step v w) = tl (put64be [] v) @ [w]" for v w
    unfolding put64be_def step_def list.map by (simp only: be64_byte) simp
  have "get64be b 0 = step (step (step (step (step (step (step (step 0 b0) b1) b2) b3) b4) b5) b6) b7"
    by (simp add: get64be_def step_def b)
  then show ?thesis by (simp add: shift b) (simp add: put64be_def)
qed

lemma take_frame_fields:
  assumes "9 \<le> n" and "n \<le> length buf"
  shows "take n buf = take 4 buf @ [buf ! 4] @ take 4 (drop 5 buf) @ take (n - 9) (drop 9 buf)"
proof -
  have "take n buf = take 5 buf @ take 4 (drop 5 buf) @ take (n - 9) (drop 9 buf)"
    using take_add [of 5 "4 + (n - 9)" buf] take_add [of 4 "n - 9" "drop 5 buf"] assms by simp
  moreover have "take 5 buf = take 4 buf @ [buf ! 4]"
    using take_Suc_conv_app_nth [of 4 buf] assms by (simp add: eval_nat_numeral)
  ultimately show ?thesis by simp
qed

text \<open>The length field of a frame, and the bounds the receivers compute with it.\<close>

definition frame_len :: "Frame \<Rightarrow> u32" where
  "frame_len f = word_of_nat (length (body f) + 5)"

lemma unat_maxFrame [simp]: "unat maxFrame = 4194304"
  by (simp add: maxFrame_def)

lemma unat_frame_len:
  assumes "length (body f) + 5 \<le> unat maxFrame"
  shows "unat (frame_len f) = length (body f) + 5"
    and "unat (4 + frame_len f) = length (body f) + 9"
proof -
  from assms have b: "length (body f) + 9 < 2 ^ LENGTH(32)" by simp
  then show "unat (frame_len f) = length (body f) + 5"
    unfolding frame_len_def by (intro unat_word_of_nat_less) simp
  have "4 + frame_len f = word_of_nat (length (body f) + 9)"
    by (simp add: frame_len_def)
  with b show "unat (4 + frame_len f) = length (body f) + 9"
    by (simp only: unat_word_of_nat_less)
qed

lemma frame_len_in_range:
  assumes "length (body f) + 5 \<le> unat maxFrame"
  shows "\<not> maxFrame < frame_len f" "\<not> frame_len f < 5"
  using assms unat_frame_len(1) [OF assms] by (simp_all add: word_less_nat_alt)

lemma length_encodeFrame [simp]: "length (encodeFrame f) = length (body f) + 9"
  by (simp add: encodeFrame_def Let_def)

lemma encodeFrame_layout:
  "encodeFrame f = put32be [] (frame_len f) @ [byte_of_MsgType (ftype f)]
     @ put32be [] (requestId f) @ body f"
  by (simp add: encodeFrame_def Let_def put32be_append [of "[_]"] frame_len_def add.commute)

lemma encodeFrame_length_field [simp]: "get32be (encodeFrame f @ r) 0 = frame_len f"
  by (simp add: encodeFrame_layout)

lemma encodeFrame_type [simp]: "(encodeFrame f @ r) ! 4 = byte_of_MsgType (ftype f)"
  by (simp add: encodeFrame_layout nth_append)

lemma encodeFrame_requestId [simp]: "get32be (encodeFrame f @ r) 5 = requestId f"
  using get32be_append [of "put32be [] (frame_len f) @ [byte_of_MsgType (ftype f)]"
      "put32be [] (requestId f) @ body f @ r" 0]
  by (simp add: encodeFrame_layout)

lemma encodeFrame_body: "take (length (body f)) (drop 9 (encodeFrame f @ r)) = body f"
  by (simp add: encodeFrame_layout)

lemma sendable_body: "sendable f \<Longrightarrow> length (body f) + 5 \<le> unat maxFrame"
  by (simp add: sendable_def)

lemma sendable_type: "sendable f \<Longrightarrow> MsgType_of_byte (byte_of_MsgType (ftype f)) = ftype f"
  by (simp add: sendable_def canonical_type_def)

lemmas frame_facts = unat_frame_len [OF sendable_body] frame_len_in_range [OF sendable_body] sendable_type

section \<open>The receive loops\<close>

lemma byte_at_in [simp]: "i < length b \<Longrightarrow> byte_at b i = Some (b ! i)"
  by (simp add: byte_at_def)

lemma get32be_at_in [simp]: "off + 4 \<le> length b \<Longrightarrow> get32be_at b off = Some (get32be b off)"
  by (simp add: get32be_at_def get32be_def)

lemma range_of_in [simp]: "i \<le> j \<Longrightarrow> j \<le> length b \<Longrightarrow> range_of b i j = Some (take (j - i) (drop i b))"
  by (simp add: range_of_def)

text \<open>Taking a frame is defined exactly when it has a header and its bytes are there.\<close>

lemma take_frame_in:
  "9 \<le> n \<Longrightarrow> n \<le> length b \<Longrightarrow> take_frame b n =
     Some (\<lparr>ftype = MsgType_of_byte (b ! 4), requestId = get32be b 5, body = take (n - 9) (drop 9 b)\<rparr>, drop n b)"
  by (simp add: take_frame_def)

lemma take_frame_short: "n < 9 \<Longrightarrow> take_frame b n = None"
  by (simp add: take_frame_def range_of_def split: option.split)

text \<open>The header of a buffer: the length field, where it is too small, too big, or complete.\<close>

abbreviation hdr :: "bytes \<Rightarrow> nat" where
  "hdr b \<equiv> unat (get32be b 0)"

lemma unat_4_plus:
  assumes "\<not> maxFrame < (len :: u32)"
  shows "unat (4 + len) = 4 + unat len"
proof -
  have "unat len \<le> 4194304" using assms by (simp add: word_less_nat_alt)
  then show ?thesis by (subst unat_word_ariths) simp
qed

lemma from_buffer_eq:
  assumes "\<And>len. maxFrame < len \<Longrightarrow> refuse len"
  shows "from_buffer b refuse =
     (if length b < 4 then None
      else if refuse (get32be b 0) then Some (RecvFalse, [])
      else if length b < 4 + hdr b then None
      else if hdr b < 5 then Some (Undefined, b)
      else Some (Got \<lparr>ftype = MsgType_of_byte (b ! 4), requestId = get32be b 5, body = take (hdr b - 5) (drop 9 b)\<rparr>,
             drop (4 + hdr b) b))"
proof (cases "length b < 4 \<or> refuse (get32be b 0)")
  case True
  then show ?thesis by (auto simp: from_buffer_def)
next
  case False
  then have "unat (4 + get32be b 0) = 4 + hdr b" using assms unat_4_plus by blast
  then show ?thesis using False by (auto simp: from_buffer_def take_frame_in take_frame_short)
qed

text \<open>
  A buffer that starts with a length no frame has; on every other one the TLS receiver
  does what \<^const>\<open>tryDecode\<close> says, and reads on when that finds no frame yet.
\<close>

definition bad_length :: "bytes \<Rightarrow> bool" where
  "bad_length b \<longleftrightarrow> 4 \<le> length b \<and> (get32be b 0 < 5 \<or> maxFrame < get32be b 0)"

lemma tls_buffer:
  "from_buffer b (\<lambda>len. len < 5 \<or> len > maxFrame) =
     (case tryDecode b of
        Some (f, n) \<Rightarrow> Some (Got f, drop n b)
      | None \<Rightarrow> if bad_length b then Some (RecvFalse, []) else None)"
proof (cases "4 \<le> length b \<and> \<not> bad_length b")
  case False
  then show ?thesis by (subst from_buffer_eq) (auto simp: tryDecode_def bad_length_def Let_def)
next
  case True
  then have "\<not> hdr b < 5" "unat (4 + get32be b 0) = 4 + hdr b"
    using unat_4_plus [of "get32be b 0"] by (auto simp: bad_length_def word_less_nat_alt)
  with True show ?thesis by (subst from_buffer_eq) (auto simp: tryDecode_def bad_length_def Let_def)
qed

lemma tcp_buffer:
  "from_buffer b (\<lambda>len. len > maxFrame) =
     (if 4 \<le> length b \<and> hdr b < 5 then (if length b < 4 + hdr b then None else Some (Undefined, b))
      else from_buffer b (\<lambda>len. len < 5 \<or> len > maxFrame))"
  by (subst (1 2) from_buffer_eq) (auto simp: word_less_nat_alt)

lemma tryDecode_encodeFrame:
  assumes "sendable f"
  shows "tryDecode (encodeFrame f @ r) = Some (f, length (encodeFrame f))"
  using assms encodeFrame_body [of f r] by (simp add: tryDecode_def Let_def frame_facts)

lemma AsioTls_recvFrame_hit:
  assumes "sendable f"
  shows "AsioTls_recvFrame (encodeFrame f @ r) rs = (Got f, r, rs)"
  by (subst AsioTls_recvFrame.simps) (simp add: tls_buffer tryDecode_encodeFrame [OF assms] del: length_encodeFrame)

lemma AsioTls_recvFrame_miss:
  assumes f: "sendable f" and part: "encodeFrame f = rx @ suf" and "suf \<noteq> []"
  shows "AsioTls_recvFrame rx (ReadSome buf # rs) =
           (if buf = [] then (RecvFalse, rx, rs) else AsioTls_recvFrame (rx @ buf) rs)"
proof -
  have short: "length rx < length (body f) + 9"
    using arg_cong [OF part, of length] \<open>suf \<noteq> []\<close> by simp
  have "get32be rx 0 = frame_len f" if "4 \<le> length rx"
    using that encodeFrame_length_field [of f "[]"] get32be_prefix [of 0 rx suf] by (simp add: part)
  with f short have "tryDecode rx = None" "\<not> bad_length rx"
    by (auto simp: tryDecode_def bad_length_def Let_def frame_facts)
  then show ?thesis by (subst AsioTls_recvFrame.simps) (simp add: tls_buffer)
qed

text \<open>
  Any splitting of the bytes of one frame over the reads, the tail of the last read
  included, delivers that frame and leaves the rest of the stream for the next call.
\<close>

lemma AsioTls_recvFrame_split:
  assumes f: "sendable f"
    and "rx @ concat bufs = encodeFrame f @ r" and "\<And>b. b \<in> set bufs \<Longrightarrow> b \<noteq> []"
  shows "\<exists>rx' bufs'. AsioTls_recvFrame rx (map ReadSome bufs) = (Got f, rx', map ReadSome bufs')
           \<and> rx' @ concat bufs' = r \<and> set bufs' \<subseteq> set bufs"
  using assms(2,3)
proof (induction bufs arbitrary: rx)
  case Nil
  then have "rx = encodeFrame f @ r" by simp
  then show ?case using AsioTls_recvFrame_hit [OF f, of r "[]"] by auto
next
  case (Cons b bufs)
  show ?case
  proof (cases "length (encodeFrame f) \<le> length rx")
    case True
    with Cons.prems(1) obtain r' where "rx = encodeFrame f @ r'" "r' @ concat (b # bufs) = r"
      by (metis (no_types) append_eq_append_conv_if append_take_drop_id)
    then show ?thesis
      using AsioTls_recvFrame_hit [OF f, of r' "map ReadSome (b # bufs)"]
      by (intro exI [of _ r'] exI [of _ "b # bufs"]) auto
  next
    case False
    with Cons.prems(1) obtain suf where suf: "encodeFrame f = rx @ suf" "suf \<noteq> []"
      by (metis append_eq_append_conv_if append_take_drop_id append_Nil2 le_refl nat_le_linear)
    have step: "AsioTls_recvFrame rx (map ReadSome (b # bufs)) = AsioTls_recvFrame (rx @ b) (map ReadSome bufs)"
      using AsioTls_recvFrame_miss [OF f suf, of b "map ReadSome bufs"] Cons.prems(2) [of b] by simp
    have "(rx @ b) @ concat bufs = encodeFrame f @ r" using Cons.prems(1) by simp
    from Cons.IH [OF this] Cons.prems(2) show ?thesis unfolding step by fastforce
  qed
qed

section \<open>A connection as a stream of bytes\<close>

text \<open>
  The bytes that arrive until a read fails or finds the end of the stream, and whether one
  does; and the frames in a sequence of bytes, decoded with all of it at hand.
\<close>

fun heard :: "read list \<Rightarrow> bytes \<times> bool" where
  "heard [] = ([], False)"
| "heard (ReadError # rs) = ([], True)"
| "heard (ReadSome b # rs) = (if b = [] then ([], True) else apfst ((@) b) (heard rs))"

lemma tryDecode_size: "tryDecode b = Some (f, n) \<Longrightarrow> 9 \<le> n \<and> n \<le> length b"
proof -
  assume "tryDecode b = Some (f, n)"
  then have "\<not> maxFrame < get32be b 0" "\<not> get32be b 0 < 5" "unat (4 + get32be b 0) = n" "n \<le> length b"
    by (auto simp: tryDecode_def Let_def split: if_splits)
  then show ?thesis using unat_4_plus [of "get32be b 0"] by (simp add: word_less_nat_alt)
qed

function frames_of :: "bytes \<Rightarrow> Frame list" where
  "frames_of b = (case tryDecode b of None \<Rightarrow> [] | Some (f, n) \<Rightarrow> f # frames_of (drop n b))"
  by pat_completeness auto
termination by (relation "measure length") (auto dest: tryDecode_size)

function rest_of :: "bytes \<Rightarrow> bytes" where
  "rest_of b = (case tryDecode b of None \<Rightarrow> b | Some (f, n) \<Rightarrow> rest_of (drop n b))"
  by pat_completeness auto
termination by (relation "measure length") (auto dest: tryDecode_size)

declare frames_of.simps [simp del] rest_of.simps [simp del]

lemma tryDecode_more:
  assumes "tryDecode b = Some (f, n)"
  shows "tryDecode (b @ r) = Some (f, n)"
proof -
  have n: "9 \<le> n" "n \<le> length b" using tryDecode_size [OF assms] by simp_all
  moreover have "get32be (b @ r) 0 = get32be b 0" "get32be (b @ r) 5 = get32be b 5" "(b @ r) ! 4 = b ! 4"
    using n get32be_prefix [of 0 b r] get32be_prefix [of 5 b r] by (simp_all add: nth_append)
  ultimately show ?thesis using assms by (auto simp: tryDecode_def Let_def split: if_splits)
qed

lemma bad_length_more: "bad_length b \<Longrightarrow> bad_length (b @ r) \<and> tryDecode (b @ r) = None"
  using get32be_prefix [of 0 b r] by (auto simp: bad_length_def tryDecode_def Let_def)

text \<open>
  One call of the TLS receiver, on any bytes and any reads: the frame at the front of what
  has arrived, with the bytes after it kept for the next call; without one, failure if the
  length is bad or the stream ends, and otherwise a call that waits.
\<close>

lemma recvFrame_stream:
  assumes "AsioTls_recvFrame rx reads = (r, rx', rs)"
  shows "case tryDecode (rx @ fst (heard reads)) of
      Some (f, n) \<Rightarrow> r = Got f \<and> rx' @ fst (heard rs) = drop n (rx @ fst (heard reads)) \<and> snd (heard rs) = snd (heard reads)
    | None \<Rightarrow> r = (if bad_length (rx @ fst (heard reads)) \<or> snd (heard reads) then RecvFalse else Waiting)"
  using assms
proof (induction rx reads rule: AsioTls_recvFrame.induct)
  case (1 rx reads)
  consider (frame) f n where "tryDecode rx = Some (f, n)" | (bad) "bad_length rx" "tryDecode rx = None"
    | (more) "tryDecode rx = None" "\<not> bad_length rx" by (metis option.exhaust surj_pair)
  then show ?case
  proof cases
    case frame
    then show ?thesis using 1(2) tryDecode_more [OF frame] tryDecode_size [OF frame]
      by (subst (asm) AsioTls_recvFrame.simps) (auto simp: tls_buffer)
  next
    case bad
    then show ?thesis using 1(2) bad_length_more [OF bad(1)]
      by (subst (asm) AsioTls_recvFrame.simps) (auto simp: tls_buffer)
  next
    case more
    then have none: "from_buffer rx (\<lambda>len. len < 5 \<or> len > maxFrame) = None" by (simp add: tls_buffer)
    show ?thesis
    proof (cases reads rule: heard.cases)
      case (3 b rs')
      then have "AsioTls_recvFrame rx reads = (if b = [] then (RecvFalse, rx, rs') else AsioTls_recvFrame (rx @ b) rs')"
        by (subst AsioTls_recvFrame.simps) (simp add: none)
      then show ?thesis using 1(1) [OF none 3 refl] 1(2) more 3 by (cases "b = []") (auto split: option.splits)
    qed (use 1(2) none more in \<open>auto simp: AsioTls_recvFrame.simps\<close>)
  qed
qed

lemma recv_all_stream: "recv_all k rx reads = take k (frames_of (rx @ fst (heard reads)))"
proof (induction k arbitrary: rx reads)
  case (Suc k)
  obtain r rx' rs where r: "AsioTls_recvFrame rx reads = (r, rx', rs)" by (metis prod.collapse)
  note st = recvFrame_stream [OF r]
  show ?case
  proof (cases "tryDecode (rx @ fst (heard reads))")
    case None
    then show ?thesis using r st by (simp add: frames_of.simps split: if_splits)
  next
    case (Some p)
    then show ?thesis using r st Suc.IH [of rx' rs] by (cases p) (simp add: frames_of.simps [of "rx @ _"])
  qed
qed simp

lemma heard_pieces: "[] \<notin> set bufs \<Longrightarrow> heard (map ReadSome bufs @ rs) = apfst ((@) (concat bufs)) (heard rs)"
  by (induction bufs) (auto simp: apfst_def map_prod_def split: prod.split)

lemma frames_of_encoded:
  assumes "\<And>f. f \<in> set fs \<Longrightarrow> sendable f" "tryDecode tail = None"
  shows "frames_of (concat (map encodeFrame fs) @ tail) = fs" "rest_of (concat (map encodeFrame fs) @ tail) = tail"
  using assms
proof (induction fs)
  case (Cons f fs)
  { case 1 then show ?case using Cons.IH(1) tryDecode_encodeFrame [of f "concat (map encodeFrame fs) @ tail"]
      by (simp add: frames_of.simps [of "encodeFrame f @ _"] del: length_encodeFrame) }
  { case 2 then show ?case using Cons.IH(2) tryDecode_encodeFrame [of f "concat (map encodeFrame fs) @ tail"]
      by (simp add: rest_of.simps [of "encodeFrame f @ _"] del: length_encodeFrame) }
qed (simp_all add: frames_of.simps rest_of.simps)

section \<open>The transport interface\<close>

text \<open>
  What every \<open>ITransport\<close> promises its users: frames come out in the order they were
  sent. \<open>holds c fs\<close> says that \<open>fs\<close> are the frames under way in channel \<open>c\<close>.
\<close>

fun drain :: "('c \<Rightarrow> Frame option \<times> 'c) \<Rightarrow> nat \<Rightarrow> 'c \<Rightarrow> Frame list" where
  "drain recv 0 c = []"
| "drain recv (Suc n) c = (case recv c of (Some f, c') \<Rightarrow> f # drain recv n c' | (None, _) \<Rightarrow> [])"

locale frame_channel =
  fixes send :: "'c \<Rightarrow> Frame \<Rightarrow> 'c"
    and recv :: "'c \<Rightarrow> Frame option \<times> 'c"
    and holds :: "'c \<Rightarrow> Frame list \<Rightarrow> bool"
  assumes holds_send: "holds c fs \<Longrightarrow> sendable f \<Longrightarrow> holds (send c f) (fs @ [f])"
    and holds_recv: "holds c (f # fs) \<Longrightarrow> \<exists>c'. recv c = (Some f, c') \<and> holds c' fs"
begin

lemma holds_send_all:
  "holds c fs \<Longrightarrow> (\<And>g. g \<in> set gs \<Longrightarrow> sendable g) \<Longrightarrow> holds (foldl send c gs) (fs @ gs)"
proof (induction gs arbitrary: c fs)
  case (Cons g gs)
  then have "holds (send c g) (fs @ [g])" by (auto intro: holds_send)
  from Cons.IH [OF this] Cons.prems(2) show ?case by simp
qed simp

lemma drain_holds: "holds c (fs @ gs) \<Longrightarrow> drain recv (length fs) c = fs"
proof (induction fs arbitrary: c)
  case (Cons f fs)
  then obtain c' where "recv c = (Some f, c')" "holds c' (fs @ gs)"
    using holds_recv [of c f "fs @ gs"] by auto
  with Cons.IH show ?case by simp
qed simp

lemma fifo:
  assumes "holds c []" and "\<And>f. f \<in> set fs \<Longrightarrow> sendable f"
  shows "drain recv (length fs) (foldl send c fs) = fs"
  using drain_holds [of "foldl send c fs" fs "[]"] holds_send_all [OF assms] by simp

end

definition fake_holds :: "FakeTransport \<Rightarrow> Frame list \<Rightarrow> bool" where
  "fake_holds t fs \<longleftrightarrow> queue t = map encodeFrame fs \<and> (\<forall>f\<in>set fs. sendable f)"

definition tls_holds :: "TlsLink \<Rightarrow> Frame list \<Rightarrow> bool" where
  "tls_holds l fs \<longleftrightarrow> rxBuf l @ concat (inflight l) = concat (map encodeFrame fs)
     \<and> (\<forall>f\<in>set fs. sendable f) \<and> (\<forall>b\<in>set (inflight l). b \<noteq> [])"

lemma concat_pieces [simp]: "concat (pieces n bs) = bs"
  by (induction n bs rule: pieces.induct) (simp add: pieces.simps)

lemma pieces_nonempty: "b \<in> set (pieces n bs) \<Longrightarrow> b \<noteq> []"
proof (induction n bs rule: pieces.induct)
  case (1 n bs)
  then show ?case by (cases "n = 0 \<or> length bs \<le> n") (auto simp: pieces.simps [of n bs] split: if_splits)
qed

interpretation fake: frame_channel FakeTransport_sendFrame FakeTransport_recvFrame fake_holds
proof
  show "fake_holds (FakeTransport_sendFrame c f) (fs @ [f])" if "fake_holds c fs" "sendable f" for c fs f
    using that by (auto simp: fake_holds_def FakeTransport_sendFrame_def)
  show "\<exists>c'. FakeTransport_recvFrame c = (Some f, c') \<and> fake_holds c' fs" if "fake_holds c (f # fs)" for c f fs
    using that tryDecode_encodeFrame [of f "[]"]
    by (auto simp: fake_holds_def FakeTransport_recvFrame_def)
qed

interpretation tls: frame_channel AsioTls_sendFrame AsioTls_recv tls_holds
proof
  show "tls_holds (AsioTls_sendFrame l f) (fs @ [f])" if "tls_holds l fs" "sendable f" for l fs f
    using that pieces_nonempty [of _ 1024] by (auto simp: tls_holds_def AsioTls_sendFrame_def)
next
  fix l f fs
  assume h: "tls_holds l (f # fs)"
  then obtain rx bufs where
    "AsioTls_recvFrame (rxBuf l) (map ReadSome (inflight l)) = (Got f, rx, map ReadSome bufs)"
    and "rx @ concat bufs = concat (map encodeFrame fs)" "set bufs \<subseteq> set (inflight l)"
    using AsioTls_recvFrame_split [of f "rxBuf l" "inflight l" "concat (map encodeFrame fs)"]
    by (auto simp: tls_holds_def)
  with h have "AsioTls_recv l = (Some f, \<lparr>rxBuf = rx, inflight = bufs\<rparr>)"
    and "tls_holds \<lparr>rxBuf = rx, inflight = bufs\<rparr> fs"
    by (auto simp: AsioTls_recv_def tls_holds_def comp_def)
  then show "\<exists>l'. AsioTls_recv l = (Some f, l') \<and> tls_holds l' fs" by blast
qed

section \<open>Properties\<close>

text \<open>
  A frame the receivers accept in size is decoded from the front of a buffer to
  itself, and exactly its own bytes are consumed, whatever follows it in the buffer.
\<close>

theorem frame_roundtrip:
  assumes "sendable f"
  shows "tryDecode (encodeFrame f @ rest) = Some (f, length (encodeFrame f))"
  by (rule tryDecode_encodeFrame [OF assms])

theorem frame_roundtrip_witness:
  "tryDecode (encodeFrame \<lparr>ftype = UPLOAD_DATA, requestId = 7, body = [1, 2, 3, 4]\<rparr> @ [9])
     = Some (\<lparr>ftype = UPLOAD_DATA, requestId = 7, body = [1, 2, 3, 4]\<rparr>, 13)"
proof -
  have "sendable \<lparr>ftype = UPLOAD_DATA, requestId = 7, body = [1, 2, 3, 4]\<rparr>"
    by (simp add: sendable_def)
  from frame_roundtrip [OF this, of "[9]"] show ?thesis by simp
qed

text \<open>
  Conversely, whatever \<open>tryDecode\<close> returns is the encoding of the returned frame:
  the consumed bytes are exactly those \<open>encodeFrame\<close> writes for it.
\<close>

theorem frame_decode_sound:
  assumes "tryDecode buf = Some (f, n)"
  shows "sendable f \<and> n \<le> length buf \<and> take n buf = encodeFrame f"
proof -
  define len where "len = get32be buf 0"
  from assms have g: "4 \<le> length buf" "\<not> maxFrame < len" "unat (4 + len) \<le> length buf" "\<not> len < 5"
    and n: "n = unat (4 + len)"
    and f: "f = \<lparr>ftype = MsgType_of_byte (buf ! 4), requestId = get32be buf 5,
              body = take (unat (4 + len) - 9) (drop 9 buf)\<rparr>"
    by (auto simp: tryDecode_def Let_def len_def split: if_splits)
  from g have len: "5 \<le> unat len" "unat len \<le> 4194304"
    by (auto simp: word_less_nat_alt not_less)
  then have u: "unat (4 + len) = unat len + 4"
    by (subst unat_word_ariths) simp
  have lb: "length (body f) + 5 = unat len" using f u len g by simp
  then have "frame_len f = len" by (simp add: frame_len_def flip: of_nat_add)
  moreover have "take 4 (drop 5 buf) = put32be [] (get32be buf 5)"
  proof -
    have "get32be buf 5 = get32be (drop 5 buf) 0"
      using g u len by (simp add: get32be_def add.commute)
    then show ?thesis using be32_split [of "drop 5 buf"] g u len by simp
  qed
  moreover have "take 4 buf = put32be [] len" using be32_split [OF g(1)] by (simp add: len_def)
  moreover have "take n buf = take 4 buf @ [buf ! 4] @ take 4 (drop 5 buf) @ take (n - 9) (drop 9 buf)"
    by (rule take_frame_fields) (use n u len g in simp_all)
  ultimately have "take n buf = encodeFrame f"
    by (simp add: encodeFrame_layout f n)
  with lb len g n show ?thesis by (simp add: sendable_def f)
qed

theorem frame_decode_sound_witness:
  "take 9 [0, 0, 0, 5, 1, 0, 0, 0, 2, 77] = encodeFrame \<lparr>ftype = HELLO, requestId = 2, body = []\<rparr>"
proof -
  have "tryDecode [0, 0, 0, 5, 1, 0, 0, 0, 2, 77] = Some (\<lparr>ftype = HELLO, requestId = 2, body = []\<rparr>, 9)"
    by (simp add: tryDecode_def get32be_def maxFrame_def MsgType_of_byte_def Let_def)
  from frame_decode_sound [OF this] show ?thesis by simp
qed

text \<open>
  C36. Stream reassembly. Whatever pieces the TLS stream is read in, a connection that
  was sent a sequence of frames receives exactly that sequence: no byte boundary of the
  network can split, merge, drop or reorder frames.
\<close>

theorem tls_reassembly:
  assumes "\<And>f. f \<in> set fs \<Longrightarrow> sendable f"
    and "concat bufs = concat (map encodeFrame fs)" and "\<And>b. b \<in> set bufs \<Longrightarrow> b \<noteq> []"
  shows "recv_all (length fs) [] (map ReadSome bufs) = fs"
proof -
  have "recv_all (length fs) rx (map ReadSome bufs) = fs"
    if "rx @ concat bufs = concat (map encodeFrame fs)" for rx
    using assms(1,3) that
  proof (induction fs arbitrary: rx bufs)
    case (Cons f fs)
    obtain rx' bufs' where
      "AsioTls_recvFrame rx (map ReadSome bufs) = (Got f, rx', map ReadSome bufs')"
      and "rx' @ concat bufs' = concat (map encodeFrame fs)" "set bufs' \<subseteq> set bufs"
      using AsioTls_recvFrame_split [of f rx bufs "concat (map encodeFrame fs)"] Cons.prems by auto
    moreover from this Cons.prems have "recv_all (length fs) rx' (map ReadSome bufs') = fs"
      by (intro Cons.IH) auto
    ultimately show ?case by simp
  qed simp
  from this [of "[]"] assms(2) show ?thesis by simp
qed

theorem tls_reassembly_witness:
  "recv_all 2 [] (map ReadSome
     [[0, 0, 0], [6, 8, 0, 0, 0, 7, 42, 0, 0], [0, 5, 1, 0, 0, 0, 8]])
   = [\<lparr>ftype = UPLOAD_DATA, requestId = 7, body = [42]\<rparr>, \<lparr>ftype = HELLO, requestId = 8, body = []\<rparr>]"
proof -
  let ?fs = "[\<lparr>ftype = UPLOAD_DATA, requestId = 7, body = [42]\<rparr>, \<lparr>ftype = HELLO, requestId = 8, body = []\<rparr>]"
  let ?bufs = "[[0, 0, 0], [6, 8, 0, 0, 0, 7, 42, 0, 0], [0, 5, 1, 0, 0, 0, 8]] :: bytes list"
  have "sendable f" if "f \<in> set ?fs" for f
    using that by (auto simp: sendable_def)
  moreover have "concat ?bufs = concat (map encodeFrame ?fs)"
    by (simp add: encodeFrame_def put32be_def byte_of_MsgType_def Let_def)
  moreover have "b \<noteq> []" if "b \<in> set ?bufs" for b
    using that by auto
  ultimately show ?thesis
    using tls_reassembly [of ?fs ?bufs] by (simp add: numeral_2_eq_2)
qed

text \<open>
  C37. A frame with more than 4 MiB minus five bytes of body is never received: on a
  connection that carries some frames and then the oversize one, whatever follows it and
  in whatever pieces it is read, the receiving loop delivers the frames before it and no
  other. Bodies are below 4 GiB, where the length field wraps around.
\<close>

theorem oversize_frame_lost:
  assumes "unat maxFrame < length (body f) + 5" "length (body f) + 5 < 2 ^ 32"
    and "\<And>g. g \<in> set fs \<Longrightarrow> sendable g" "[] \<notin> set bufs"
    and "concat bufs = concat (map encodeFrame fs) @ encodeFrame f @ rest"
  shows "recv_all k [] (map ReadSome bufs @ reads) = take k fs"
proof -
  have "unat (frame_len f) = length (body f) + 5"
    unfolding frame_len_def by (rule unat_word_of_nat_less) (use assms(2) in simp)
  with assms(1) have "maxFrame < frame_len f" by (simp add: word_less_nat_alt)
  then have "tryDecode (encodeFrame f @ x) = None" for x by (simp add: tryDecode_def)
  then show ?thesis
    using frames_of_encoded(1) [OF assms(3), of fs "encodeFrame f @ rest @ fst (heard reads)"] heard_pieces [OF assms(4), of reads] assms(5)
    by (simp add: recv_all_stream)
qed

theorem oversize_frame_lost_witness:
  "let f = \<lparr>ftype = DOWNLOAD_DATA, requestId = 5, body = replicate 4194300 0\<rparr>; g = \<lparr>ftype = LIST, requestId = 4, body = [1]\<rparr>
   in recv_all 2 [] (map ReadSome (pieces 1024 (encodeFrame g @ encodeFrame f @ encodeFrame g)) @ [ReadError]) = [g]"
proof -
  let ?f = "\<lparr>ftype = DOWNLOAD_DATA, requestId = 5, body = replicate 4194300 0\<rparr>" and ?g = "\<lparr>ftype = LIST, requestId = 4, body = [1]\<rparr>"
  have "sendable h" if "h \<in> set [?g]" for h using that by (simp add: sendable_def)
  moreover have "[] \<notin> set (pieces 1024 x)" for x using pieces_nonempty by blast
  ultimately show ?thesis unfolding Let_def
    using oversize_frame_lost [of ?f "[?g]" "pieces 1024 (encodeFrame ?g @ encodeFrame ?f @ encodeFrame ?g)" "encodeFrame ?g" 2 "[ReadError]"]
    by simp
qed

lemma AsioTls_recvFrame_defined: "fst (AsioTls_recvFrame rx reads) \<noteq> Undefined"
proof -
  obtain r rx' rs where "AsioTls_recvFrame rx reads = (r, rx', rs)" by (metis prod.collapse)
  with recvFrame_stream [OF this] show ?thesis by (auto split: option.splits if_splits)
qed

text \<open>The bytes the TCP receiver sees: it does not stop at an empty read.\<close>

fun arrived :: "read list \<Rightarrow> bytes" where
  "arrived [] = []"
| "arrived (ReadError # rs) = []"
| "arrived (ReadSome b # rs) = b @ arrived rs"

definition runt :: "bytes \<Rightarrow> bool" where
  "runt b \<longleftrightarrow> 4 \<le> length b \<and> hdr b < 5 \<and> 4 + hdr b \<le> length b"

lemma AsioTcp_undefined_iff: "fst (AsioTcp_recvFrame rx reads) = Undefined \<longleftrightarrow> runt (rx @ arrived reads)"
proof (induction rx reads rule: AsioTcp_recvFrame.induct)
  case (1 rx reads)
  have pre: "get32be (rx @ x) 0 = get32be rx 0" if "4 \<le> length rx" for x using that get32be_prefix [of 0 rx x] by simp
  show ?case
  proof (cases "from_buffer rx (\<lambda>len. len > maxFrame)")
    case None
    then have "\<not> runt rx" by (auto simp: tcp_buffer runt_def split: if_splits)
    then show ?thesis using 1 [OF None] None
      by (subst AsioTcp_recvFrame.simps) (auto split: list.split read.split)
  next
    case (Some p)
    have small: "get32be rx 0 < 5 \<longleftrightarrow> hdr rx < 5" by (simp add: word_less_nat_alt)
    have "fst p = Undefined \<longleftrightarrow> runt (rx @ arrived reads)"
      using Some pre unfolding tcp_buffer tls_buffer
      by (auto simp: runt_def bad_length_def tryDecode_def Let_def small split: if_splits option.splits)
    then show ?thesis using Some by (subst AsioTcp_recvFrame.simps) (auto split: prod.split)
  qed
qed

text \<open>
  C38. Whatever bytes arrive in whatever pieces, the TLS receiver never touches its buffer
  outside its bounds. The plain TCP receiver does so exactly when the length field at the
  front of what it has received is below five and that many bytes have arrived after it.
\<close>

theorem receivers_defined:
  "fst (AsioTls_recvFrame rx reads) \<noteq> Undefined \<and> (fst (AsioTcp_recvFrame rx reads) = Undefined \<longleftrightarrow> runt (rx @ arrived reads))"
  using AsioTls_recvFrame_defined [of rx reads] AsioTcp_undefined_iff [of rx reads] by simp

end
