(* ===== verification/Domain.thy ===== *)
theory Domain
  imports Prelude
begin

text \<open>
  The domain layer (\<^verbatim>\<open>include/domain\<close>, \<^verbatim>\<open>src/domain\<close>): identifiers and their
  generation from the random device, users, sessions, wrapped keys, file records,
  transfers, download tokens, audit events and the default-deny policy engine. A
  constructor that validates its arguments returns an exception or the object. Times in
  milliseconds and attempt counters are integers (the code never brings them near the
  bounds of \<open>int64_t\<close> and \<open>int\<close>).
\<close>

section \<open>Identifiers\<close>

datatype UserId = UserId (uid: string)
datatype FileId = FileId (fid: string)
datatype TransferId = TransferId (tid: string)
datatype SessionId = SessionId (sid: string)

text \<open>
  \<open>std::random_device\<close> is the environment's: \<open>rd i\<close> is the \<open>i\<close>-th number one
  generator draws from it, and \<open>rd() & 0xFF\<close> the byte the code keeps.
\<close>

type_synonym random_device = "nat \<Rightarrow> u32"

definition rd_byte :: "random_device \<Rightarrow> nat \<Rightarrow> byte" where
  "rd_byte rd i = ucast (rd i AND 0xFF)"

definition randomHex :: "random_device \<Rightarrow> nat \<Rightarrow> string" where
  "randomHex rd n = concat (map (\<lambda>i. hex_byte (rd_byte rd i)) [0..<n])"

definition generateUserId :: "random_device \<Rightarrow> UserId" where
  "generateUserId rd =
     (let h = randomHex rd 16
      in UserId (take 8 h @ ''-'' @ take 4 (drop 8 h) @ ''-'' @ take 4 (drop 12 h) @ ''-''
                 @ take 4 (drop 16 h) @ ''-'' @ take 12 (drop 20 h)))"

definition generateSessionId :: "random_device \<Rightarrow> SessionId" where
  "generateSessionId rd = SessionId (''sess_'' @ randomHex rd 32)"

section \<open>Digests\<close>

datatype Digest = Digest (dbytes: bytes)

definition digest_wf :: "Digest \<Rightarrow> bool" where
  "digest_wf d \<longleftrightarrow> length (dbytes d) = 32"

definition fnv1a32 :: "string \<Rightarrow> u32" where
  "fnv1a32 s = foldl (\<lambda>h c. (h XOR ucast (byte_of_char c)) * 16777619) 2166136261 s"

definition sha256stub :: "string \<Rightarrow> Digest" where
  "sha256stub s =
     (let h = fnv1a32 s
      in Digest (map (\<lambda>i. ucast (drop_bit ((i mod 4) * 8) h XOR word_of_nat (i * 31))) [0..<32]))"

section \<open>Users\<close>

record User =
  user_id :: UserId
  username :: string
  email :: string
  role :: string
  status :: string
  failedAttempts :: int
  lockoutUntil :: int

definition mkUser :: "UserId \<Rightarrow> string \<Rightarrow> string \<Rightarrow> string \<Rightarrow> string \<Rightarrow> int \<Rightarrow> int \<Rightarrow> exn + User" where
  "mkUser i name mail r st fails until =
     (if uid i = [] \<or> name = [] \<or> mail = [] then Inl (ValidationException ''user fields empty'')
      else Inr \<lparr>user_id = i, username = name, email = mail, role = r, status = st,
                failedAttempts = fails, lockoutUntil = until\<rparr>)"

definition isAdmin :: "User \<Rightarrow> bool" where
  "isAdmin u \<longleftrightarrow> role u = ''admin''"

definition isActive :: "User \<Rightarrow> bool" where
  "isActive u \<longleftrightarrow> status u = ''active''"

definition canLogin :: "User \<Rightarrow> int \<Rightarrow> bool" where
  "canLogin u now \<longleftrightarrow> isActive u \<and> now \<ge> lockoutUntil u"

definition setStatus :: "User \<Rightarrow> string \<Rightarrow> User" where
  "setStatus u st = u\<lparr>status := st\<rparr>"

definition setLockout :: "User \<Rightarrow> int \<Rightarrow> int \<Rightarrow> User" where
  "setLockout u until attempts = u\<lparr>lockoutUntil := until, failedAttempts := attempts\<rparr>"

section \<open>Sessions\<close>

record Session =
  session_id :: SessionId
  userId :: UserId
  createdAt :: int
  expiresAt :: int
  revoked :: bool

definition mkSession :: "SessionId \<Rightarrow> UserId \<Rightarrow> int \<Rightarrow> int \<Rightarrow> bool \<Rightarrow> exn + Session" where
  "mkSession i u c e rv =
     (if c \<ge> e then Inl (ValidationException ''session time range invalid'')
      else Inr \<lparr>session_id = i, userId = u, createdAt = c, expiresAt = e, revoked = rv\<rparr>)"

definition session_isValid :: "Session \<Rightarrow> int \<Rightarrow> bool" where
  "session_isValid s now \<longleftrightarrow> \<not> revoked s \<and> now \<ge> createdAt s \<and> now < expiresAt s"

section \<open>Clocks\<close>

text \<open>
  The system clock casts the ticks since the epoch to milliseconds, towards zero. How many
  ticks a millisecond has (a million in libstdc++) and what the clock reads are arguments; the
  services take the result as \<open>now\<close>. The other clock is set by hand in tests.
\<close>

definition SystemClock_nowMs :: "int \<Rightarrow> int \<Rightarrow> int" where
  "SystemClock_nowMs per_ms ticks = (if ticks < 0 then - (- ticks div per_ms) else ticks div per_ms)"

record FakeClock =
  clock_ms :: int

definition nowMs :: "FakeClock \<Rightarrow> int" where
  "nowMs c = clock_ms c"

definition clock_advance :: "int \<Rightarrow> FakeClock \<Rightarrow> FakeClock" where
  "clock_advance d c = c\<lparr>clock_ms := clock_ms c + d\<rparr>"

definition clock_set :: "int \<Rightarrow> FakeClock \<Rightarrow> FakeClock" where
  "clock_set t c = c\<lparr>clock_ms := t\<rparr>"

section \<open>Wrapped keys, file records, transfers\<close>

definition seal_alg :: string where
  "seal_alg = ''X25519-AES-GCM-Seal''"

record WrappedKey =
  recipientId :: UserId
  nonce :: bytes
  wbytes :: bytes
  alg :: string

definition emptyWrappedKey :: WrappedKey where
  "emptyWrappedKey = \<lparr>recipientId = UserId '''', nonce = [], wbytes = [], alg = seal_alg\<rparr>"

definition mkWrappedKey :: "UserId \<Rightarrow> bytes \<Rightarrow> bytes \<Rightarrow> string \<Rightarrow> exn + WrappedKey" where
  "mkWrappedKey r n b a =
     (if length n \<noteq> 12 then Inl (ValidationException ''nonce must be 12'')
      else if b = [] then Inl (ValidationException ''wrapped bytes empty'')
      else Inr \<lparr>recipientId = r, nonce = n, wbytes = b, alg = a\<rparr>)"

record FileRecord =
  file_id :: FileId
  owner :: UserId
  origName :: string
  storageId :: string
  fsize :: u64
  digest :: Digest
  wrapped :: WrappedKey
  recipient :: UserId
  uploadId :: string
  fcreatedAt :: int

definition isOwnedBy :: "FileRecord \<Rightarrow> UserId \<Rightarrow> bool" where
  "isOwnedBy r u \<longleftrightarrow> owner r = u"

definition validateFileRecord :: "FileRecord \<Rightarrow> exn + unit" where
  "validateFileRecord r =
     (if origName r = [] then Inl (ValidationException ''origName empty'')
      else if storageId r = [] then Inl (ValidationException ''storageId empty'')
      else if uploadId r = [] then Inl (ValidationException ''uploadId empty'')
      else Inr ())"

datatype TransferStatus = CREATED | UPLOADED | DOWNLOADED | FAILED

record Transfer =
  transfer_id :: TransferId
  tfile :: FileId
  sender :: UserId
  trecipient :: UserId
  tstatus :: TransferStatus

definition markDownloaded :: "Transfer \<Rightarrow> Transfer" where
  "markDownloaded t = t\<lparr>tstatus := DOWNLOADED\<rparr>"

record DownloadToken =
  tokenHash :: string
  dfile :: FileId
  creator :: UserId
  bind :: UserId
  dexpiresAt :: int
  maxUses :: int
  useCount :: int
  drevoked :: bool

definition validFor :: "DownloadToken \<Rightarrow> UserId \<Rightarrow> int \<Rightarrow> bool" where
  "validFor t u now =
     (if drevoked t then False
      else if bind t \<noteq> u then False
      else if now > dexpiresAt t then False
      else if useCount t \<ge> maxUses t then False
      else True)"

section \<open>Audit events\<close>

record AuditEvent =
  seq :: u64
  ts :: string
  actor :: string
  action :: string
  efileId :: string
  cipherHash :: string
  prevHash :: string
  msgHash :: string

text \<open>The aggregate \<open>{0, "", actor, action, fileId, "", "", ""}\<close> that the services record.\<close>

definition event :: "string \<Rightarrow> string \<Rightarrow> string \<Rightarrow> AuditEvent" where
  "event who act file = \<lparr>seq = 0, ts = '''', actor = who, action = act, efileId = file,
     cipherHash = '''', prevHash = '''', msgHash = ''''\<rparr>"

section \<open>The policy engine\<close>

type_synonym PolicyEngine = "string \<Rightarrow> string set option"

definition grant :: "PolicyEngine \<Rightarrow> FileId \<Rightarrow> UserId \<Rightarrow> PolicyEngine" where
  "grant g f u = g(fid f \<mapsto> insert (uid u) (case g (fid f) of None \<Rightarrow> {} | Some s \<Rightarrow> s))"

definition isAuthorized :: "PolicyEngine \<Rightarrow> UserId \<Rightarrow> FileRecord \<Rightarrow> bool" where
  "isAuthorized g u f =
     (if isOwnedBy f u then True
      else case g (fid (file_id f)) of None \<Rightarrow> False | Some s \<Rightarrow> uid u \<in> s)"

section \<open>Lemmas\<close>

lemma user_update_fields [simp]:
  "user_id (setStatus u st) = user_id u" "username (setStatus u st) = username u"
  "email (setStatus u st) = email u" "role (setStatus u st) = role u" "status (setStatus u st) = st"
  "user_id (setLockout u t n) = user_id u" "username (setLockout u t n) = username u"
  "email (setLockout u t n) = email u" "role (setLockout u t n) = role u"
  "status (setLockout u t n) = status u" "failedAttempts (setLockout u t n) = n"
  "lockoutUntil (setLockout u t n) = t" "lockoutUntil (setStatus u st) = lockoutUntil u"
  "failedAttempts (setStatus u st) = failedAttempts u"
  by (simp_all add: setStatus_def setLockout_def)

text \<open>Truncation keeps the order of instants, before and after the epoch.\<close>

lemma nowMs_mono:
  assumes "0 < per_ms" "a \<le> b"
  shows "SystemClock_nowMs per_ms a \<le> SystemClock_nowMs per_ms b"
proof (cases "0 \<le> a \<or> b < 0")
  case True
  then show ?thesis using assms zdiv_mono1 [of a b per_ms] zdiv_mono1 [of "- b" "- a" per_ms] by (auto simp: SystemClock_nowMs_def)
next
  case False
  then have "0 \<le> - a div per_ms" "0 \<le> b div per_ms" using assms(1) by (simp_all add: pos_imp_zdiv_nonneg_iff)
  with False show ?thesis by (simp add: SystemClock_nowMs_def)
qed

lemma event_fields [simp]:
  "actor (event a b c) = a" "action (event a b c) = b" "efileId (event a b c) = c" "ts (event a b c) = ''''"
  "cipherHash (event a b c) = ''''"
  by (simp_all add: event_def)

lemma randomHex_eq_hex_string: "randomHex rd n = hex_string (map (rd_byte rd) [0..<n])"
  by (simp add: randomHex_def hex_string_def comp_def)

lemma length_randomHex [simp]: "length (randomHex rd n) = 2 * n"
  by (simp add: randomHex_eq_hex_string)

lemma randomHex_inj:
  "randomHex rd n = randomHex rd' n \<longleftrightarrow> (\<forall>i<n. rd_byte rd i = rd_byte rd' i)"
  using hex_string_inj [of "map (rd_byte rd) [0..<n]" "map (rd_byte rd') [0..<n]"]
  by (auto simp: randomHex_eq_hex_string intro!: arg_cong [where f = hex_string])

lemma hex_digit_not_dash: "n < 16 \<Longrightarrow> hex_digit n \<noteq> CHR ''-''"
  by (drule hex_val_digit) (auto simp: hex_val_def)

lemma uuid_split:
  assumes "length h = 32" and "length h' = 32"
    and "take 8 h @ ''-'' @ take 4 (drop 8 h) @ ''-'' @ take 4 (drop 12 h) @ ''-''
           @ take 4 (drop 16 h) @ ''-'' @ take 12 (drop 20 h)
         = take 8 h' @ ''-'' @ take 4 (drop 8 h') @ ''-'' @ take 4 (drop 12 h') @ ''-''
           @ take 4 (drop 16 h') @ ''-'' @ take 12 (drop 20 h')"
  shows "h = h'"
proof -
  have parts: "x = take 8 x @ take 4 (drop 8 x) @ take 4 (drop 12 x) @ take 4 (drop 16 x)
      @ take 12 (drop 20 x)" if "length x = 32" for x :: string
    using that take_add [of 8 24 x] take_add [of 4 20 "drop 8 x"] take_add [of 4 16 "drop 12 x"]
      take_add [of 4 12 "drop 16 x"] by simp
  from assms have "take 8 h = take 8 h'" "take 4 (drop 8 h) = take 4 (drop 8 h')"
    "take 4 (drop 12 h) = take 4 (drop 12 h')" "take 4 (drop 16 h) = take 4 (drop 16 h')"
    "take 12 (drop 20 h) = take 12 (drop 20 h')"
    by (auto simp: append_eq_append_conv)
  then show ?thesis using parts [OF assms(1)] parts [OF assms(2)] by simp
qed

section \<open>Properties\<close>

text \<open>
  Generated identifiers lose no randomness: two user (and file, storage, transfer)
  identifiers are equal only if all sixteen random bytes behind them are, and two session
  tokens only if all thirty-two are.
\<close>

theorem generated_ids_injective:
  "(generateUserId rd = generateUserId rd' \<longleftrightarrow> (\<forall>i<16. rd_byte rd i = rd_byte rd' i))
   \<and> (generateSessionId rd = generateSessionId rd' \<longleftrightarrow> (\<forall>i<32. rd_byte rd i = rd_byte rd' i))"
proof -
  have "generateUserId rd = generateUserId rd' \<longleftrightarrow> randomHex rd 16 = randomHex rd' 16"
    using uuid_split [of "randomHex rd 16" "randomHex rd' 16"]
    by (auto simp: generateUserId_def Let_def)
  then show ?thesis by (simp add: randomHex_inj generateSessionId_def)
qed

theorem generated_ids_injective_witness:
  "generateUserId (\<lambda>_. 1) \<noteq> generateUserId (\<lambda>_. 2)
   \<and> generateSessionId (\<lambda>_. 1) = generateSessionId (\<lambda>_. 0x101)"
proof -
  have "rd_byte (\<lambda>_. 1) i \<noteq> rd_byte (\<lambda>_. 2) i" "rd_byte (\<lambda>_. 1) i = rd_byte (\<lambda>_. 0x101) i" for i
    by (simp_all add: rd_byte_def)
  then show ?thesis
    using generated_ids_injective [of "\<lambda>_. 1" "\<lambda>_. 2", THEN conjunct1]
      generated_ids_injective [of "\<lambda>_. 1" "\<lambda>_. 0x101", THEN conjunct2] zero_less_numeral
    by metis
qed

text \<open>
  Default deny: after any sequence of grants, the policy engine authorises exactly
  the owner of a file and the users it was granted to.
\<close>

theorem policy_default_deny:
  "isAuthorized (foldl (\<lambda>g (f, u). grant g f u) (\<lambda>_. None) gs) u f
     \<longleftrightarrow> owner f = u \<or> (file_id f, u) \<in> set gs"
proof (induction gs rule: rev_induct)
  case Nil
  show ?case by (simp add: isAuthorized_def isOwnedBy_def)
next
  case (snoc x gs)
  obtain f' u' where "x = (f', u')" by (cases x)
  with snoc show ?case
    by (cases f'; cases u'; cases u; cases "file_id f")
       (auto simp: isAuthorized_def isOwnedBy_def grant_def split: option.splits if_splits)
qed

end
