(* ===== verification/TlsTrust.thy ===== *)
theory TlsTrust
  imports Framing Domain
begin

unbundle bit_operations_syntax

text \<open>
  Which server the client trusts (\<^verbatim>\<open>src/infrastructure/asio_tls_transport.cpp\<close> and the start
  of \<^verbatim>\<open>ClientApp::run\<close>): the fingerprint of a certificate file, the comparison in constant
  time, and the callback that decides during the handshake. Certificates and their
  encoding belong to OpenSSL and are parameters.
\<close>

section \<open>OpenSSL's certificates\<close>

record 'x509 x509_lib =
  PEM_read_X509 :: "bytes \<Rightarrow> 'x509 option"
  d2i_X509_fp :: "bytes \<Rightarrow> 'x509 option"
  i2d_X509 :: "'x509 \<Rightarrow> bytes"
  EVP_sha256 :: "bytes \<Rightarrow> bytes"
  cmp_notBefore :: "'x509 \<Rightarrow> int"
  cmp_notAfter :: "'x509 \<Rightarrow> int"

record TrustConfig =
  fingerprint :: string
  certPath :: string
  keyPath :: string
  caPath :: string

section \<open>Fingerprints\<close>

definition toupper :: "char \<Rightarrow> char" where
  "toupper c = (if 97 \<le> (of_char c :: nat) \<and> (of_char c :: nat) \<le> 122 then char_of ((of_char c :: nat) - 32) else c)"

definition computeDerFingerprint :: "'x509 x509_lib \<Rightarrow> 'x509 \<Rightarrow> string" where
  "computeDerFingerprint X cert =
     (let der = i2d_X509 X cert
      in if der = [] then '''' else map toupper (hex_string (EVP_sha256 X der)))"

text \<open>The file is opened once for PEM and, if that fails, once more for DER.\<close>

definition computeSha256Fingerprint :: "'x509 x509_lib \<Rightarrow> bytes option \<Rightarrow> bytes option \<Rightarrow> string" where
  "computeSha256Fingerprint X fopen1 fopen2 =
     (case fopen1 of
        None \<Rightarrow> ''''
      | Some b \<Rightarrow>
          (case PEM_read_X509 X b of
             Some cert \<Rightarrow> computeDerFingerprint X cert
           | None \<Rightarrow>
               (case fopen2 of
                  None \<Rightarrow> ''''
                | Some b' \<Rightarrow>
                    (case d2i_X509_fp X b' of None \<Rightarrow> '''' | Some cert \<Rightarrow> computeDerFingerprint X cert))))"

fun diff_loop :: "string \<Rightarrow> string \<Rightarrow> byte \<Rightarrow> byte" where
  "diff_loop (a # as) (b # bs) diff = diff_loop as bs (diff OR (byte_of_char a XOR byte_of_char b))"
| "diff_loop _ _ diff = diff"

definition constantTimeEqual :: "string \<Rightarrow> string \<Rightarrow> bool" where
  "constantTimeEqual a b = (if length a \<noteq> length b then False else diff_loop a b 0 = 0)"

definition normalise :: "string \<Rightarrow> string" where
  "normalise s = map toupper (filter (\<lambda>c. c \<noteq> CHR '':'') s)"

definition verifyFingerprint :: "'x509 x509_lib \<Rightarrow> TrustConfig \<Rightarrow> 'x509 \<Rightarrow> bool" where
  "verifyFingerprint X cfg cert =
     (if fingerprint cfg = [] then True
      else let actual = computeDerFingerprint X cert
           in if actual = [] then False else constantTimeEqual (normalise (fingerprint cfg)) (normalise actual))"

definition verify_callback :: "'x509 x509_lib \<Rightarrow> TrustConfig \<Rightarrow> bool \<Rightarrow> 'x509 option \<Rightarrow> bool" where
  "verify_callback X cfg preverified cert =
     (if \<not> preverified then False
      else case cert of
             None \<Rightarrow> False
           | Some x \<Rightarrow>
               if cmp_notBefore X x > 0 then False
               else if cmp_notAfter X x < 0 then False
               else if \<not> verifyFingerprint X cfg x then False
               else True)"

text \<open>The server asks for no client certificate.\<close>

definition listener_callback :: "bool \<Rightarrow> 'x509 option \<Rightarrow> bool" where
  "listener_callback preverified cert = (if cert = None then True else preverified)"

section \<open>Connecting\<close>

text \<open>What resolving, connecting and the handshake end in.\<close>

datatype connect_outcome = Connected | SystemError string | OtherException string

definition AsioTls_connect :: "connect_outcome \<Rightarrow> exn + unit" where
  "AsioTls_connect r =
     (case r of
        Connected \<Rightarrow> Inr ()
      | SystemError m \<Rightarrow> Inl (TransportException (''TLS handshake failed: '' @ m))
      | OtherException m \<Rightarrow> Inl (TransportException (''TLS connect failed: '' @ m)))"

definition client_trust :: "'x509 x509_lib \<Rightarrow> bytes option \<Rightarrow> bytes option \<Rightarrow> TrustConfig" where
  "client_trust X fopen1 fopen2 =
     (let trust = \<lparr>fingerprint = '''', certPath = ''./certs/server.crt'', keyPath = '''', caPath = ''./certs/server.crt''\<rparr>;
          fp = computeSha256Fingerprint X fopen1 fopen2
      in if fp \<noteq> [] then trust\<lparr>fingerprint := fp\<rparr> else trust)"

section \<open>Lemmas\<close>

lemma xor_zero: "(x :: byte) XOR y = 0 \<longleftrightarrow> x = y"
  by (metis xor.assoc xor.left_neutral xor_self_eq)

lemma diff_zero: "length a = length b \<Longrightarrow> diff_loop a b d = 0 \<longleftrightarrow> d = 0 \<and> a = b"
proof (induction a b d rule: diff_loop.induct)
  case (1 a as b bs diff)
  have "diff OR (byte_of_char a XOR byte_of_char b) = 0 \<longleftrightarrow> diff = 0 \<and> byte_of_char a = byte_of_char b"
    by (simp add: or_eq_0_iff xor_zero)
  moreover have "byte_of_char a = byte_of_char b \<longleftrightarrow> a = b" by (metis char_of_byte_inverse)
  ultimately show ?case using 1 by auto
qed auto

lemma ct_eq: "constantTimeEqual a b \<longleftrightarrow> a = b"
  by (auto simp: constantTimeEqual_def diff_zero)

lemma of_char_toupper: "(of_char (toupper c) :: nat) = (if 97 \<le> (of_char c :: nat) \<and> (of_char c :: nat) \<le> 122 then of_char c - 32 else of_char c)"
  by (auto simp: toupper_def)

lemma hex_val_toupper: "hex_val (toupper c) = hex_val c"
  unfolding hex_val_def of_char_toupper Let_def by auto

lemma toupper_idem: "toupper (toupper c) = toupper c"
  by (auto simp: toupper_def)

lemma hex_upper_inj: "map toupper (hex_string a) = map toupper (hex_string b) \<longleftrightarrow> a = b"
proof
  assume "map toupper (hex_string a) = map toupper (hex_string b)"
  then have "map hex_val (map toupper (hex_string a)) = map hex_val (map toupper (hex_string b))" by simp
  then have eq: "map hex_val (hex_string a) = map hex_val (hex_string b)" by (simp add: hex_val_toupper comp_def)
  have inj: "x = y" if "x \<in> set (hex_string a)" "y \<in> set (hex_string b)" "hex_val x = hex_val y" for x y
    using that set_hex_string [of x a] set_hex_string [of y b] by (auto simp: hex_val_digit)
  have "hex_string a = hex_string b"
    using eq inj by (auto simp: list_eq_iff_nth_eq)
  then show "a = b" by (rule hex_string_inj)
qed simp

lemma colon_free: "filter (\<lambda>c. c \<noteq> CHR '':'') (map toupper (hex_string h)) = map toupper (hex_string h)"
proof -
  have "hex_val c \<noteq> None" if "c \<in> set (map toupper (hex_string h))" for c
    using that set_hex_string by (fastforce simp: hex_val_toupper hex_val_digit)
  moreover have "hex_val (CHR '':'') = None" by (simp add: hex_val_def)
  ultimately show ?thesis by (intro filter_True) metis
qed

lemma normalise_fingerprint: "normalise (map toupper (hex_string h)) = map toupper (hex_string h)"
  unfolding normalise_def colon_free by (simp add: toupper_idem)

section \<open>Properties\<close>

text \<open>
  The comparison that reads both strings to the end, whatever differs, decides equality.
\<close>

theorem constant_time_equal: "constantTimeEqual a b \<longleftrightarrow> a = b"
  by (rule ct_eq)

text \<open>
  C34. The client accepts exactly the pinned server: with the certificate file it ships, the
  handshake callback accepts a certificate if and only if the chain was verified, the
  current time lies in its validity period, and the SHA-256 of its DER encoding is the one
  of the certificate in the file.
\<close>

theorem tls_pinning:
  assumes "PEM_read_X509 X b = Some pinned" "i2d_X509 X pinned \<noteq> []" "\<forall>d. length (EVP_sha256 X d) = 32"
  shows "verify_callback X (client_trust X (Some b) f2) pre (Some cert) \<longleftrightarrow>
     pre \<and> cmp_notBefore X cert \<le> 0 \<and> 0 \<le> cmp_notAfter X cert \<and> i2d_X509 X cert \<noteq> []
     \<and> EVP_sha256 X (i2d_X509 X cert) = EVP_sha256 X (i2d_X509 X pinned)"
proof -
  let ?h = "\<lambda>c. map toupper (hex_string (EVP_sha256 X (i2d_X509 X c)))"
  have ne: "?h c \<noteq> []" for c using assms(3) by (metis length_0_conv length_hex_string length_map mult_is_0 zero_neq_numeral)
  have fp: "computeSha256Fingerprint X (Some b) f2 = ?h pinned"
    using assms(1,2) by (simp add: computeSha256Fingerprint_def computeDerFingerprint_def Let_def)
  then have cfg: "fingerprint (client_trust X (Some b) f2) = ?h pinned" using ne [of pinned] by (simp add: client_trust_def Let_def)
  have "verifyFingerprint X (client_trust X (Some b) f2) cert \<longleftrightarrow> i2d_X509 X cert \<noteq> [] \<and> ?h pinned = ?h cert"
    unfolding verifyFingerprint_def cfg using ne [of pinned] ne [of cert]
    by (simp add: computeDerFingerprint_def Let_def ct_eq normalise_fingerprint)
  then show ?thesis unfolding hex_upper_inj by (auto simp: verify_callback_def)
qed

text \<open>Without a readable certificate file nothing is pinned: any verified certificate in its period is accepted.\<close>

lemma unpinned:
  "verify_callback X (client_trust X None f2) pre (Some cert) \<longleftrightarrow> pre \<and> cmp_notBefore X cert \<le> 0 \<and> 0 \<le> cmp_notAfter X cert"
  by (auto simp: verify_callback_def client_trust_def computeSha256Fingerprint_def verifyFingerprint_def Let_def)

definition demo_x509 :: "bytes x509_lib" where
  "demo_x509 = \<lparr>PEM_read_X509 = Some, d2i_X509_fp = Some, i2d_X509 = (\<lambda>c. c), EVP_sha256 = (\<lambda>d. take 32 (d @ replicate 32 0)),
     cmp_notBefore = (\<lambda>_. - 1), cmp_notAfter = (\<lambda>_. 1)\<rparr>"

theorem tls_pinning_witness:
  "verify_callback demo_x509 (client_trust demo_x509 (Some [1, 2]) None) True (Some [1, 2])
   \<and> \<not> verify_callback demo_x509 (client_trust demo_x509 (Some [1, 2]) None) True (Some [1, 3])"
proof -
  have h: "PEM_read_X509 demo_x509 [1, 2] = Some [1, 2]" "i2d_X509 demo_x509 [1, 2] \<noteq> []" "\<forall>d. length (EVP_sha256 demo_x509 d) = 32"
    by (auto simp: demo_x509_def)
  show ?thesis
    using tls_pinning [OF h, of None True "[1, 2]"] tls_pinning [OF h, of None True "[1, 3]"]
    by (simp add: demo_x509_def [THEN arg_cong, of i2d_X509] demo_x509_def [THEN arg_cong, of EVP_sha256]
        demo_x509_def [THEN arg_cong, of cmp_notBefore] demo_x509_def [THEN arg_cong, of cmp_notAfter])
qed

end
