(* ===== verification/ClientCrypto.thy ===== *)
theory ClientCrypto
  imports Domain
begin

text \<open>
  End-to-end encryption on the client (\<^verbatim>\<open>src/infrastructure/client_crypto.cpp\<close>,
  \<^verbatim>\<open>src/domain/key_pair.cpp\<close>, \<^verbatim>\<open>fake_crypto.hpp\<close>): a fresh AES-256-GCM key per
  file, sealed to the recipient's X25519 key. The OpenSSL functions are parameters, one
  per call of the source, over abstract key and context handles; what the code relies on is
  collected in \<open>openssl_ok\<close>. Cleansing memory has no counterpart in the model.
\<close>

section \<open>The OpenSSL calls\<close>

text \<open>
  A call that fills a buffer returns its return code with the bytes written; a call on a
  context also returns the context afterwards. A constructor that may return null returns
  an option. The two update calls take a buffer and how many of its bytes to process, as a
  C \<open>int\<close>.
\<close>

record ('pk, 'dc, 'cc) openssl =
  SHA256 :: "bytes \<Rightarrow> bytes"
  EVP_PKEY_new_raw_private_key :: "bytes \<Rightarrow> 'pk option"
  EVP_PKEY_new_raw_public_key :: "bytes \<Rightarrow> 'pk option"
  EVP_PKEY_get_raw_public_key :: "'pk \<Rightarrow> int \<times> bytes"
  EVP_PKEY_CTX_new :: "'pk \<Rightarrow> 'dc option"
  EVP_PKEY_derive_init :: "'dc \<Rightarrow> int \<times> 'dc"
  EVP_PKEY_derive_set_peer :: "'dc \<Rightarrow> 'pk \<Rightarrow> int \<times> 'dc"
  EVP_PKEY_derive :: "'dc \<Rightarrow> int \<times> bytes"
  EVP_CIPHER_CTX_new :: "'cc option"
  EVP_EncryptInit_gcm :: "'cc \<Rightarrow> int \<times> 'cc"
  EVP_EncryptInit_key :: "'cc \<Rightarrow> bytes \<Rightarrow> bytes \<Rightarrow> int \<times> 'cc"
  EVP_EncryptUpdate :: "'cc \<Rightarrow> bytes \<Rightarrow> int \<Rightarrow> int \<times> bytes \<times> 'cc"
  EVP_EncryptFinal_ex :: "'cc \<Rightarrow> int \<times> bytes \<times> 'cc"
  EVP_DecryptInit_gcm :: "'cc \<Rightarrow> int \<times> 'cc"
  EVP_DecryptInit_key :: "'cc \<Rightarrow> bytes \<Rightarrow> bytes \<Rightarrow> int \<times> 'cc"
  EVP_DecryptUpdate :: "'cc \<Rightarrow> bytes \<Rightarrow> int \<Rightarrow> int \<times> bytes \<times> 'cc"
  EVP_DecryptFinal_ex :: "'cc \<Rightarrow> int \<times> bytes \<times> 'cc"
  GCM_SET_IVLEN :: "'cc \<Rightarrow> nat \<Rightarrow> int \<times> 'cc"
  GCM_GET_TAG :: "'cc \<Rightarrow> nat \<Rightarrow> int \<times> bytes"
  GCM_SET_TAG :: "'cc \<Rightarrow> bytes \<Rightarrow> int \<times> 'cc"

text \<open>\<open>RAND_bytes(buf, n)\<close>, the \<open>i\<close>-th call of an operation: \<open>n\<close> bytes, or a failure.\<close>

type_synonym rand = "nat \<Rightarrow> nat \<Rightarrow> bytes option"

definition raising :: "bool \<Rightarrow> exn \<Rightarrow> exn + 'a \<Rightarrow> exn + 'a" where
  "raising bad e m = (if bad then Inl e else m)"

section \<open>Key pairs\<close>

record KeyPair =
  pub :: bytes
  priv :: bytes

definition KeyPair_generate :: "('pk, 'dc, 'cc) openssl \<Rightarrow> rand \<Rightarrow> exn + KeyPair" where
  "KeyPair_generate L rnd =
     (case rnd 0 32 of
        None \<Rightarrow> Inl (RuntimeError ''RAND_bytes failed for priv'')
      | Some sk \<Rightarrow>
          (case EVP_PKEY_new_raw_private_key L sk of
             None \<Rightarrow> Inl (RuntimeError ''EVP_PKEY_new_raw_private_key failed'')
           | Some pkey \<Rightarrow>
               (case EVP_PKEY_get_raw_public_key L pkey of
                  (rc, pk) \<Rightarrow> raising (rc \<noteq> 1 \<or> length pk \<noteq> 32) (RuntimeError ''EVP_PKEY_get_raw_public_key failed'')
                                (Inr \<lparr>pub = pk, priv = sk\<rparr>))))"

section \<open>Sealing the file key\<close>

definition sha256_bytes :: "('pk, 'dc, 'cc) openssl \<Rightarrow> bytes \<Rightarrow> bytes" where
  "sha256_bytes L d = SHA256 L d"

definition digestFromPlain :: "('pk, 'dc, 'cc) openssl \<Rightarrow> bytes \<Rightarrow> Digest" where
  "digestFromPlain L plain = Digest (sha256_bytes L plain)"

definition x25519Shared :: "('pk, 'dc, 'cc) openssl \<Rightarrow> bytes \<Rightarrow> bytes \<Rightarrow> exn + bytes" where
  "x25519Shared L sk pk =
     (case EVP_PKEY_new_raw_private_key L sk of
        None \<Rightarrow> Inl (IntegrityException ''X25519 priv init failed'')
      | Some pkeyPriv \<Rightarrow>
          (case EVP_PKEY_new_raw_public_key L pk of
             None \<Rightarrow> Inl (IntegrityException ''X25519 pub init failed'')
           | Some pkeyPub \<Rightarrow>
               (case EVP_PKEY_CTX_new L pkeyPriv of
                  None \<Rightarrow> Inl (IntegrityException ''X25519 ctx failed'')
                | Some ctx \<Rightarrow>
                    (case EVP_PKEY_derive_init L ctx of (rc, ctx) \<Rightarrow>
                     raising (rc \<le> 0) (IntegrityException ''derive_init failed'')
                     (case EVP_PKEY_derive_set_peer L ctx pkeyPub of (rc, ctx) \<Rightarrow>
                      raising (rc \<le> 0) (IntegrityException ''derive_set_peer failed'')
                      (case EVP_PKEY_derive L ctx of (rc, secret) \<Rightarrow>
                       raising (rc \<le> 0 \<or> length secret \<noteq> 32) (IntegrityException ''X25519 derive failed'')
                       (Inr secret)))))))"

definition x25519PubFromPriv :: "('pk, 'dc, 'cc) openssl \<Rightarrow> bytes \<Rightarrow> exn + bytes" where
  "x25519PubFromPriv L sk =
     (case EVP_PKEY_new_raw_private_key L sk of
        None \<Rightarrow> Inl (IntegrityException ''X25519 priv->pub init failed'')
      | Some pkey \<Rightarrow>
          (case EVP_PKEY_get_raw_public_key L pkey of (rc, pk) \<Rightarrow>
           raising (rc \<le> 0 \<or> length pk \<noteq> 32) (IntegrityException ''X25519 get pub failed'') (Inr pk)))"

definition xor_bytes :: "bytes \<Rightarrow> bytes \<Rightarrow> bytes" where
  "xor_bytes a b = map2 (XOR) a b"

definition sealDEK :: "('pk, 'dc, 'cc) openssl \<Rightarrow> rand \<Rightarrow> bytes \<Rightarrow> bytes \<Rightarrow> exn + bytes" where
  "sealDEK L rnd dek recipientPub =
     (if length recipientPub \<noteq> 32 then Inl (ValidationException ''recipient pubkey must be 32'')
      else case rnd 2 32 of
             None \<Rightarrow> Inl (RuntimeError ''RAND_bytes ephPriv failed'')
           | Some ephPriv \<Rightarrow>
               bindE (x25519PubFromPriv L ephPriv) (\<lambda>ephPub.
               bindE (x25519Shared L ephPriv recipientPub) (\<lambda>shared.
               Inr (ephPub @ xor_bytes dek (sha256_bytes L shared)))))"

definition unsealDEK :: "('pk, 'dc, 'cc) openssl \<Rightarrow> bytes \<Rightarrow> bytes \<Rightarrow> exn + bytes" where
  "unsealDEK L sealed sk =
     (if length sealed \<noteq> 64 then Inl (IntegrityException ''sealed DEK size invalid'')
      else bindE (x25519Shared L sk (take 32 sealed)) (\<lambda>shared.
           Inr (xor_bytes (drop 32 sealed) (sha256_bytes L shared))))"

section \<open>The file cipher\<close>

definition aesGcmEncrypt :: "('pk, 'dc, 'cc) openssl \<Rightarrow> bytes \<Rightarrow> bytes \<Rightarrow> bytes \<Rightarrow> exn + bytes" where
  "aesGcmEncrypt L plain dek iv =
     (case EVP_CIPHER_CTX_new L of
        None \<Rightarrow> Inl (RuntimeError ''EVP_CIPHER_CTX_new failed'')
      | Some ctx \<Rightarrow>
          (case EVP_EncryptInit_gcm L ctx of (rc, ctx) \<Rightarrow>
           raising (rc \<noteq> 1) (RuntimeError ''EncryptInit failed'')
           (case GCM_SET_IVLEN L ctx 12 of (rc, ctx) \<Rightarrow>
            raising (rc \<noteq> 1) (RuntimeError ''SET_IVLEN failed'')
            (case EVP_EncryptInit_key L ctx dek iv of (rc, ctx) \<Rightarrow>
             raising (rc \<noteq> 1) (RuntimeError ''EncryptInit key/nonce failed'')
             (case (if plain = [] then (1, [], ctx) else EVP_EncryptUpdate L ctx plain (as_int (length plain))) of (rc, ct, ctx) \<Rightarrow>
              raising (rc \<noteq> 1) (RuntimeError ''EncryptUpdate failed'')
              (case EVP_EncryptFinal_ex L ctx of (rc, fin, ctx) \<Rightarrow>
               raising (rc \<noteq> 1) (RuntimeError ''EncryptFinal failed'')
               (case GCM_GET_TAG L ctx 16 of (rc, tag) \<Rightarrow>
                raising (rc \<noteq> 1) (RuntimeError ''GET_TAG failed'')
                (Inr (ct @ fin @ tag)))))))))"

definition aesGcmDecrypt :: "('pk, 'dc, 'cc) openssl \<Rightarrow> bytes \<Rightarrow> bytes \<Rightarrow> bytes \<Rightarrow> exn + bytes" where
  "aesGcmDecrypt L cipher dek iv =
     (if length cipher < 16 then Inl (IntegrityException ''cipher too short (tag missing)'')
      else let ctLen = length cipher - 16; ct = take ctLen cipher; tag = drop ctLen cipher
           in case EVP_CIPHER_CTX_new L of
                None \<Rightarrow> Inl (RuntimeError ''EVP_CIPHER_CTX_new failed'')
              | Some ctx \<Rightarrow>
                  (case EVP_DecryptInit_gcm L ctx of (rc, ctx) \<Rightarrow>
                   raising (rc \<noteq> 1) (RuntimeError ''DecryptInit failed'')
                   (case GCM_SET_IVLEN L ctx 12 of (rc, ctx) \<Rightarrow>
                    raising (rc \<noteq> 1) (RuntimeError ''SET_IVLEN failed'')
                    (case EVP_DecryptInit_key L ctx dek iv of (rc, ctx) \<Rightarrow>
                     raising (rc \<noteq> 1) (RuntimeError ''DecryptInit key failed'')
                     (case (if ctLen > 0 then EVP_DecryptUpdate L ctx ct (as_int ctLen) else (1, [], ctx)) of (rc, out, ctx) \<Rightarrow>
                      raising (rc \<noteq> 1) (IntegrityException ''GCM decrypt failed'')
                      (case GCM_SET_TAG L ctx tag of (rc, ctx) \<Rightarrow>
                       raising (rc \<noteq> 1) (RuntimeError ''SET_TAG failed'')
                       (case EVP_DecryptFinal_ex L ctx of (rc, fin, ctx) \<Rightarrow>
                        raising (rc \<le> 0) (IntegrityException ''GCM tag mismatch'')
                        (Inr (out @ fin)))))))))"

section \<open>The provider\<close>

record EncryptOut =
  eo_cipher :: bytes
  eo_wrapped :: WrappedKey
  eo_digest :: Digest

definition doEncrypt ::
  "('pk, 'dc, 'cc) openssl \<Rightarrow> rand \<Rightarrow> bytes \<Rightarrow> UserId \<Rightarrow> bytes \<Rightarrow> exn + EncryptOut" where
  "doEncrypt L rnd plain rid recipientPub =
     (if length recipientPub \<noteq> 32 then Inl (ValidationException ''recipient pubkey must be 32 bytes'')
      else case rnd 0 32 of
             None \<Rightarrow> Inl (RuntimeError ''RAND_bytes dek failed'')
           | Some dek \<Rightarrow>
               (case rnd 1 12 of
                  None \<Rightarrow> Inl (RuntimeError ''RAND_bytes nonce failed'')
                | Some iv \<Rightarrow>
                    bindE (aesGcmEncrypt L plain dek iv) (\<lambda>cipher.
                    bindE (sealDEK L rnd dek recipientPub) (\<lambda>sealed.
                    bindE (mkWrappedKey rid iv sealed seal_alg) (\<lambda>w.
                    Inr \<lparr>eo_cipher = cipher, eo_wrapped = w, eo_digest = digestFromPlain L plain\<rparr>)))))"

record ClientCryptoProvider =
  storedPub :: bytes
  hasStoredPub :: bool

definition mkClientCryptoProvider :: "bytes \<Rightarrow> exn + ClientCryptoProvider" where
  "mkClientCryptoProvider recipientPub =
     raising (length recipientPub \<noteq> 32) (ValidationException ''recipient pubkey must be 32'')
       (Inr \<lparr>storedPub = recipientPub, hasStoredPub = True\<rparr>)"

definition Client_encrypt_stored ::
  "('pk, 'dc, 'cc) openssl \<Rightarrow> rand \<Rightarrow> ClientCryptoProvider \<Rightarrow> bytes \<Rightarrow> exn + EncryptOut" where
  "Client_encrypt_stored L rnd c plain =
     raising (\<not> hasStoredPub c) (ValidationException ''recipient pub required: use encrypt(plain, recipientPub)'')
       (doEncrypt L rnd plain (UserId ''recipient'') (storedPub c))"

definition Client_encrypt :: "('pk, 'dc, 'cc) openssl \<Rightarrow> rand \<Rightarrow> bytes \<Rightarrow> bytes \<Rightarrow> exn + EncryptOut" where
  "Client_encrypt L rnd plain recipientPub = doEncrypt L rnd plain (UserId ''recipient'') recipientPub"

definition Client_encrypt_for :: "('pk, 'dc, 'cc) openssl \<Rightarrow> rand \<Rightarrow> bytes \<Rightarrow> UserId \<Rightarrow> bytes \<Rightarrow> exn + EncryptOut" where
  "Client_encrypt_for L rnd plain rid recipientPub = doEncrypt L rnd plain rid recipientPub"

definition Client_decrypt_nokey :: "bytes \<Rightarrow> WrappedKey \<Rightarrow> Digest \<Rightarrow> exn + bytes" where
  "Client_decrypt_nokey c w d = Inl (IntegrityException ''privkey required: use decryptAndVerify(cipher, wrapped, digest, priv)'')"

definition decryptAndVerify ::
  "('pk, 'dc, 'cc) openssl \<Rightarrow> bytes \<Rightarrow> WrappedKey \<Rightarrow> Digest \<Rightarrow> bytes \<Rightarrow> exn + bytes" where
  "decryptAndVerify L cipher w d sk =
     (if length (nonce w) \<noteq> 12 then Inl (IntegrityException ''nonce must be 12'')
      else if wbytes w = [] then Inl (IntegrityException ''wrapped bytes empty'')
      else bindE (unsealDEK L (wbytes w) sk) (\<lambda>dek.
           bindE (aesGcmDecrypt L cipher dek (nonce w)) (\<lambda>plain.
           raising (digestFromPlain L plain \<noteq> d) (IntegrityException ''digest mismatch'') (Inr plain))))"

definition decryptAndVerify_vec ::
  "('pk, 'dc, 'cc) openssl \<Rightarrow> bytes \<Rightarrow> WrappedKey \<Rightarrow> Digest \<Rightarrow> bytes \<Rightarrow> exn + bytes" where
  "decryptAndVerify_vec L cipher w d sk =
     raising (length sk \<noteq> 32) (ValidationException ''privkey must be 32'') (decryptAndVerify L cipher w d sk)"

section \<open>The fake provider\<close>

definition FakeCrypto_encrypt :: "bytes \<Rightarrow> exn + EncryptOut" where
  "FakeCrypto_encrypt p =
     bindE (mkWrappedKey (UserId ''fake-recipient'') (replicate 12 0x5A) (replicate 32 0x42) seal_alg) (\<lambda>w.
     Inr \<lparr>eo_cipher = map (\<lambda>b. b XOR 0x5A) p, eo_wrapped = w, eo_digest = sha256stub (string_of_bytes p)\<rparr>)"

definition FakeCrypto_decryptAndVerify :: "bytes \<Rightarrow> WrappedKey \<Rightarrow> Digest \<Rightarrow> exn + bytes" where
  "FakeCrypto_decryptAndVerify c w d =
     (let p = map (\<lambda>b. b XOR 0x5A) c
      in raising (sha256stub (string_of_bytes p) \<noteq> d) (IntegrityException ''tag mismatch'') (Inr p))"

section \<open>What the code relies on\<close>

text \<open>
  The documented behaviour of the calls: SHA-256 gives 32 bytes; X25519 works on 32-byte
  private keys, with public keys of 32 bytes and one shared secret per pair of key pairs;
  AES-256-GCM, driven by the sequence of calls the code makes, computes a ciphertext of
  the length of the plaintext and a 16-byte tag, and its decryption accepts exactly what
  encryption under the same key and nonce produced. Nothing is said about an update call
  with a negative length, nor about one on more bytes than an \<open>int\<close> counts.
\<close>

definition x25519_ok :: "('pk, 'dc, 'cc) openssl \<Rightarrow> (bytes \<Rightarrow> bytes) \<Rightarrow> (bytes \<Rightarrow> bytes \<Rightarrow> bytes) \<Rightarrow> bool" where
  "x25519_ok L pubOf dh \<longleftrightarrow>
     (\<forall>a. length a = 32 \<longrightarrow> (\<exists>k x y. EVP_PKEY_new_raw_private_key L a = Some k
        \<and> EVP_PKEY_get_raw_public_key L k = (1, pubOf a) \<and> length (pubOf a) = 32
        \<and> EVP_PKEY_CTX_new L k = Some x \<and> EVP_PKEY_derive_init L x = (1, y)
        \<and> (\<forall>b. length b = 32 \<longrightarrow> (\<exists>kb z. EVP_PKEY_new_raw_public_key L (pubOf b) = Some kb
             \<and> EVP_PKEY_derive_set_peer L y kb = (1, z) \<and> EVP_PKEY_derive L z = (1, dh a (pubOf b))
             \<and> length (dh a (pubOf b)) = 32 \<and> dh a (pubOf b) = dh b (pubOf a)))))"

definition gcm_encrypts ::
  "('pk, 'dc, 'cc) openssl \<Rightarrow> (bytes \<Rightarrow> bytes \<Rightarrow> bytes \<Rightarrow> bytes) \<Rightarrow> (bytes \<Rightarrow> bytes \<Rightarrow> bytes \<Rightarrow> bytes) \<Rightarrow> bytes \<Rightarrow> bytes \<Rightarrow> bool" where
  "gcm_encrypts L E T k n \<longleftrightarrow>
     (\<exists>c0 c1 c2 c3. EVP_CIPHER_CTX_new L = Some c0 \<and> EVP_EncryptInit_gcm L c0 = (1, c1) \<and> GCM_SET_IVLEN L c1 12 = (1, c2)
        \<and> EVP_EncryptInit_key L c2 k n = (1, c3)
        \<and> (\<forall>p. length p < 2 ^ 31 \<longrightarrow> (\<exists>ct c4 fin c5. (if p = [] then ct = [] \<and> c4 = c3 else EVP_EncryptUpdate L c3 p (int (length p)) = (1, ct, c4))
             \<and> EVP_EncryptFinal_ex L c4 = (1, fin, c5) \<and> ct @ fin = E k n p \<and> GCM_GET_TAG L c5 16 = (1, T k n p))))"

definition gcm_decrypts ::
  "('pk, 'dc, 'cc) openssl \<Rightarrow> (bytes \<Rightarrow> bytes \<Rightarrow> bytes \<Rightarrow> bytes) \<Rightarrow> (bytes \<Rightarrow> bytes \<Rightarrow> bytes \<Rightarrow> bytes) \<Rightarrow> bytes \<Rightarrow> bytes \<Rightarrow> bool" where
  "gcm_decrypts L E T k n \<longleftrightarrow>
     (\<exists>c0 c1 c2 c3. EVP_CIPHER_CTX_new L = Some c0 \<and> EVP_DecryptInit_gcm L c0 = (1, c1) \<and> GCM_SET_IVLEN L c1 12 = (1, c2)
        \<and> EVP_DecryptInit_key L c2 k n = (1, c3)
        \<and> (\<forall>c t. length c < 2 ^ 31 \<and> length t = 16 \<longrightarrow> (\<exists>out c4 c5 rc fin c6.
             (if c = [] then out = [] \<and> c4 = c3 else EVP_DecryptUpdate L c3 c (int (length c)) = (1, out, c4))
             \<and> GCM_SET_TAG L c4 t = (1, c5) \<and> EVP_DecryptFinal_ex L c5 = (rc, fin, c6)
             \<and> (0 < rc \<longleftrightarrow> (\<exists>p. c = E k n p \<and> t = T k n p)) \<and> (0 < rc \<longrightarrow> c = E k n (out @ fin)))))"

definition openssl_ok ::
  "('pk, 'dc, 'cc) openssl \<Rightarrow> (bytes \<Rightarrow> bytes) \<Rightarrow> (bytes \<Rightarrow> bytes \<Rightarrow> bytes)
   \<Rightarrow> (bytes \<Rightarrow> bytes \<Rightarrow> bytes \<Rightarrow> bytes) \<Rightarrow> (bytes \<Rightarrow> bytes \<Rightarrow> bytes \<Rightarrow> bytes) \<Rightarrow> bool" where
  "openssl_ok L pubOf dh E T \<longleftrightarrow>
     (\<forall>d. length (SHA256 L d) = 32) \<and> x25519_ok L pubOf dh
     \<and> (\<forall>k n. length k = 32 \<and> length n = 12 \<longrightarrow> gcm_encrypts L E T k n \<and> gcm_decrypts L E T k n
          \<and> (\<forall>p. length (E k n p) = length p \<and> length (T k n p) = 16) \<and> inj (E k n))"

section \<open>Sealing and unsealing\<close>

lemma raising_Inr_iff [simp]: "raising b e m = Inr x \<longleftrightarrow> \<not> b \<and> m = Inr x"
  by (simp add: raising_def)

lemma raising_False [simp]: "raising False e m = m"
  by (simp add: raising_def)

lemma length_xor_bytes [simp]: "length (xor_bytes a b) = min (length a) (length b)"
  by (simp add: xor_bytes_def)

lemma xor_bytes_twice: "length a = length b \<Longrightarrow> xor_bytes (xor_bytes a b) b = a"
  by (rule nth_equalityI) (simp_all add: xor_bytes_def xor.assoc)

lemma shared_secret:
  assumes "x25519_ok L pubOf dh" "length a = 32" "length b = 32"
  shows "x25519Shared L a (pubOf b) = Inr (dh a (pubOf b))" "dh a (pubOf b) = dh b (pubOf a)"
    "x25519PubFromPriv L a = Inr (pubOf a)" "length (pubOf a) = 32"
proof -
  obtain k x y where k: "EVP_PKEY_new_raw_private_key L a = Some k" "EVP_PKEY_get_raw_public_key L k = (1, pubOf a)"
    "length (pubOf a) = 32" "EVP_PKEY_CTX_new L k = Some x" "EVP_PKEY_derive_init L x = (1, y)"
    "\<forall>b. length b = 32 \<longrightarrow> (\<exists>kb z. EVP_PKEY_new_raw_public_key L (pubOf b) = Some kb
       \<and> EVP_PKEY_derive_set_peer L y kb = (1, z) \<and> EVP_PKEY_derive L z = (1, dh a (pubOf b))
       \<and> length (dh a (pubOf b)) = 32 \<and> dh a (pubOf b) = dh b (pubOf a))"
    using assms(1,2) unfolding x25519_ok_def by blast
  then obtain kb z where z: "EVP_PKEY_new_raw_public_key L (pubOf b) = Some kb" "EVP_PKEY_derive_set_peer L y kb = (1, z)"
    "EVP_PKEY_derive L z = (1, dh a (pubOf b))" "length (dh a (pubOf b)) = 32" "dh a (pubOf b) = dh b (pubOf a)"
    using assms(3) by blast
  show "x25519Shared L a (pubOf b) = Inr (dh a (pubOf b))" using k z by (simp add: x25519Shared_def)
  show "dh a (pubOf b) = dh b (pubOf a)" by (rule z(5))
  show "x25519PubFromPriv L a = Inr (pubOf a)" using k by (simp add: x25519PubFromPriv_def)
  show "length (pubOf a) = 32" by (rule k(3))
qed

lemma generate_pair:
  assumes "x25519_ok L pubOf dh" "rnd 0 32 = Some sk" "length sk = 32"
  shows "KeyPair_generate L rnd = Inr \<lparr>pub = pubOf sk, priv = sk\<rparr>"
proof -
  obtain k where "EVP_PKEY_new_raw_private_key L sk = Some k" "EVP_PKEY_get_raw_public_key L k = (1, pubOf sk)"
    "length (pubOf sk) = 32" using assms(1,3) unfolding x25519_ok_def by blast
  then show ?thesis using assms(2) by (simp add: KeyPair_generate_def)
qed

lemma seal_unseal:
  assumes "openssl_ok L pubOf dh E T" "length sk = 32" "length dek = 32" "rnd 2 32 = Some eph" "length eph = 32"
  shows "\<exists>sealed. sealDEK L rnd dek (pubOf sk) = Inr sealed \<and> length sealed = 64 \<and> unsealDEK L sealed sk = Inr dek"
proof -
  have x: "x25519_ok L pubOf dh" and h: "\<And>d. length (SHA256 L d) = 32" using assms(1) by (simp_all add: openssl_ok_def)
  let ?m = "SHA256 L (dh eph (pubOf sk))"
  have "sealDEK L rnd dek (pubOf sk) = Inr (pubOf eph @ xor_bytes dek ?m)"
    using shared_secret [OF x assms(5,2)] shared_secret(4) [OF x assms(2,2)] assms(4)
    by (simp add: sealDEK_def sha256_bytes_def)
  moreover have "unsealDEK L (pubOf eph @ xor_bytes dek ?m) sk = Inr (xor_bytes (xor_bytes dek ?m) ?m)"
    using shared_secret [OF x assms(2,5)] shared_secret(4) [OF x assms(5,5)] h assms(3)
    by (simp add: unsealDEK_def sha256_bytes_def)
  ultimately show ?thesis
    using h assms(3) shared_secret(4) [OF x assms(5,5)] by (simp add: xor_bytes_twice)
qed

section \<open>The file cipher\<close>

lemma gcm_encrypt:
  assumes "openssl_ok L pubOf dh E T" "length k = 32" "length n = 12" "length p < 2 ^ 31"
  shows "aesGcmEncrypt L p k n = Inr (E k n p @ T k n p)"
proof -
  have "gcm_encrypts L E T k n" using assms by (simp add: openssl_ok_def)
  then obtain c0 c1 c2 c3 where c: "EVP_CIPHER_CTX_new L = Some c0" "EVP_EncryptInit_gcm L c0 = (1, c1)"
    "GCM_SET_IVLEN L c1 12 = (1, c2)" "EVP_EncryptInit_key L c2 k n = (1, c3)"
    and run: "\<forall>p. length p < 2 ^ 31 \<longrightarrow> (\<exists>ct c4 fin c5. (if p = [] then ct = [] \<and> c4 = c3 else EVP_EncryptUpdate L c3 p (int (length p)) = (1, ct, c4))
       \<and> EVP_EncryptFinal_ex L c4 = (1, fin, c5) \<and> ct @ fin = E k n p \<and> GCM_GET_TAG L c5 16 = (1, T k n p))"
    unfolding gcm_encrypts_def by blast
  obtain ct c4 fin c5 where "if p = [] then ct = [] \<and> c4 = c3 else EVP_EncryptUpdate L c3 p (int (length p)) = (1, ct, c4)"
    "EVP_EncryptFinal_ex L c4 = (1, fin, c5)" "ct @ fin = E k n p" "GCM_GET_TAG L c5 16 = (1, T k n p)"
    using run assms(4) by blast
  then show ?thesis using c assms(4) by (cases "p = []") (simp_all add: aesGcmEncrypt_def as_int_small)
qed

lemma gcm_decrypt_iff:
  assumes "openssl_ok L pubOf dh E T" "length k = 32" "length n = 12" "length cipher < 2 ^ 31 + 16"
  shows "aesGcmDecrypt L cipher k n = Inr p \<longleftrightarrow> cipher = E k n p @ T k n p"
proof (cases "length cipher < 16")
  case True
  moreover have "length (T k n p) = 16" using assms by (simp add: openssl_ok_def)
  ultimately show ?thesis by (auto simp: aesGcmDecrypt_def)
next
  case False
  define c t where "c = take (length cipher - 16) cipher" and "t = drop (length cipher - 16) cipher"
  have split: "cipher = c @ t" "length c < 2 ^ 31 \<and> length t = 16" and ctlen: "length c = length cipher - 16"
    using False assms(4) by (simp_all add: c_def t_def)
  have len: "length (E k n q) = length q" "length (T k n q) = 16" and inj: "inj (E k n)" for q
    using assms by (simp_all add: openssl_ok_def)
  have "gcm_decrypts L E T k n" using assms by (simp add: openssl_ok_def)
  then obtain c0 c1 c2 c3 where ctx: "EVP_CIPHER_CTX_new L = Some c0" "EVP_DecryptInit_gcm L c0 = (1, c1)"
    "GCM_SET_IVLEN L c1 12 = (1, c2)" "EVP_DecryptInit_key L c2 k n = (1, c3)"
    and run: "\<forall>c t. length c < 2 ^ 31 \<and> length t = 16 \<longrightarrow> (\<exists>out c4 c5 rc fin c6.
             (if c = [] then out = [] \<and> c4 = c3 else EVP_DecryptUpdate L c3 c (int (length c)) = (1, out, c4))
             \<and> GCM_SET_TAG L c4 t = (1, c5) \<and> EVP_DecryptFinal_ex L c5 = (rc, fin, c6)
             \<and> (0 < rc \<longleftrightarrow> (\<exists>p. c = E k n p \<and> t = T k n p)) \<and> (0 < rc \<longrightarrow> c = E k n (out @ fin)))"
    unfolding gcm_decrypts_def by blast
  obtain out c4 c5 rc fin c6 where o: "if c = [] then out = [] \<and> c4 = c3 else EVP_DecryptUpdate L c3 c (int (length c)) = (1, out, c4)"
    "GCM_SET_TAG L c4 t = (1, c5)" "EVP_DecryptFinal_ex L c5 = (rc, fin, c6)"
    "0 < rc \<longleftrightarrow> (\<exists>p. c = E k n p \<and> t = T k n p)" "0 < rc \<longrightarrow> c = E k n (out @ fin)"
    using mp [OF spec [OF spec [OF run, of c], of t] split(2)] by (elim exE conjE) (rule that)
  have pos: "0 < length cipher - 16 \<longleftrightarrow> c \<noteq> []" using False by (auto simp: c_def)
  have "aesGcmDecrypt L cipher k n = raising (rc \<le> 0) (IntegrityException ''GCM tag mismatch'') (Inr (out @ fin))"
    unfolding aesGcmDecrypt_def Let_def c_def [symmetric] t_def [symmetric] pos
    using ctx o(1-3) False split(2) by (cases "c = []") (simp_all add: as_int_small ctlen [symmetric])
  moreover have "cipher = E k n p @ T k n p \<longleftrightarrow> c = E k n p \<and> t = T k n p"
    using split len by (auto simp: append_eq_append_conv)
  moreover have "0 < rc \<and> out @ fin = p \<longleftrightarrow> c = E k n p \<and> t = T k n p"
    using o(4,5) injD [OF inj] by blast
  ultimately show ?thesis by (simp add: not_le)
qed

lemma encrypt_runs:
  assumes "openssl_ok L pubOf dh E T" "length sk = 32" "rnd 0 32 = Some dek" "length dek = 32" "rnd 1 12 = Some iv"
    "length iv = 12" "rnd 2 32 = Some eph" "length eph = 32" "length plain < 2 ^ 31"
  obtains out where "doEncrypt L rnd plain rid (pubOf sk) = Inr out" "eo_cipher out = E dek iv plain @ T dek iv plain"
    "eo_digest out = digestFromPlain L plain" "nonce (eo_wrapped out) = iv" "recipientId (eo_wrapped out) = rid"
    "alg (eo_wrapped out) = seal_alg" "length (wbytes (eo_wrapped out)) = 64" "unsealDEK L (wbytes (eo_wrapped out)) sk = Inr dek"
proof -
  obtain sealed where s: "sealDEK L rnd dek (pubOf sk) = Inr sealed" "length sealed = 64" "unsealDEK L sealed sk = Inr dek"
    using seal_unseal [where rnd = rnd, OF assms(1,2,4,7,8)] by blast
  have "x25519_ok L pubOf dh" using assms(1) by (simp add: openssl_ok_def)
  then have "length (pubOf sk) = 32" by (rule shared_secret(4) [OF _ assms(2,2)])
  moreover have "sealed \<noteq> []" using s(2) by auto
  ultimately show thesis
    using that [of "\<lparr>eo_cipher = E dek iv plain @ T dek iv plain,
        eo_wrapped = \<lparr>recipientId = rid, nonce = iv, wbytes = sealed, alg = seal_alg\<rparr>, eo_digest = digestFromPlain L plain\<rparr>"]
      gcm_encrypt [OF assms(1,4,6,9)] s assms(3,5,6)
    by (simp add: doEncrypt_def mkWrappedKey_def)
qed

lemma unseal_key_length: "openssl_ok L pubOf dh E T \<Longrightarrow> unsealDEK L w sk = Inr dek \<Longrightarrow> length dek = 32"
  by (auto simp: unsealDEK_def bindE_Inr_iff openssl_ok_def sha256_bytes_def split: if_splits)

lemma decrypt_Inr_iff:
  assumes "openssl_ok L pubOf dh E T" "length cipher < 2 ^ 31 + 16"
  shows "decryptAndVerify L cipher w d sk = Inr p \<longleftrightarrow>
    length (nonce w) = 12 \<and> wbytes w \<noteq> [] \<and> digestFromPlain L p = d
    \<and> (\<exists>dek. unsealDEK L (wbytes w) sk = Inr dek \<and> cipher = E dek (nonce w) p @ T dek (nonce w) p)"
  using gcm_decrypt_iff [OF assms(1) unseal_key_length [OF assms(1)] _ assms(2)]
  by (auto simp: decryptAndVerify_def bindE_Inr_iff)

text \<open>
  A library that behaves as required, for the examples: the public key is the private key,
  the shared secret their exclusive or, the cipher leaves the text as it is under a tag of
  zeros. (It has the laws of the real one and none of its secrecy.)
\<close>

definition demo_openssl :: "(bytes, bytes \<times> bytes, bytes \<times> bytes) openssl" where
  "demo_openssl = \<lparr>SHA256 = (\<lambda>d. take 32 (d @ replicate 32 0)),
     EVP_PKEY_new_raw_private_key = Some, EVP_PKEY_new_raw_public_key = Some, EVP_PKEY_get_raw_public_key = (\<lambda>k. (1, k)),
     EVP_PKEY_CTX_new = (\<lambda>k. Some (k, [])), EVP_PKEY_derive_init = (\<lambda>x. (1, x)),
     EVP_PKEY_derive_set_peer = (\<lambda>(a, _) b. (1, (a, b))), EVP_PKEY_derive = (\<lambda>(a, b). (1, xor_bytes a b)),
     EVP_CIPHER_CTX_new = Some ([], []), EVP_EncryptInit_gcm = (\<lambda>c. (1, c)), EVP_EncryptInit_key = (\<lambda>c k n. (1, c)),
     EVP_EncryptUpdate = (\<lambda>c p n. (1, take (nat n) p, c)), EVP_EncryptFinal_ex = (\<lambda>c. (1, [], c)),
     EVP_DecryptInit_gcm = (\<lambda>c. (1, c)), EVP_DecryptInit_key = (\<lambda>c k n. (1, c)),
     EVP_DecryptUpdate = (\<lambda>c p n. (1, take (nat n) p, c)), EVP_DecryptFinal_ex = (\<lambda>(a, t). (if t = replicate 16 0 then 1 else 0, [], (a, t))),
     GCM_SET_IVLEN = (\<lambda>c n. (1, c)), GCM_GET_TAG = (\<lambda>c n. (1, replicate n 0)), GCM_SET_TAG = (\<lambda>(a, _) t. (1, (a, t)))\<rparr>"

lemma xor_bytes_comm: "xor_bytes a b = xor_bytes b a"
  by (rule nth_equalityI) (simp_all add: xor_bytes_def xor.commute)

lemma demo_openssl_ok: "openssl_ok demo_openssl (\<lambda>a. a) xor_bytes (\<lambda>k n p. p) (\<lambda>k n p. replicate 16 0)"
proof -
  have "x25519_ok demo_openssl (\<lambda>a. a) xor_bytes"
    unfolding x25519_ok_def demo_openssl_def by (auto simp: xor_bytes_comm)
  moreover have "gcm_encrypts demo_openssl (\<lambda>k n p. p) (\<lambda>k n p. replicate 16 0) k n" for k n
    unfolding gcm_encrypts_def demo_openssl_def by auto
  moreover have "gcm_decrypts demo_openssl (\<lambda>k n p. p) (\<lambda>k n p. replicate 16 0) k n" for k n
    unfolding gcm_decrypts_def demo_openssl_def by auto
  moreover have "length (SHA256 demo_openssl d) = 32" for d by (simp add: demo_openssl_def)
  ultimately show ?thesis by (simp add: openssl_ok_def)
qed

text \<open>
  Why the bounds are needed. On a ciphertext that is longer by \<open>2 ^ 32\<close> bytes the cast length
  is the same, so a library that reads as many bytes as it is told sees only the front: the
  bytes put before the tag are neither decrypted nor authenticated.
\<close>

lemma tail_unauthenticated:
  assumes "\<And>c b m. 0 \<le> m \<Longrightarrow> m \<le> int (length b) \<Longrightarrow> EVP_DecryptUpdate L c b m = EVP_DecryptUpdate L c (take (nat m) b) m"
    and "0 < length ct" "length ct < 2 ^ 31" "length junk = 2 ^ 32" "length tag = 16"
  shows "aesGcmDecrypt L (ct @ junk @ tag) dek iv = aesGcmDecrypt L (ct @ tag) dek iv"
proof -
  have cast: "as_int (length ct + 2 ^ 32) = int (length ct)" "as_int (length ct) = int (length ct)"
    using as_int_wraps [of "length ct"] as_int_small [OF assms(3)] by simp_all
  have upd: "EVP_DecryptUpdate L c (ct @ junk) (int (length ct)) = EVP_DecryptUpdate L c ct (int (length ct))" for c
    using assms(1) [of "int (length ct)" "ct @ junk" c] by simp
  have parts: "length (ct @ junk @ tag) - 16 = length ct + 2 ^ 32" "take (length ct + 2 ^ 32) (ct @ junk @ tag) = ct @ junk"
    "drop (length ct + 2 ^ 32) (ct @ junk @ tag) = tag" "length (ct @ tag) - 16 = length ct" "take (length ct) (ct @ tag) = ct"
    "drop (length ct) (ct @ tag) = tag" and pos: "0 < length ct + 2 ^ 32 \<longleftrightarrow> True" "0 < length ct \<longleftrightarrow> True"
    and long: "length (ct @ junk @ tag) < 16 \<longleftrightarrow> False" "length (ct @ tag) < 16 \<longleftrightarrow> False"
    using assms(2,4,5) by simp_all
  show ?thesis unfolding aesGcmDecrypt_def Let_def long parts pos cast upd if_True if_False ..
qed

section \<open>Properties\<close>

text \<open>
  C9. Only the holder of the private key is needed to get the file back: what is encrypted
  to the public key of a generated key pair, whenever the random generator delivers,
  decrypts with its private key to the plaintext, with the digest check passed. The plaintext
  is below 2 GiB: its length is cast to an \<open>int\<close> for the cipher.
\<close>

theorem encrypt_decrypt_roundtrip:
  assumes "openssl_ok L pubOf dh E T" "\<forall>i n. \<exists>b. rnd i n = Some b \<and> length b = n" "KeyPair_generate L rnd' = Inr kp"
    "\<forall>b. rnd' 0 32 = Some b \<longrightarrow> length b = 32" "length plain < 2 ^ 31"
  shows "\<exists>out. Client_encrypt_for L rnd plain rid (pub kp) = Inr out
     \<and> decryptAndVerify_vec L (eo_cipher out) (eo_wrapped out) (eo_digest out) (priv kp) = Inr plain"
proof -
  obtain sk where sk: "rnd' 0 32 = Some sk" "length sk = 32" "priv kp = sk"
    using assms(3,4) by (auto simp: KeyPair_generate_def split: option.splits prod.splits)
  have "x25519_ok L pubOf dh" using assms(1) by (simp add: openssl_ok_def)
  from generate_pair [where rnd = rnd', OF this sk(1,2)] have pk: "pub kp = pubOf sk" using assms(3) by simp
  obtain dek iv eph where r: "rnd 0 32 = Some dek" "length dek = 32" "rnd 1 12 = Some iv" "length iv = 12"
    "rnd 2 32 = Some eph" "length eph = 32" using assms(2) by metis
  obtain out where out: "doEncrypt L rnd plain rid (pubOf sk) = Inr out" "eo_cipher out = E dek iv plain @ T dek iv plain"
    "eo_digest out = digestFromPlain L plain" "nonce (eo_wrapped out) = iv" "recipientId (eo_wrapped out) = rid"
    "alg (eo_wrapped out) = seal_alg" "length (wbytes (eo_wrapped out)) = 64" "unsealDEK L (wbytes (eo_wrapped out)) sk = Inr dek"
    using encrypt_runs [OF assms(1) sk(2) r assms(5)] by blast
  have "wbytes (eo_wrapped out) \<noteq> []" using out(7) by auto
  moreover have "length (eo_cipher out) < 2 ^ 31 + 16" using assms(1,5) r(2,4) out(2) by (simp add: openssl_ok_def)
  ultimately have "decryptAndVerify L (eo_cipher out) (eo_wrapped out) (eo_digest out) sk = Inr plain"
    using out r(4) by (simp add: decrypt_Inr_iff [OF assms(1)])
  then show ?thesis using out(1) pk sk by (simp add: Client_encrypt_for_def decryptAndVerify_vec_def)
qed

theorem encrypt_decrypt_roundtrip_witness:
  "\<exists>out. Client_encrypt_for demo_openssl (\<lambda>i n. Some (replicate n (word_of_nat i))) [1, 2, 3] (UserId ''bob'') (replicate 32 9) = Inr out
     \<and> decryptAndVerify_vec demo_openssl (eo_cipher out) (eo_wrapped out) (eo_digest out) (replicate 32 9) = Inr [1, 2, 3]"
proof -
  let ?kp = "\<lparr>pub = replicate 32 9, priv = replicate 32 9\<rparr>" and ?rnd' = "\<lambda>i n. Some (replicate n 9)"
  have "KeyPair_generate demo_openssl ?rnd' = Inr ?kp" by (simp add: KeyPair_generate_def demo_openssl_def)
  then show ?thesis
    using encrypt_decrypt_roundtrip [OF demo_openssl_ok, of "\<lambda>i n. Some (replicate n (word_of_nat i))" ?rnd' ?kp "[1, 2, 3]" "UserId ''bob''"]
    by simp
qed

text \<open>
  C11. Tampering is detected: if two different ciphertexts decrypt under the same wrapped
  key, digest and private key, the two plaintexts are a collision of SHA-256. So a changed
  ciphertext or tag is rejected unless the attacker finds one. The ciphertexts are below
  2 GiB and a tag, since their length is cast to an \<open>int\<close>; beyond that it is false
  (\<open>tail_unauthenticated\<close>).
\<close>

theorem tampering_detected:
  assumes "openssl_ok L pubOf dh E T" "decryptAndVerify L c w d sk = Inr p" "decryptAndVerify L c' w d sk = Inr p'" "c \<noteq> c'"
    "length c < 2 ^ 31 + 16" "length c' < 2 ^ 31 + 16"
  shows "p \<noteq> p' \<and> SHA256 L p = SHA256 L p' \<and> d = Digest (SHA256 L p)"
  using assms(2-4) by (auto simp: decrypt_Inr_iff [OF assms(1,5)] decrypt_Inr_iff [OF assms(1,6)] digestFromPlain_def sha256_bytes_def)

theorem tampering_detected_witness:
  "let w = \<lparr>recipientId = UserId ''bob'', nonce = replicate 12 0, wbytes = replicate 64 0, alg = seal_alg\<rparr>;
       c = replicate 17 0; c' = replicate 18 0; d = Digest (replicate 32 0); sk = replicate 32 0
   in decryptAndVerify demo_openssl c w d sk = Inr [0] \<and> decryptAndVerify demo_openssl c' w d sk = Inr [0, 0]
      \<and> SHA256 demo_openssl [0] = SHA256 demo_openssl [0, 0]"
proof -
  let ?w = "\<lparr>recipientId = UserId ''bob'', nonce = replicate 12 0, wbytes = replicate 64 0, alg = seal_alg\<rparr>"
  have "decryptAndVerify demo_openssl (replicate 17 0) ?w (Digest (replicate 32 0)) (replicate 32 0) = Inr [0]" by code_simp
  moreover have "decryptAndVerify demo_openssl (replicate 18 0) ?w (Digest (replicate 32 0)) (replicate 32 0) = Inr [0, 0]" by code_simp
  ultimately show ?thesis unfolding Let_def
    using tampering_detected [OF demo_openssl_ok, of "replicate 17 0" ?w "Digest (replicate 32 0)" "replicate 32 0" "[0]" "replicate 18 0" "[0, 0]"]
    by simp
qed

end
