(* ===== verification/Protocol.thy ===== *)
theory Protocol
  imports Framing Domain
begin

text \<open>
  The message payloads of \<^verbatim>\<open>src/presentation/protocol.cpp\<close>. Each decoder reads its
  fields one after the other through the same local closure (\<^verbatim>\<open>read\<close>,
  \<^verbatim>\<open>readStr\<close>, \<^verbatim>\<open>readBytes\<close>), which moves a shared offset and throws on a short
  buffer; the closures are \<open>readStr\<close> and \<open>readBytes\<close> here, returning the field and
  the new offset.
\<close>

section \<open>Payloads\<close>

record RegisterPayload =
  rp_username :: string
  rp_email :: string
  rp_password :: string

record LoginPayload =
  lp_username :: string
  lp_password :: string

record AdminPayload =
  ap_token :: string
  ap_targetId :: string

record UploadInit =
  ui_recipient :: string
  ui_origName :: string
  ui_uploadId :: string
  ui_size :: u64
  ui_digest :: Digest
  ui_wrapped :: WrappedKey

record UploadData =
  ud_uploadId :: string
  ud_offset :: u64
  ud_chunk :: bytes

record DownloadReq =
  dr_fileId :: string
  dr_token :: string

section \<open>Encoders\<close>

definition encodeRegister :: "string \<Rightarrow> string \<Rightarrow> string \<Rightarrow> bytes" where
  "encodeRegister u e p =
     (let out = put32be [] (word_of_nat (length u)) @ bytes_of_string u;
          out = put32be out (word_of_nat (length e)) @ bytes_of_string e
      in put32be out (word_of_nat (length p)) @ bytes_of_string p)"

definition encodeLogin :: "string \<Rightarrow> string \<Rightarrow> bytes" where
  "encodeLogin u p =
     (let out = put32be [] (word_of_nat (length u)) @ bytes_of_string u
      in put32be out (word_of_nat (length p)) @ bytes_of_string p)"

definition encodeAdmin :: "string \<Rightarrow> string \<Rightarrow> bytes" where
  "encodeAdmin token target =
     (let out = put32be [] (word_of_nat (length token)) @ bytes_of_string token
      in put32be out (word_of_nat (length target)) @ bytes_of_string target)"

definition encodeUploadInit :: "UploadInit \<Rightarrow> bytes" where
  "encodeUploadInit p =
     (let out = put32be [] (word_of_nat (length (ui_recipient p))) @ bytes_of_string (ui_recipient p);
          out = put32be out (word_of_nat (length (ui_origName p))) @ bytes_of_string (ui_origName p);
          out = put32be out (word_of_nat (length (ui_uploadId p))) @ bytes_of_string (ui_uploadId p);
          out = put64be out (ui_size p);
          out = out @ dbytes (ui_digest p);
          r = uid (recipientId (ui_wrapped p));
          out = put32be out (word_of_nat (length r)) @ bytes_of_string r;
          out = putBytesWithLen out (nonce (ui_wrapped p));
          out = putBytesWithLen out (wbytes (ui_wrapped p));
          a = alg (ui_wrapped p)
      in put32be out (word_of_nat (length a)) @ bytes_of_string a)"

definition encodeUploadData :: "UploadData \<Rightarrow> bytes" where
  "encodeUploadData p =
     (let out = put32be [] (word_of_nat (length (ud_uploadId p))) @ bytes_of_string (ud_uploadId p);
          out = put64be out (ud_offset p)
      in putBytesWithLen out (ud_chunk p))"

definition encodeDownloadReq :: "DownloadReq \<Rightarrow> bytes" where
  "encodeDownloadReq p =
     (let out = put32be [] (word_of_nat (length (dr_fileId p))) @ bytes_of_string (dr_fileId p)
      in put32be out (word_of_nat (length (dr_token p))) @ bytes_of_string (dr_token p))"

section \<open>Decoders\<close>

definition readBytes :: "bytes \<Rightarrow> nat \<Rightarrow> exn + bytes \<times> nat" where
  "readBytes b off =
     (if off + 4 > length b then Inl (ValidationException ''short'')
      else let len = unat (get32be b off); off = off + 4
           in if off + len > length b then Inl (ValidationException ''short body'')
              else Inr (take len (drop off b), off + len))"

definition readStr :: "bytes \<Rightarrow> nat \<Rightarrow> exn + string \<times> nat" where
  "readStr b off =
     (if off + 4 > length b then Inl (ValidationException ''short'')
      else let len = unat (get32be b off); off = off + 4
           in if off + len > length b then Inl (ValidationException ''short body'')
              else Inr (string_of_bytes (take len (drop off b)), off + len))"

definition decodeRegister :: "bytes \<Rightarrow> exn + RegisterPayload" where
  "decodeRegister b =
     bindE (readStr b 0) (\<lambda>(u, off). bindE (readStr b off) (\<lambda>(e, off). bindE (readStr b off) (\<lambda>(p, off).
       Inr \<lparr>rp_username = u, rp_email = e, rp_password = p\<rparr>)))"

definition decodeLogin :: "bytes \<Rightarrow> exn + LoginPayload" where
  "decodeLogin b =
     bindE (readStr b 0) (\<lambda>(u, off). bindE (readStr b off) (\<lambda>(p, off).
       Inr \<lparr>lp_username = u, lp_password = p\<rparr>))"

definition decodeAdmin :: "bytes \<Rightarrow> exn + AdminPayload" where
  "decodeAdmin b =
     bindE (readStr b 0) (\<lambda>(t, off). bindE (readStr b off) (\<lambda>(i, off).
       Inr \<lparr>ap_token = t, ap_targetId = i\<rparr>))"

definition decodeUploadInit :: "bytes \<Rightarrow> exn + UploadInit" where
  "decodeUploadInit b =
     bindE (readStr b 0) (\<lambda>(recip, off). bindE (readStr b off) (\<lambda>(name, off).
     bindE (readStr b off) (\<lambda>(up, off).
       if off + 8 > length b then Inl (ValidationException ''short size'')
       else let sz = get64be b off; off = off + 8
       in if off + 32 > length b then Inl (ValidationException ''short digest'')
       else let dig = take 32 (drop off b); off = off + 32
       in bindE (readStr b off) (\<lambda>(rid, off). bindE (readBytes b off) (\<lambda>(n, off).
          bindE (readBytes b off) (\<lambda>(w, off). bindE (readStr b off) (\<lambda>(a, off).
            Inr \<lparr>ui_recipient = recip, ui_origName = name, ui_uploadId = up, ui_size = sz,
                 ui_digest = Digest dig,
                 ui_wrapped = \<lparr>recipientId = UserId rid, nonce = n, wbytes = w,
                               alg = (if a = [] then seal_alg else a)\<rparr>\<rparr>)))))))"

definition decodeUploadData :: "bytes \<Rightarrow> exn + UploadData" where
  "decodeUploadData b =
     bindE (readStr b 0) (\<lambda>(up, off).
       if off + 8 > length b then Inl (ValidationException ''short offset'')
       else let ofs = get64be b off; off = off + 8
       in bindE (readBytes b off) (\<lambda>(c, off).
            Inr \<lparr>ud_uploadId = up, ud_offset = ofs, ud_chunk = c\<rparr>))"

definition decodeDownloadReq :: "bytes \<Rightarrow> exn + DownloadReq" where
  "decodeDownloadReq b =
     bindE (readStr b 0) (\<lambda>(f, off). bindE (readStr b off) (\<lambda>(t, off).
       Inr \<lparr>dr_fileId = f, dr_token = t\<rparr>))"

section \<open>Field lemmas\<close>

text \<open>Fields as they stand in a message: a length and the bytes.\<close>

definition fieldB :: "bytes \<Rightarrow> bytes" where
  "fieldB b = put32be [] (word_of_nat (length b)) @ b"

definition fieldS :: "string \<Rightarrow> bytes" where
  "fieldS s = fieldB (bytes_of_string s)"

abbreviation fits :: "'a list \<Rightarrow> bool" where
  "fits s \<equiv> length s < 2 ^ 32"

lemma length_field [simp]: "length (fieldB b) = length b + 4" "length (fieldS s) = length s + 4"
  by (simp_all add: fieldB_def fieldS_def)

text \<open>What a reader returns depends only on the bytes from its offset on.\<close>

lemma readBytes_at:
  assumes "drop off b = fieldB x @ r" and "fits x" and "off \<le> length b"
  shows "readBytes b off = Inr (x, off + length x + 4)"
proof -
  from assms obtain v where b: "b = v @ fieldB x @ r" "length v = off"
    by (metis append_take_drop_id length_take min.absorb2)
  with assms(2) get32be_append [of v "fieldB x @ r" 0] show ?thesis
    by (simp add: readBytes_def fieldB_def Let_def)
qed

lemma readStr_at:
  assumes "drop off b = fieldS x @ r" and "fits x" and "off \<le> length b"
  shows "readStr b off = Inr (x, off + length x + 4)"
  using readBytes_at [of off b "bytes_of_string x" r] assms
  by (auto simp: readStr_def readBytes_def fieldS_def Let_def split: if_splits)

lemma get64be_at:
  assumes "drop off b = put64be [] x @ r" and "off \<le> length b"
  shows "get64be b off = x"
proof -
  from assms obtain v where "b = v @ put64be [] x @ r" "length v = off"
    by (metis append_take_drop_id length_take min.absorb2)
  with get64be_append [of v "put64be [] x @ r" 0] show ?thesis by simp
qed

lemma encode_fields:
  "encodeRegister u e p = fieldS u @ fieldS e @ fieldS p"
  "encodeLogin u p = fieldS u @ fieldS p"
  "encodeAdmin t i = fieldS t @ fieldS i"
  "encodeDownloadReq d = fieldS (dr_fileId d) @ fieldS (dr_token d)"
  "encodeUploadData x = fieldS (ud_uploadId x) @ put64be [] (ud_offset x) @ fieldB (ud_chunk x)"
  "encodeUploadInit y =
     fieldS (ui_recipient y) @ fieldS (ui_origName y) @ fieldS (ui_uploadId y)
     @ put64be [] (ui_size y) @ dbytes (ui_digest y)
     @ fieldS (uid (recipientId (ui_wrapped y))) @ fieldB (nonce (ui_wrapped y))
     @ fieldB (wbytes (ui_wrapped y)) @ fieldS (alg (ui_wrapped y))"
  by (simp_all add: encodeRegister_def encodeLogin_def encodeAdmin_def encodeDownloadReq_def
      encodeUploadData_def encodeUploadInit_def fieldS_def fieldB_def Let_def putBytesWithLen_def
      put32be_append [of "_ @ _"] put32be_append [of "put64be _ _"] put64be_append [of "_ @ _"])

text \<open>An upload header whose fields fit their length prefixes, and what it is decoded to.\<close>

definition init_fits :: "UploadInit \<Rightarrow> bool" where
  "init_fits p \<longleftrightarrow> fits (ui_recipient p) \<and> fits (ui_origName p) \<and> fits (ui_uploadId p) \<and> digest_wf (ui_digest p)
     \<and> fits (uid (recipientId (ui_wrapped p))) \<and> fits (nonce (ui_wrapped p)) \<and> fits (wbytes (ui_wrapped p)) \<and> fits (alg (ui_wrapped p))"

definition default_alg :: "UploadInit \<Rightarrow> UploadInit" where
  "default_alg p = (if alg (ui_wrapped p) = [] then p\<lparr>ui_wrapped := (ui_wrapped p)\<lparr>alg := seal_alg\<rparr>\<rparr> else p)"

lemma decodeUploadInit_default:
  assumes "init_fits p"
  shows "decodeUploadInit (encodeUploadInit p @ r) = Inr (default_alg p)"
proof -
  note assms = assms [unfolded init_fits_def]
  let ?b = "encodeUploadInit p @ r"
  let ?w = "ui_wrapped p"
  define o1 where "o1 = length (ui_recipient p) + 4"
  define o2 where "o2 = o1 + length (ui_origName p) + 4"
  define o3 where "o3 = o2 + length (ui_uploadId p) + 4"
  define o4 where "o4 = o3 + 8 + 32 + length (uid (recipientId ?w)) + 4"
  define o5 where "o5 = o4 + length (nonce ?w) + 4"
  define o6 where "o6 = o5 + length (wbytes ?w) + 4"
  note os = o1_def o2_def o3_def o4_def o5_def o6_def
  have d: "length (dbytes (ui_digest p)) = 32" using assms by (simp add: digest_wf_def)
  have len: "length ?b = o6 + length (alg ?w) + 4 + length r"
    by (simp add: encode_fields os d)
  have "readStr ?b 0 = Inr (ui_recipient p, o1)"
    by (subst readStr_at) (use assms in \<open>simp_all add: encode_fields os\<close>)
  moreover have "readStr ?b o1 = Inr (ui_origName p, o2)"
    by (subst readStr_at) (use assms in \<open>simp_all add: encode_fields os\<close>)
  moreover have "readStr ?b o2 = Inr (ui_uploadId p, o3)"
    by (subst readStr_at) (use assms in \<open>simp_all add: encode_fields os\<close>)
  moreover have "get64be ?b o3 = ui_size p"
    by (rule get64be_at) (simp_all add: encode_fields os)
  moreover have "take 32 (drop (o3 + 8) ?b) = dbytes (ui_digest p)"
    by (simp add: encode_fields os d)
  moreover have "readStr ?b (o3 + 8 + 32) = Inr (uid (recipientId ?w), o4)"
    by (subst readStr_at) (use assms d in \<open>simp_all add: encode_fields os\<close>)
  moreover have "readBytes ?b o4 = Inr (nonce ?w, o5)"
    by (subst readBytes_at) (use assms d in \<open>simp_all add: encode_fields os\<close>)
  moreover have "readBytes ?b o5 = Inr (wbytes ?w, o6)"
    by (subst readBytes_at) (use assms d in \<open>simp_all add: encode_fields os\<close>)
  moreover have "readStr ?b o6 = Inr (alg ?w, o6 + length (alg ?w) + 4)"
    by (subst readStr_at) (use assms d in \<open>simp_all add: encode_fields os\<close>)
  moreover have "\<not> length ?b < o3 + 8" "\<not> length ?b < o3 + 8 + 32"
    using len by (simp_all add: os)
  ultimately show ?thesis
    by (cases p; cases ?w) (simp add: decodeUploadInit_def default_alg_def Let_def)
qed

lemma decodeUploadInit_encode:
  assumes "init_fits p" "alg (ui_wrapped p) \<noteq> []"
  shows "decodeUploadInit (encodeUploadInit p @ r) = Inr p"
  using decodeUploadInit_default [OF assms(1)] assms(2) by (simp add: default_alg_def)

lemma decode_two_strings:
  assumes "fits s" "fits t"
  shows "readStr (fieldS s @ fieldS t @ r) 0 = Inr (s, length s + 4)"
    and "readStr (fieldS s @ fieldS t @ r) (length s + 4) = Inr (t, length s + length t + 8)"
  using assms by (subst readStr_at; simp)+

lemma decodeLogin_encode: "fits u \<Longrightarrow> fits p \<Longrightarrow>
  decodeLogin (encodeLogin u p @ r) = Inr \<lparr>lp_username = u, lp_password = p\<rparr>"
  by (simp add: decodeLogin_def encode_fields decode_two_strings)

lemma decodeAdmin_encode: "fits t \<Longrightarrow> fits i \<Longrightarrow>
  decodeAdmin (encodeAdmin t i @ r) = Inr \<lparr>ap_token = t, ap_targetId = i\<rparr>"
  by (simp add: decodeAdmin_def encode_fields decode_two_strings)

lemma decodeDownloadReq_encode: "fits (dr_fileId d) \<Longrightarrow> fits (dr_token d) \<Longrightarrow>
  decodeDownloadReq (encodeDownloadReq d @ r) = Inr d"
  by (simp add: decodeDownloadReq_def encode_fields decode_two_strings)

lemma decodeRegister_encode:
  assumes "fits u" "fits e" "fits p"
  shows "decodeRegister (encodeRegister u e p @ r)
           = Inr \<lparr>rp_username = u, rp_email = e, rp_password = p\<rparr>"
proof -
  have "readStr (fieldS u @ fieldS e @ fieldS p @ r) (length u + length e + 8)
          = Inr (p, length u + length e + length p + 12)"
    using assms by (subst readStr_at) simp_all
  with assms show ?thesis
    by (simp add: decodeRegister_def encode_fields decode_two_strings)
qed

lemma decodeUploadData_encode:
  assumes "fits (ud_uploadId x)" "fits (ud_chunk x)"
  shows "decodeUploadData (encodeUploadData x @ r) = Inr x"
proof -
  let ?b = "encodeUploadData x @ r"
  let ?n = "length (ud_uploadId x) + 4"
  have "readStr ?b 0 = Inr (ud_uploadId x, ?n)"
    using assms by (subst readStr_at) (simp_all add: encode_fields)
  moreover have "get64be ?b ?n = ud_offset x"
    by (rule get64be_at) (simp_all add: encode_fields)
  moreover have "readBytes ?b (?n + 8) = Inr (ud_chunk x, ?n + 8 + length (ud_chunk x) + 4)"
    using assms by (subst readBytes_at) (simp_all add: encode_fields)
  ultimately show ?thesis
    by (simp add: decodeUploadData_def encode_fields Let_def)
qed

text \<open>A field that was read stands in the buffer at the offset it was read from.\<close>

lemma readBytes_sound:
  assumes "readBytes b off = Inr (x, off')"
  shows "drop off b = fieldB x @ drop off' b" "fits x" "off' \<le> length b" "off \<le> off'"
proof -
  define len where "len = get32be b off"
  from assms have g: "off + 4 \<le> length b" "off + 4 + unat len \<le> length b"
    and x: "x = take (unat len) (drop (off + 4) b)" and off': "off' = off + 4 + unat len"
    by (auto simp: readBytes_def Let_def len_def split: if_splits)
  have lx: "length x = unat len" using g x by simp
  have "get32be (drop off b) 0 = len" using g by (simp add: get32be_def len_def add.commute)
  then have "take 4 (drop off b) = put32be [] (word_of_nat (length x))"
    using be32_split [of "drop off b"] g by (simp add: lx)
  moreover have "drop off b = take 4 (drop off b) @ x @ drop off' b"
  proof -
    have "drop (off + 4) b = x @ drop off' b"
      unfolding x off' by (metis append_take_drop_id drop_drop add.commute)
    then show ?thesis by (metis append_take_drop_id drop_drop add.commute)
  qed
  ultimately show "drop off b = fieldB x @ drop off' b" by (simp add: fieldB_def)
  show "fits x" using lx unsigned_less [of len, where ?'a = nat] by simp
  show "off' \<le> length b" "off \<le> off'" using g off' by simp_all
qed

lemma readStr_sound:
  assumes "readStr b off = Inr (x, off')"
  shows "drop off b = fieldS x @ drop off' b" "fits x" "off' \<le> length b" "off \<le> off'"
proof -
  from assms obtain y where y: "readBytes b off = Inr (y, off')" "x = string_of_bytes y"
    by (auto simp: readStr_def readBytes_def Let_def split: if_splits)
  then show "drop off b = fieldS x @ drop off' b" "fits x" "off' \<le> length b" "off \<le> off'"
    using readBytes_sound [OF y(1)] by (simp_all add: fieldS_def)
qed

lemma get64be_sound:
  assumes "off + 8 \<le> length b"
  shows "drop off b = put64be [] (get64be b off) @ drop (off + 8) b"
proof -
  have "get64be b off = get64be (drop off b) 0"
    using assms by (simp add: get64be_def add.commute)
  then have "put64be [] (get64be b off) = take 8 (drop off b)"
    using be64_split [of "drop off b"] assms by simp
  then show ?thesis by (metis append_take_drop_id drop_drop add.commute)
qed

lemma decodeUploadData_fields:
  assumes "decodeUploadData b = Inr x"
  shows "\<exists>r. b = encodeUploadData x @ r" "fits (ud_uploadId x)" "fits (ud_chunk x)"
proof -
  from assms obtain off off' where a: "readStr b 0 = Inr (ud_uploadId x, off)" "off + 8 \<le> length b"
    "ud_offset x = get64be b off" "readBytes b (off + 8) = Inr (ud_chunk x, off')"
    by (auto simp: decodeUploadData_def bindE_Inr_iff Let_def split: if_splits)
  from readStr_sound(1) [OF a(1)] readBytes_sound(1) [OF a(4)] get64be_sound [OF a(2), folded a(3)]
  show "\<exists>r. b = encodeUploadData x @ r" by (auto simp: encode_fields)
  show "fits (ud_uploadId x)" by (rule readStr_sound(2) [OF a(1)])
  show "fits (ud_chunk x)" by (rule readBytes_sound(2) [OF a(4)])
qed

section \<open>Properties\<close>

text \<open>
  C39. Every request payload is decoded to what was encoded, also with bytes after it,
  provided its variable-length fields are shorter than 4 GiB (the length prefix) and the
  digest of an upload header has its 32 bytes. The one difference is in the upload header:
  an empty algorithm name comes back as the default one.
\<close>

theorem payload_roundtrip:
  assumes "fits u" "fits e" "fits p" "fits (dr_fileId d)" "fits (dr_token d)"
    and "fits (ud_uploadId x)" "fits (ud_chunk x)" "init_fits y"
  shows "decodeRegister (encodeRegister u e p @ r) = Inr \<lparr>rp_username = u, rp_email = e, rp_password = p\<rparr>
    \<and> decodeLogin (encodeLogin u p @ r) = Inr \<lparr>lp_username = u, lp_password = p\<rparr>
    \<and> decodeAdmin (encodeAdmin u p @ r) = Inr \<lparr>ap_token = u, ap_targetId = p\<rparr>
    \<and> decodeDownloadReq (encodeDownloadReq d @ r) = Inr d
    \<and> decodeUploadData (encodeUploadData x @ r) = Inr x
    \<and> decodeUploadInit (encodeUploadInit y @ r) = Inr (default_alg y)"
  using assms
  by (simp add: decodeRegister_encode decodeLogin_encode decodeAdmin_encode
      decodeDownloadReq_encode decodeUploadData_encode decodeUploadInit_default)

theorem payload_roundtrip_witness:
  "let y = \<lparr>ui_recipient = ''bob'', ui_origName = ''a.pdf'', ui_uploadId = ''u-1'', ui_size = 5, ui_digest = Digest (replicate 32 7),
        ui_wrapped = \<lparr>recipientId = UserId ''bob'', nonce = replicate 12 1, wbytes = [1, 2], alg = seal_alg\<rparr>\<rparr>;
       x = \<lparr>ud_uploadId = ''u-1'', ud_offset = 2 ^ 40, ud_chunk = [5, 6]\<rparr>
   in decodeLogin (encodeLogin ''alice'' ''Alice@1234'' @ [3]) = Inr \<lparr>lp_username = ''alice'', lp_password = ''Alice@1234''\<rparr>
     \<and> decodeUploadData (encodeUploadData x @ [3]) = Inr x \<and> decodeUploadInit (encodeUploadInit y @ [3]) = Inr y"
proof -
  let ?y = "\<lparr>ui_recipient = ''bob'', ui_origName = ''a.pdf'', ui_uploadId = ''u-1'', ui_size = 5, ui_digest = Digest (replicate 32 7),
        ui_wrapped = \<lparr>recipientId = UserId ''bob'', nonce = replicate 12 1, wbytes = [1, 2], alg = seal_alg\<rparr>\<rparr>"
  have "init_fits ?y" "default_alg ?y = ?y" by (simp_all add: init_fits_def default_alg_def digest_wf_def seal_alg_def)
  then show ?thesis unfolding Let_def
    using payload_roundtrip [of "''alice''" "''a@x''" "''Alice@1234''" "\<lparr>dr_fileId = [], dr_token = []\<rparr>"
        "\<lparr>ud_uploadId = ''u-1'', ud_offset = 2 ^ 40, ud_chunk = [5, 6]\<rparr>" ?y "[3]"] by simp
qed

text \<open>
  A chunk that decodes is exactly the message the bytes spell: an \<open>UPLOAD_DATA\<close>
  body is accepted only when the encoding of the decoded chunk is a prefix of it, and
  every truncation of that encoding is rejected with an exception.
\<close>

theorem upload_data_sound:
  assumes dec: "decodeUploadData b = Inr x"
  shows "(\<exists>r. b = encodeUploadData x @ r)
    \<and> (\<forall>k < length (encodeUploadData x). \<exists>e. decodeUploadData (take k b) = Inl e)"
proof (intro conjI allI impI)
  show "\<exists>r. b = encodeUploadData x @ r" by (rule decodeUploadData_fields(1) [OF dec])
  fix k assume k: "k < length (encodeUploadData x)"
  show "\<exists>e. decodeUploadData (take k b) = Inl e"
  proof (cases "decodeUploadData (take k b)")
    case (Inr y)
    note y = decodeUploadData_fields [OF Inr]
    then obtain r where t: "take k b = encodeUploadData y @ r" by blast
    have "decodeUploadData b = Inr y"
      using decodeUploadData_encode [OF y(2,3), of "r @ drop k b"] t
      by (metis append_assoc append_take_drop_id)
    with dec have "y = x" by simp
    with t have "length (take k b) \<ge> length (encodeUploadData x)" by simp
    with k show ?thesis by simp
  qed simp
qed

theorem upload_data_sound_witness:
  "\<exists>e. decodeUploadData
     (take 3 (encodeUploadData \<lparr>ud_uploadId = ''u'', ud_offset = 0, ud_chunk = [5]\<rparr> @ [])) = Inl e"
  by (rule upload_data_sound [THEN conjunct2, rule_format, OF decodeUploadData_encode])
     (simp_all add: encode_fields)

end
