(* ===== verification/Validator.thy ===== *)
theory Validator
  imports Prelude
begin

text \<open>
  The upload validator (\<^verbatim>\<open>src/infrastructure/file_validator.cpp\<close>): file name, size and
  header checks. The standard library's \<open>fs::path::lexically_normal\<close> is modelled for POSIX
  paths (the separator is the slash, there are no root names): empty and \<open>.\<close> components
  vanish, \<open>..\<close> removes the component before it or, in an absolute path, vanishes.
\<close>

section \<open>Lexical normalisation\<close>

fun split_on :: "char \<Rightarrow> string \<Rightarrow> string list" where
  "split_on d [] = [[]]"
| "split_on d (c # cs) =
     (if c = d then [] # split_on d cs
      else case split_on d cs of [] \<Rightarrow> [[c]] | w # ws \<Rightarrow> (c # w) # ws)"

fun join_with :: "char \<Rightarrow> string list \<Rightarrow> string" where
  "join_with d [] = []"
| "join_with d [w] = w"
| "join_with d (w # ws) = w @ d # join_with d ws"

text \<open>One component onto the stack of components kept so far, the innermost first.\<close>

definition push :: "bool \<Rightarrow> string list \<Rightarrow> string \<Rightarrow> string list" where
  "push absolute st c =
     (if c = [] \<or> c = ''.'' then st
      else if c = ''..'' then
        (if st \<noteq> [] \<and> hd st \<noteq> ''..'' then tl st else if absolute then st else c # st)
      else c # st)"

definition lexically_normal :: "string \<Rightarrow> string" where
  "lexically_normal s =
     (if s = [] then []
      else let absolute = (hd s = CHR ''/'');
               cs = split_on (CHR ''/'') s;
               st = foldl (push absolute) [] cs;
               trailing = (last cs \<in> {[], ''.'', ''..''} \<and> st \<noteq> [] \<and> hd st \<noteq> ''..'');
               p = (if absolute then ''/'' else []) @ join_with (CHR ''/'') (rev st) @ (if trailing then ''/'' else [])
           in if p = [] then ''.'' else p)"

section \<open>The validator\<close>

definition ends_with :: "string \<Rightarrow> string \<Rightarrow> bool" where
  "ends_with s suff = (if length suff > length s then False else drop (length s - length suff) s = suff)"

definition pdf_magic :: "bytes \<Rightarrow> bool" where
  "pdf_magic h \<longleftrightarrow> \<not> length h < 4 \<and> h ! 0 = 0x25 \<and> h ! 1 = 0x50 \<and> h ! 2 = 0x44 \<and> h ! 3 = 0x46"

definition validate :: "string \<Rightarrow> u64 \<Rightarrow> bytes \<Rightarrow> exn + unit" where
  "validate name sz header =
     (if name = [] \<or> CHR 0x00 \<in> set name then Inl (ValidationException ''name empty or NUL'')
      else let norm = lexically_normal name
           in if contains norm ''..'' then Inl (ValidationException ''traversal'')
              else if \<not> ends_with norm ''.pdf'' then Inl (ValidationException ''PDF-only core'')
              else if contains norm ''.pdf.'' then Inl (ValidationException ''double ext'')
              else if sz > 100 * 1024 * 1024 then Inl (ValidationException ''oversize'')
              else if \<not> pdf_magic header then Inl (ValidationException ''PDF magic'')
              else Inr ())"

section \<open>Walking a path\<close>

text \<open>
  Resolving the components of a path from a directory at depth \<open>d\<close> below some base: \<open>True\<close>
  if the walk never steps above the base.
\<close>

fun stays_below :: "nat \<Rightarrow> string list \<Rightarrow> bool" where
  "stays_below d [] = True"
| "stays_below d (c # cs) =
     (if c = [] \<or> c = ''.'' then stays_below d cs
      else if c = ''..'' then 0 < d \<and> stays_below (d - 1) cs
      else stays_below (d + 1) cs)"

lemma dotdot_stays: "''..'' \<in> set st \<Longrightarrow> ''..'' \<in> set (foldl (push a) st cs)"
proof (induction cs arbitrary: st)
  case (Cons c cs)
  have "''..'' \<in> set (push a st c)"
    using Cons.prems by (cases st) (auto simp: push_def)
  then show ?case using Cons.IH by simp
qed simp

lemma stack_stays_below:
  "''..'' \<notin> set (foldl (push False) st cs) \<Longrightarrow> stays_below (length st) cs"
proof (induction cs arbitrary: st)
  case (Cons c cs)
  have no: "''..'' \<notin> set (push False st c)" using Cons.prems dotdot_stays by fastforce
  from Cons.IH [of "push False st c"] Cons.prems have ih: "stays_below (length (push False st c)) cs" by simp
  show ?case
  proof (cases "c = ''..''")
    case True
    with no have "st \<noteq> []" "hd st \<noteq> ''..''" by (auto simp: push_def split: if_splits)
    with True ih show ?thesis by (simp add: push_def)
  next
    case False
    with ih show ?thesis by (auto simp: push_def split: if_splits)
  qed
qed simp

lemma join_contains: "w \<in> set ws \<Longrightarrow> \<exists>u v. join_with d ws = u @ w @ v"
proof (induction d ws rule: join_with.induct)
  case (3 d w1 w2 ws)
  show ?case
  proof (cases "w = w1")
    case True
    then show ?thesis by (intro exI [of _ "[]"] exI [of _ "d # join_with d (w2 # ws)"]) simp
  next
    case False
    then obtain u v where "join_with d (w2 # ws) = u @ w @ v" using 3 by auto
    then show ?thesis by (intro exI [of _ "w1 @ d # u"] exI [of _ v]) simp
  qed
next
  case (2 d w1)
  then show ?case by (intro exI [of _ "[]"]) simp
qed simp

lemma normal_no_dotdot:
  assumes "\<not> contains (lexically_normal s) ''..''" "s \<noteq> []"
  shows "''..'' \<notin> set (foldl (push (hd s = CHR ''/'')) [] (split_on (CHR ''/'') s))"
proof
  let ?st = "foldl (push (hd s = CHR ''/'')) [] (split_on (CHR ''/'') s)"
  assume "''..'' \<in> set ?st"
  then obtain u v where j: "join_with (CHR ''/'') (rev ?st) = u @ ''..'' @ v" using join_contains [of "''..''" "rev ?st" "CHR ''/''"] by auto
  obtain pre post where "lexically_normal s = pre @ (u @ ''..'' @ v) @ post"
    using assms(2) unfolding lexically_normal_def Let_def j by (simp split: if_splits)
  then have "lexically_normal s = (pre @ u) @ ''..'' @ (v @ post)" by simp
  then show False using assms(1) contains_iff by blast
qed

lemma ends_with_suffix: "ends_with s t \<longleftrightarrow> suffix t s"
proof
  assume "ends_with s t"
  then have "s = take (length s - length t) s @ t" unfolding ends_with_def by (metis append_take_drop_id)
  then show "suffix t s" unfolding suffix_def by blast
next
  assume "suffix t s"
  then show "ends_with s t" by (auto simp: suffix_def ends_with_def)
qed

lemma list4_cases:
  obtains "length xs < 4" | a b c d r where "xs = a # b # c # d # r"
  using that by (cases "4 \<le> length xs") (auto simp: numeral_eq_Suc Suc_le_length_iff not_le)

section \<open>Properties\<close>

text \<open>
  C35. A name that passes validation cannot leave its directory: the normalised name ends
  in \<open>.pdf\<close>, has no second extension after \<open>.pdf\<close>, and, unless the name is absolute, walking
  its components from any directory never steps above that directory. The size is at most
  100 MiB and the header starts with the PDF signature.
\<close>

theorem validated_name_safe:
  assumes "validate name sz header = Inr ()"
  shows "name \<noteq> [] \<and> CHR 0x00 \<notin> set name \<and> suffix ''.pdf'' (lexically_normal name)
     \<and> \<not> contains (lexically_normal name) ''.pdf.''
     \<and> (hd name \<noteq> CHR ''/'' \<longrightarrow> stays_below 0 (split_on (CHR ''/'') name))
     \<and> unat sz \<le> 104857600 \<and> take 4 header = [0x25, 0x50, 0x44, 0x46]"
proof -
  have v: "name \<noteq> []" "CHR 0x00 \<notin> set name" "\<not> contains (lexically_normal name) ''..''"
    "ends_with (lexically_normal name) ''.pdf''" "\<not> contains (lexically_normal name) ''.pdf.''"
    "\<not> sz > 100 * 1024 * 1024" "pdf_magic header"
    using assms by (auto simp: validate_def Let_def split: if_splits)
  have "stays_below 0 (split_on (CHR ''/'') name)" if "hd name \<noteq> CHR ''/''"
    using normal_no_dotdot [OF v(3,1)] that stack_stays_below [of "[]" "split_on (CHR ''/'') name"] by simp
  moreover have "unat sz \<le> 104857600" using v(6) by (simp add: not_less word_le_nat_alt)
  moreover have "take 4 header = [0x25, 0x50, 0x44, 0x46]"
  proof -
    obtain a b c d r where "header = a # b # c # d # r"
      using v(7) unfolding pdf_magic_def by (cases header rule: list4_cases) auto
    with v(7) show ?thesis by (simp add: pdf_magic_def)
  qed
  ultimately show ?thesis using v ends_with_suffix by blast
qed

theorem validated_name_safe_witness:
  "validate ''a/../b.pdf'' 10 [0x25, 0x50, 0x44, 0x46, 0x2D] = Inr () \<and> stays_below 0 (split_on (CHR ''/'') ''a/../b.pdf'')
   \<and> validate ''a/../../b.pdf'' 10 [0x25, 0x50, 0x44, 0x46] = Inl (ValidationException ''traversal'')"
proof -
  have "validate ''a/../b.pdf'' 10 [0x25, 0x50, 0x44, 0x46, 0x2D] = Inr ()" by code_simp
  moreover have "validate ''a/../../b.pdf'' 10 [0x25, 0x50, 0x44, 0x46] = Inl (ValidationException ''traversal'')" by code_simp
  ultimately show ?thesis using validated_name_safe [of "''a/../b.pdf''" 10 "[0x25, 0x50, 0x44, 0x46, 0x2D]"] by simp
qed

end
