(* ===== verification/Cli.thy ===== *)
theory Cli
  imports Prelude "HOL-Library.Signed_Division"
begin

text \<open>
  The console helpers of \<^verbatim>\<open>include/presentation/cli.hpp\<close> both applications use:
  the answer to a yes/no question, the fixed messages for authentication events, and the
  colours and the progress bar of \<^verbatim>\<open>ansi.hpp\<close>. In the applications a printed line is
  tagged with the function that prints it; \<open>console\<close> gives the bytes that appear.
\<close>

datatype line = Safe string | Error string | Note string

definition askYesNo :: "string \<Rightarrow> bool" where
  "askYesNo a \<longleftrightarrow> a \<noteq> [] \<and> (hd a = CHR ''y'' \<or> hd a = CHR ''Y'')"

definition formatSafeAuthMessage :: "string \<Rightarrow> string \<Rightarrow> string" where
  "formatSafeAuthMessage act who =
     (if act = ''REGISTER_OK'' then ''Registration succeeded for '' @ who
      else if act = ''REGISTER_FAIL'' then ''Registration failed''
      else if act = ''LOGIN_OK'' then ''Login succeeded''
      else if act = ''LOGIN_FAIL'' then ''Login failed''
      else if act = ''LOGOUT'' then ''Logged out''
      else if act = ''ACTIVATE'' then ''Account activated: '' @ who
      else if act = ''DEACTIVATE'' then ''Account deactivated: '' @ who
      else if act = ''ADMIN_DENIED'' then ''Admin action denied''
      else if act = ''TLS_FAIL'' then ''TLS authentication failed''
      else ''Auth event: '' @ act)"

section \<open>Colours\<close>

definition ansi_green :: string where "ansi_green = CHR 0x1B # ''[32m''"
definition ansi_red :: string where "ansi_red = CHR 0x1B # ''[31m''"
definition ansi_yellow :: string where "ansi_yellow = CHR 0x1B # ''[33m''"
definition ansi_reset :: string where "ansi_reset = CHR 0x1B # ''[0m''"

definition printSuccess :: "string \<Rightarrow> string" where
  "printSuccess m = ansi_green @ m @ ansi_reset @ [CHR 0x0A]"

definition printError :: "string \<Rightarrow> string" where
  "printError m = ansi_red @ m @ ansi_reset @ [CHR 0x0A]"

definition printSafe :: "string \<Rightarrow> string" where
  "printSafe m = ansi_green @ m @ ansi_reset @ [CHR 0x0A]"

primrec console :: "line \<Rightarrow> string" where
  "console (Safe m) = printSafe m"
| "console (Error m) = printError m"
| "console (Note m) = m @ [CHR 0x0A]"

text \<open>The loop over ten places; \<open>int\<close> division truncates towards zero.\<close>

definition progressBar :: "int \<Rightarrow> string" where
  "progressBar pct =
     (let bars = pct sdiv 10
      in ''['' @ map (\<lambda>i. if int i < bars then CHR ''#'' else CHR ''-'') [0..<10] @ ''] '' @ to_string pct @ ''%'')"

text \<open>The bar always has ten places, and between 0 and 100 percent a tenth of the percentage is filled.\<close>

lemma progressBar_filled:
  assumes "0 \<le> pct" "pct \<le> 100"
  shows "progressBar pct = ''['' @ replicate (nat (pct div 10)) (CHR ''#'') @ replicate (10 - nat (pct div 10)) (CHR ''-'')
     @ ''] '' @ to_string pct @ ''%''"
proof -
  let ?n = "nat (pct div 10)"
  have "?n \<le> 10" "pct sdiv 10 = int ?n" using assms by (cases "pct = 0"; simp add: signed_divide_int_def sgn_if)+
  moreover have "map (\<lambda>i. if int i < int n then a else b) [0..<m] = replicate n a @ replicate (m - n) b" if "n \<le> m" for n m and a b :: char
    using that by (auto simp: list_eq_iff_nth_eq nth_append)
  ultimately show ?thesis by (simp only: progressBar_def Let_def append.assoc)
qed

end
