(* ===== verification/ClientApp.thy ===== *)
theory ClientApp
  imports ClientCrypto Framing Protocol Validator Cli "HOL-Library.AList"
begin

text \<open>
  The interactive client (\<^verbatim>\<open>src/presentation/client_app.cpp\<close>): one operation per menu
  entry over its local state (token, user, keys, files) and a transport that sends and
  receives frames. What the user types and what the random generator and the file system
  deliver are arguments. Prompts are left out; every message the client prints is kept.
\<close>

section \<open>State\<close>

record 'w ITransport =
  send_frame :: "Frame \<Rightarrow> ('w, unit) sx"
  recv_frame :: "('w, Frame option) sx"

record 'w Client =
  sessionToken :: string
  loggedUser :: string
  localKeys :: "(string \<times> KeyPair) list"
  pubCache :: "(string \<times> bytes) list"
  cfiles :: "(string \<times> bytes) list"
  printed :: "line list"
  wire :: 'w

text \<open>OpenSSL, the random draws of one command, and which paths can be opened for writing.\<close>

record ('pk, 'dc, 'cc) client_env =
  ssl :: "('pk, 'dc, 'cc) openssl"
  rndKey :: rand
  rndFile :: rand
  rdUpload :: random_device
  writable :: "string \<Rightarrow> bool"

definition printLine :: "line \<Rightarrow> ('w Client, unit) sx" where
  "printLine l c = (Inr (), c\<lparr>printed := printed c @ [l]\<rparr>)"

definition onWire :: "('w, 'x) sx \<Rightarrow> ('w Client, 'x) sx" where
  "onWire m = zoomS wire (\<lambda>w c. c\<lparr>wire := w\<rparr>) m"

text \<open>Send a request and wait for the answer; \<^const>\<open>None\<close> is \<open>recvFrame\<close> returning false.\<close>

definition request :: "'w ITransport \<Rightarrow> Frame \<Rightarrow> ('w Client, Frame option) sx" where
  "request T f = bindS (onWire (send_frame T f)) (\<lambda>_. onWire (recv_frame T))"

section \<open>Local files\<close>

definition keyPathFor :: "string \<Rightarrow> string" where
  "keyPathFor user = ''./storage/client_'' @ user @ ''.key''"

definition savePrivKey :: "('pk, 'dc, 'cc) client_env \<Rightarrow> string \<Rightarrow> bytes \<Rightarrow> ('w Client, unit) sx" where
  "savePrivKey e user sk c =
     (Inr (), if writable e (keyPathFor user) then c\<lparr>cfiles := AList.update (keyPathFor user) sk (cfiles c)\<rparr> else c)"

definition loadPrivKey :: "string \<Rightarrow> 'w Client \<Rightarrow> bytes option" where
  "loadPrivKey user c =
     (case map_of (cfiles c) (keyPathFor user) of
        None \<Rightarrow> None
      | Some b \<Rightarrow> if length b \<ge> 32 then Some (take 32 b) else None)"

definition readFileBytes :: "string \<Rightarrow> 'w Client \<Rightarrow> exn + bytes" where
  "readFileBytes path c =
     (case map_of (cfiles c) path of None \<Rightarrow> Inl (RuntimeError (''cannot open file '' @ path)) | Some b \<Rightarrow> Inr b)"

definition writeFileBytes :: "('pk, 'dc, 'cc) client_env \<Rightarrow> string \<Rightarrow> bytes \<Rightarrow> ('w Client, unit) sx" where
  "writeFileBytes e path b c =
     (if writable e path then (Inr (), c\<lparr>cfiles := AList.update path b (cfiles c)\<rparr>)
      else (Inl (RuntimeError (''cannot write file '' @ path)), c))"

text \<open>\<open>fs::path(p).filename()\<close> for POSIX paths.\<close>

definition filename :: "string \<Rightarrow> string" where
  "filename p = last (split_on (CHR ''/'') p)"

section \<open>Menu entries\<close>

text \<open>A new key pair for a user: the private key goes to its file, the public key to the cache.\<close>

definition new_keys :: "('pk, 'dc, 'cc) client_env \<Rightarrow> string \<Rightarrow> ('w Client, unit) sx" where
  "new_keys e user =
     bindS (getS (\<lambda>_. KeyPair_generate (ssl e) (rndKey e))) (\<lambda>kp.
     bindS (savePrivKey e user (priv kp)) (\<lambda>_ c.
     (Inr (), c\<lparr>localKeys := AList.update user kp (localKeys c), pubCache := AList.update user (pub kp) (pubCache c)\<rparr>)))"

definition client_register ::
  "'w ITransport \<Rightarrow> ('pk, 'dc, 'cc) client_env \<Rightarrow> string \<Rightarrow> string \<Rightarrow> string \<Rightarrow> string \<Rightarrow> ('w Client, unit) sx" where
  "client_register T e user mail pw answer =
     (if \<not> askYesNo answer then retS ()
      else bindS (new_keys e user) (\<lambda>_.
           bindS (printLine (Note (''Generated X25519 keypair for '' @ user @ '' (priv saved to '' @ keyPathFor user @ '' 0600)''))) (\<lambda>_.
           bindS (request T \<lparr>ftype = REGISTER, requestId = 1, body = encodeRegister user mail pw\<rparr>) (\<lambda>resp.
           case resp of
             None \<Rightarrow> retS ()
           | Some r \<Rightarrow>
               let msg = string_of_bytes (body r)
               in printLine (if ftype r = REGISTER then Safe msg else Error msg)))))"

definition client_login ::
  "'w ITransport \<Rightarrow> ('pk, 'dc, 'cc) client_env \<Rightarrow> string \<Rightarrow> string \<Rightarrow> ('w Client, unit) sx" where
  "client_login T e user pw =
     bindS (request T \<lparr>ftype = AUTH, requestId = 2, body = encodeLogin user pw\<rparr>) (\<lambda>resp.
     case resp of
       None \<Rightarrow> retS ()
     | Some r \<Rightarrow>
         if ftype r = AUTH
         then bindS (\<lambda>c. (Inr (), c\<lparr>sessionToken := string_of_bytes (body r), loggedUser := user\<rparr>)) (\<lambda>_.
              bindS (\<lambda>c. case loadPrivKey user c of
                       Some sk \<Rightarrow>
                         (Inr (), if map_of (localKeys c) user = None
                                  then c\<lparr>localKeys := AList.update user \<lparr>pub = replicate 32 0, priv = sk\<rparr> (localKeys c)\<rparr> else c)
                     | None \<Rightarrow>
                         bindS (new_keys e user) (\<lambda>_.
                         printLine (Note (''Generated new keypair for '' @ user @ '' (no prior key found)''))) c) (\<lambda>_.
              bindS (printLine (Safe (formatSafeAuthMessage ''LOGIN_OK'' user))) (\<lambda>_.
              printLine (Note ''Session established (token not displayed)''))))
         else let msg = string_of_bytes (body r)
              in printLine (Error (if msg = [] then ''Login failed'' else msg)))"

definition client_logout :: "'w ITransport \<Rightarrow> ('w Client, unit) sx" where
  "client_logout T c =
     (if sessionToken c = [] then printLine (Error ''Not logged in'') c
      else bindS (request T \<lparr>ftype = LOGOUT, requestId = 3, body = bytes_of_string (sessionToken c)\<rparr>) (\<lambda>resp.
           case resp of
             None \<Rightarrow> retS ()
           | Some r \<Rightarrow>
               bindS (printLine (Safe (string_of_bytes (body r)))) (\<lambda>_ c.
               (Inr (), c\<lparr>sessionToken := '''', loggedUser := ''''\<rparr>))) c)"

definition CHUNK :: nat where
  "CHUNK = 1 * 1024 * 1024"

function send_chunks :: "'w ITransport \<Rightarrow> string \<Rightarrow> bytes \<Rightarrow> nat \<Rightarrow> ('w Client, unit) sx" where
  "send_chunks T up cipher offset =
     (if offset < length cipher
      then let n = min CHUNK (length cipher - offset);
               chunk = take n (drop offset cipher)
           in bindS (request T \<lparr>ftype = UPLOAD_DATA, requestId = 4,
                       body = encodeUploadData \<lparr>ud_uploadId = up, ud_offset = word_of_nat offset, ud_chunk = chunk\<rparr>\<rparr>) (\<lambda>resp.
              if (case resp of None \<Rightarrow> True | Some r \<Rightarrow> ftype r = ERR) then printLine (Error ''UPLOAD_DATA failed'')
              else send_chunks T up cipher (offset + n))
      else retS ())"
  by pat_completeness auto
termination
  by (relation "measure (\<lambda>(T, up, cipher, offset). length cipher - offset)") (auto simp: CHUNK_def)

declare send_chunks.simps [simp del]

definition commit_body :: "string \<Rightarrow> bytes" where
  "commit_body up = put32be [] (word_of_nat (length up)) @ bytes_of_string up"

definition client_upload ::
  "'w ITransport \<Rightarrow> ('pk, 'dc, 'cc) client_env \<Rightarrow> string \<Rightarrow> string \<Rightarrow> string \<Rightarrow> ('w Client, unit) sx" where
  "client_upload T e filePath recip answer c =
     (if sessionToken c = [] then printLine (Error ''Not logged in'') c
      else if \<not> askYesNo answer then (Inr (), c)
      else catchS (bindS (getS (readFileBytes filePath)) (\<lambda>plain.
             bindS (getS (\<lambda>c. Inr (map_of (pubCache c) recip))) (\<lambda>cached.
             case cached of
               None \<Rightarrow> printLine (Error (''Recipient pubkey not cached '' @ [CHR 0xE2, CHR 0x80, CHR 0x94]
                         @ '' upload requires recipient pubkey. Do LIST or ensure recipient registered on this client.''))
             | Some recipPub \<Rightarrow>
                 bindS (getS (\<lambda>_. Client_encrypt_for (ssl e) (rndFile e) plain (UserId recip) recipPub)) (\<lambda>enc.
                 let up = uid (generateUserId (rdUpload e));
                     init = \<lparr>ui_recipient = recip, ui_origName = filename filePath, ui_uploadId = up,
                             ui_size = word_of_nat (length plain), ui_digest = eo_digest enc, ui_wrapped = eo_wrapped enc\<rparr>
                 in bindS (request T \<lparr>ftype = UPLOAD_INIT, requestId = 4, body = encodeUploadInit init\<rparr>) (\<lambda>rInit.
                    if (case rInit of None \<Rightarrow> True | Some r \<Rightarrow> ftype r = ERR) then printLine (Error ''UPLOAD_INIT failed'')
                    else bindS (send_chunks T up (eo_cipher enc) 0) (\<lambda>_.
                         bindS (request T \<lparr>ftype = UPLOAD_COMMIT, requestId = 4, body = commit_body up\<rparr>) (\<lambda>rCommit.
                         case rCommit of
                           None \<Rightarrow> retS ()
                         | Some r \<Rightarrow>
                             let msg = string_of_bytes (body r)
                             in printLine (if ftype r = UPLOAD_COMMIT then Safe (''UPLOAD ok transfer '' @ msg)
                                           else Error (''UPLOAD COMMIT failed: '' @ msg)))))))))
           (\<lambda>ex. printLine (Error (''Upload error: '' @ what ex))) c)"

definition client_download ::
  "'w ITransport \<Rightarrow> ('pk, 'dc, 'cc) client_env \<Rightarrow> string \<Rightarrow> string \<Rightarrow> ('w Client, unit) sx" where
  "client_download T e fileId outPath c =
     (if sessionToken c = [] then printLine (Error ''Not logged in'') c
      else let outPath = (if outPath = [] then fileId @ ''.pdf'' else outPath)
      in catchS (bindS (request T \<lparr>ftype = DOWNLOAD_REQ, requestId = 5,
                          body = encodeDownloadReq \<lparr>dr_fileId = fileId, dr_token = sessionToken c\<rparr>\<rparr>) (\<lambda>resp c.
           case resp of
             None \<Rightarrow> (Inr (), c)
           | Some r \<Rightarrow>
               if ftype r = DOWNLOAD_DATA
               then let opaque = (if length (body r) \<ge> 4
                                  then (case decodeUploadData (body r) of Inr d \<Rightarrow> ud_chunk d | Inl _ \<Rightarrow> body r)
                                  else body r)
                    in if loggedUser c = [] then printLine (Error ''No logged user for privkey'') c
                       else if loadPrivKey (loggedUser c) c = None \<and> map_of (localKeys c) (loggedUser c) = None
                       then printLine (Error (''No privkey for '' @ loggedUser c)) c
                       else bindS (writeFileBytes e outPath opaque) (\<lambda>_.
                            printLine (Safe (''DOWNLOAD saved to '' @ outPath @ '' (opaque, decrypt locally if you have wrapped/digest)''))) c
               else if ftype r = ERR
               then let msg = string_of_bytes (body r)
                    in printLine (Error (''DOWNLOAD failed: '' @ (if msg = [] then ''denied'' else msg))) c
               else printLine (Error ''Unexpected reply'') c))
           (\<lambda>ex. printLine (Error (''Download error: '' @ what ex))) c)"

section \<open>The menu\<close>

datatype command =
    Register string string string string
  | Login string string
  | Logout
  | Upload string string string
  | Download string string
  | Quit
  | Unknown

definition client_step :: "'w ITransport \<Rightarrow> ('pk, 'dc, 'cc) client_env \<Rightarrow> command \<Rightarrow> ('w Client, unit) sx" where
  "client_step T e cmd =
     (case cmd of
        Register user mail pw answer \<Rightarrow> client_register T e user mail pw answer
      | Login user pw \<Rightarrow> client_login T e user pw
      | Logout \<Rightarrow> client_logout T
      | Upload filePath recip answer \<Rightarrow> client_upload T e filePath recip answer
      | Download fileId outPath \<Rightarrow> client_download T e fileId outPath
      | _ \<Rightarrow> retS ())"

text \<open>The loop ends with \<open>Quit\<close>; an exception that leaves a command ends the program.\<close>

fun client_run :: "'w ITransport \<Rightarrow> (('pk, 'dc, 'cc) client_env \<times> command) list \<Rightarrow> ('w Client, unit) sx" where
  "client_run T [] c = (Inr (), c)"
| "client_run T ((e, cmd) # cmds) c =
     (if cmd = Quit then (Inr (), c)
      else case client_step T e cmd c of (Inl ex, c') \<Rightarrow> (Inl ex, c') | (Inr _, c') \<Rightarrow> client_run T cmds c')"

end
