(* ===== verification/Sqlite.thy ===== *)
theory Sqlite
  imports Domain "HOL-Library.Multiset"
begin

text \<open>
  The SQLite interface the persistent repositories are written against. The library is
  not part of the program: a record holds the result of each call, and everything the
  code relies on is stated about it. The functions here are the idioms all four
  repositories repeat: \<open>exec\<close>, prepare and step a statement, roll back and throw.

  Two sets of laws are used. \<open>transactional\<close> says only what a transaction is, and lets
  every call fail; \<open>sql_engine\<close> says in addition what the statements of the program do
  to a table when nothing fails. A small engine that satisfies both shows that they are
  consistent.
\<close>

section \<open>Calls\<close>

datatype sqlval = SNull | SText string | SInt int | SBlob bytes

text \<open>
  \<open>steps\<close> runs a prepared statement with the values bound to its parameters: the rows of
  the successive calls of \<open>sqlite3_step\<close>, the code that ends them, and the database.
\<close>

record 'db sqlite3 =
  sqlite3_exec :: "string \<Rightarrow> 'db \<Rightarrow> (int \<times> string option) \<times> 'db"
  sqlite3_prepare_v2 :: "string \<Rightarrow> 'db \<Rightarrow> int"
  sqlite3_steps :: "string \<Rightarrow> sqlval list \<Rightarrow> 'db \<Rightarrow> (sqlval list list \<times> int) \<times> 'db"
  sqlite3_changes :: "'db \<Rightarrow> int"
  sqlite3_column_text :: "sqlval \<Rightarrow> string option"
  sqlite3_column_int :: "sqlval \<Rightarrow> int"
  sqlite3_column_int64 :: "sqlval \<Rightarrow> int"
  sqlite3_column_blob :: "sqlval \<Rightarrow> bytes option"

definition SQLITE_OK :: int where "SQLITE_OK = 0"
definition SQLITE_CONSTRAINT :: int where "SQLITE_CONSTRAINT = 19"
definition SQLITE_MISUSE :: int where "SQLITE_MISUSE = 21"
definition SQLITE_DONE :: int where "SQLITE_DONE = 101"

definition exec :: "'db sqlite3 \<Rightarrow> string \<Rightarrow> ('db, unit) sx" where
  "exec L sql d =
     (case sqlite3_exec L sql d of
        ((rc, err), d') \<Rightarrow>
          if rc \<noteq> SQLITE_OK then (Inl (RuntimeError (case err of None \<Rightarrow> ''exec failed'' | Some e \<Rightarrow> e)), d')
          else (Inr (), d'))"

definition prepare :: "'db sqlite3 \<Rightarrow> string \<Rightarrow> ('db, int) sx" where
  "prepare L sql d = (Inr (sqlite3_prepare_v2 L sql d), d)"

text \<open>Stepping the null statement a failed prepare leaves behind is a misuse without effect.\<close>

definition step :: "'db sqlite3 \<Rightarrow> string \<Rightarrow> sqlval list \<Rightarrow> ('db, sqlval list list \<times> int) sx" where
  "step L sql ps d =
     (if sqlite3_prepare_v2 L sql d \<noteq> SQLITE_OK then (Inr ([], SQLITE_MISUSE), d)
      else case sqlite3_steps L sql ps d of (res, d') \<Rightarrow> (Inr res, d'))"

definition rollback_throw :: "'db sqlite3 \<Rightarrow> exn \<Rightarrow> ('db, 'x) sx" where
  "rollback_throw L e = bindS (exec L ''ROLLBACK;'') (\<lambda>_. throwS e)"

text \<open>
  The body of every write between \<open>BEGIN IMMEDIATE\<close> and \<open>COMMIT\<close>: prepare one statement, step
  it, and roll back if either fails. Where the code also counts the rows it changed, it
  commits with \<open>checked_commit\<close>.
\<close>

definition write_stmt :: "'db sqlite3 \<Rightarrow> string \<Rightarrow> sqlval list \<Rightarrow> (int \<Rightarrow> exn) \<Rightarrow> ('db, unit) sx \<Rightarrow> ('db, unit) sx" where
  "write_stmt L sql ps failed k =
     bindS (prepare L sql) (\<lambda>rc.
     if rc \<noteq> SQLITE_OK then rollback_throw L (RuntimeError ''prepare failed'')
     else bindS (step L sql ps) (\<lambda>(_, rc).
          if rc \<noteq> SQLITE_DONE then rollback_throw L (failed rc) else k))"

definition checked_commit :: "'db sqlite3 \<Rightarrow> string \<Rightarrow> ('db, unit) sx" where
  "checked_commit L msg d =
     (if sqlite3_changes L d \<noteq> 1 then rollback_throw L (RuntimeError msg) d else exec L ''COMMIT;'' d)"

text \<open>The rows a \<open>const\<close> method reads.\<close>

definition rows_of :: "'db sqlite3 \<Rightarrow> string \<Rightarrow> sqlval list \<Rightarrow> 'db \<Rightarrow> sqlval list list" where
  "rows_of L sql ps d = (case step L sql ps d of (Inr (rs, _), _) \<Rightarrow> rs | (Inl _, _) \<Rightarrow> [])"

text \<open>
  Text is bound through \<open>c_str()\<close> and so ends at the first NUL, and is read back through a
  \<open>const char*\<close>. A null pointer made into a \<open>std::string\<close> is undefined; the standard
  library in use throws.
\<close>

definition c_string :: "string \<Rightarrow> string" where
  "c_string s = takeWhile (\<lambda>c. c \<noteq> CHR 0x00) s"

definition bind_text :: "string \<Rightarrow> sqlval" where
  "bind_text s = SText (c_string s)"

text \<open>Text without a NUL passes unchanged.\<close>

definition plain_text :: "string \<Rightarrow> bool" where
  "plain_text s \<longleftrightarrow> CHR 0x00 \<notin> set s"

lemma plain_c_string [simp]: "plain_text s \<Longrightarrow> c_string s = s"
  by (auto simp: plain_text_def c_string_def takeWhile_eq_all_conv)

lemma plain_bind [simp]: "plain_text s \<Longrightarrow> bind_text s = SText s"
  by (simp add: bind_text_def)

definition column :: "sqlval list \<Rightarrow> nat \<Rightarrow> sqlval" where
  "column r i = (if i < length r then r ! i else SNull)"

definition column_string :: "'db sqlite3 \<Rightarrow> sqlval list \<Rightarrow> nat \<Rightarrow> exn + string" where
  "column_string L r i =
     (case sqlite3_column_text L (column r i) of
        None \<Rightarrow> Inl (RuntimeError ''basic_string: construction from null is not valid'')
      | Some s \<Rightarrow> Inr (c_string s))"

definition column_string_or :: "'db sqlite3 \<Rightarrow> string \<Rightarrow> sqlval list \<Rightarrow> nat \<Rightarrow> string" where
  "column_string_or L dflt r i = (case sqlite3_column_text L (column r i) of None \<Rightarrow> dflt | Some s \<Rightarrow> c_string s)"

definition column_bytes :: "'db sqlite3 \<Rightarrow> sqlval list \<Rightarrow> nat \<Rightarrow> bytes" where
  "column_bytes L r i = (case sqlite3_column_blob L (column r i) of None \<Rightarrow> [] | Some b \<Rightarrow> b)"

text \<open>A loop over the rows that stops at the first exception.\<close>

fun mapE :: "('a \<Rightarrow> exn + 'b) \<Rightarrow> 'a list \<Rightarrow> exn + 'b list" where
  "mapE f [] = Inr []"
| "mapE f (x # xs) = bindE (f x) (\<lambda>y. bindE (mapE f xs) (\<lambda>ys. Inr (y # ys)))"

section \<open>Opening a database\<close>

text \<open>\<open>sqlite3_open\<close> succeeded with the database \<open>d\<close> or failed; every repository runs the same pragmas.\<close>

definition open_db :: "'db sqlite3 \<Rightarrow> string \<Rightarrow> 'db option \<Rightarrow> exn + 'db" where
  "open_db L create opened =
     (case opened of
        None \<Rightarrow> Inl (RuntimeError ''sqlite open failed'')
      | Some d \<Rightarrow>
          (case bindS (exec L ''PRAGMA journal_mode=WAL;'') (\<lambda>_.
                bindS (exec L ''PRAGMA synchronous=FULL;'') (\<lambda>_.
                bindS (exec L ''PRAGMA foreign_keys=ON;'') (\<lambda>_.
                exec L create))) d of
             (Inl e, _) \<Rightarrow> Inl e
           | (Inr _, d') \<Rightarrow> Inr d'))"

section \<open>Transactions\<close>

text \<open>
  What the code relies on when calls may fail at any time. \<open>committed\<close> is what the database
  file holds and every other connection sees. It changes only by a successful \<open>COMMIT\<close>; a
  statement inside a transaction leaves it alone and keeps the transaction open if it
  delivers a row or is done, while a failing one may end it.
\<close>

text \<open>An operation is safe if it commits nothing when it throws, started anywhere or inside a transaction.\<close>

definition safe_run :: "('db \<Rightarrow> 'c) \<Rightarrow> ('db, 'x) sx \<Rightarrow> bool" where
  "safe_run C m \<longleftrightarrow> (\<forall>d e d'. m d = (Inl e, d') \<longrightarrow> C d' = C d)"

definition safe_within :: "('db \<Rightarrow> bool) \<Rightarrow> ('db \<Rightarrow> 'c) \<Rightarrow> ('db, 'x) sx \<Rightarrow> bool" where
  "safe_within T C m \<longleftrightarrow> (\<forall>d e d'. T d \<longrightarrow> m d = (Inl e, d') \<longrightarrow> C d' = C d)"

locale transactional =
  fixes L :: "'db sqlite3" and committed :: "'db \<Rightarrow> 'c" and in_tx :: "'db \<Rightarrow> bool"
  assumes begin_tx: "sqlite3_exec L ''BEGIN IMMEDIATE;'' d = ((rc, e), d') \<Longrightarrow> committed d' = committed d \<and> (rc = SQLITE_OK \<longrightarrow> in_tx d')"
    and steps_tx: "in_tx d \<Longrightarrow> sqlite3_steps L sql ps d = ((rs, rc), d') \<Longrightarrow>
      committed d' = committed d \<and> (rs \<noteq> [] \<or> rc = SQLITE_DONE \<longrightarrow> in_tx d')"
    and rollback_tx: "sqlite3_exec L ''ROLLBACK;'' d = ((rc, e), d') \<Longrightarrow> committed d' = committed d"
    and commit_tx: "sqlite3_exec L ''COMMIT;'' d = ((rc, e), d') \<Longrightarrow> rc \<noteq> SQLITE_OK \<Longrightarrow> committed d' = committed d"
begin

lemma safe_tx: "safe_run committed m \<Longrightarrow> safe_within in_tx committed m"
  by (simp add: safe_run_def safe_within_def)

lemma safe_begin: "safe_within in_tx committed m \<Longrightarrow> safe_run committed (bindS (exec L ''BEGIN IMMEDIATE;'') (\<lambda>_. m))"
  unfolding safe_run_def safe_within_def bindS_def exec_def
  by (auto split: prod.splits sum.splits if_splits dest!: begin_tx)

lemma safe_commit: "safe_run committed (exec L ''COMMIT;'')"
  unfolding safe_run_def exec_def by (auto split: prod.splits if_splits dest: commit_tx)

lemma safe_rollback: "safe_run committed (rollback_throw L e)"
  unfolding safe_run_def rollback_throw_def bindS_def exec_def throwS_def
  by (auto split: prod.splits sum.splits if_splits dest!: rollback_tx)

lemma tx_safe_prepare: "(\<And>rc. safe_within in_tx committed (f rc)) \<Longrightarrow> safe_within in_tx committed (bindS (prepare L sql) f)"
  unfolding safe_within_def bindS_def prepare_def by auto

lemma tx_safe_step:
  assumes "\<And>rs rc. rs \<noteq> [] \<or> rc = SQLITE_DONE \<Longrightarrow> safe_within in_tx committed (f (rs, rc))" "\<And>rc. rc \<noteq> SQLITE_DONE \<Longrightarrow> safe_run committed (f ([], rc))"
  shows "safe_within in_tx committed (bindS (step L sql ps) f)"
  unfolding safe_within_def
proof (intro allI impI)
  fix d e d'
  assume tx: "in_tx d" and r: "bindS (step L sql ps) f d = (Inl e, d')"
  show "committed d' = committed d"
  proof (cases "sqlite3_prepare_v2 L sql d = SQLITE_OK")
    case False
    then have "f ([], SQLITE_MISUSE) d = (Inl e, d')" using r by (simp add: bindS_def step_def)
    then show ?thesis using assms(2) [of SQLITE_MISUSE] by (simp add: safe_run_def SQLITE_MISUSE_def SQLITE_DONE_def)
  next
    case True
    obtain rs rc d1 where s: "sqlite3_steps L sql ps d = ((rs, rc), d1)" by (metis prod.collapse)
    then have f: "f (rs, rc) d1 = (Inl e, d')" using r True by (simp add: bindS_def step_def)
    note kept = steps_tx [OF tx s]
    show ?thesis
    proof (cases "rs \<noteq> [] \<or> rc = SQLITE_DONE")
      case True
      then show ?thesis using assms(1) [OF True] kept f unfolding safe_within_def by metis
    next
      case False
      then show ?thesis using assms(2) [of rc] kept f unfolding safe_run_def by metis
    qed
  qed
qed

lemma safe_checked: "safe_run committed (checked_commit L msg)"
proof -
  have "safe_run committed (rollback_throw L (RuntimeError msg) :: ('db, unit) sx)" by (rule safe_rollback)
  then show ?thesis using safe_commit by (auto simp: safe_run_def checked_commit_def split: if_splits)
qed

lemma safe_write:
  assumes "safe_run committed k"
  shows "safe_within in_tx committed (write_stmt L sql ps failed k)"
  unfolding write_stmt_def
  by (rule tx_safe_prepare) (auto intro!: tx_safe_step safe_tx [OF safe_rollback] safe_rollback safe_tx [OF assms] assms)

lemmas safe_write_rules = safe_begin safe_write safe_commit safe_checked

end

section \<open>Statements\<close>

text \<open>
  The forms of statement the program uses, their text, and what they mean for a table given
  as a list of rows. A parameter is written as a question mark; an \<open>UPDATE\<close> may also
  assign literals.
\<close>

record schema =
  table :: string
  columns :: "string list"
  uniq :: "string list"

datatype stmt =
    Insert "string list"
  | Update "(string \<times> int option) list" string
  | Select "string list" "string list"
  | Count string
  | Exists string

fun sep_by :: "string \<Rightarrow> string list \<Rightarrow> string" where
  "sep_by s [] = []"
| "sep_by s [x] = x"
| "sep_by s (x # y # xs) = x @ s @ sep_by s (y # xs)"

definition where_text :: "string list \<Rightarrow> string" where
  "where_text wh = (if wh = [] then [] else '' WHERE '' @ sep_by '' OR '' (map (\<lambda>c. c @ ''=?'') wh))"

fun sql_text :: "string \<Rightarrow> stmt \<Rightarrow> string" where
  "sql_text t (Insert cs) = ''INSERT INTO '' @ t @ ''('' @ sep_by '', '' cs @ '') VALUES('' @ sep_by '','' (map (\<lambda>_. ''?'') cs) @ '');''"
| "sql_text t (Update sets k) =
     ''UPDATE '' @ t @ '' SET '' @ sep_by '', '' (map (\<lambda>(c, v). c @ (case v of None \<Rightarrow> ''=?'' | Some n \<Rightarrow> ''='' @ dec_string (nat n))) sets)
       @ where_text [k] @ '';''"
| "sql_text t (Select cs wh) = ''SELECT '' @ sep_by '', '' cs @ '' FROM '' @ t @ where_text wh @ '';''"
| "sql_text t (Count c) = ''SELECT COUNT(*) FROM '' @ t @ where_text [c] @ '';''"
| "sql_text t (Exists c) = ''SELECT 1 FROM '' @ t @ where_text [c] @ '' LIMIT 1;''"

declare sql_text.simps [simp del]

definition field :: "schema \<Rightarrow> sqlval list \<Rightarrow> string \<Rightarrow> sqlval" where
  "field sc r c = (case map_of (zip (columns sc) r) c of None \<Rightarrow> SNull | Some v \<Rightarrow> v)"

text \<open>SQL equality: nothing equals \<open>NULL\<close>.\<close>

definition sql_eq :: "sqlval \<Rightarrow> sqlval \<Rightarrow> bool" where
  "sql_eq a b \<longleftrightarrow> a = b \<and> a \<noteq> SNull"

definition matches :: "schema \<Rightarrow> string list \<Rightarrow> sqlval list \<Rightarrow> sqlval list \<Rightarrow> bool" where
  "matches sc wh ps r \<longleftrightarrow> wh = [] \<or> list_ex (\<lambda>(c, p). sql_eq (field sc r c) p) (zip wh ps)"

definition selected :: "schema \<Rightarrow> string list \<Rightarrow> string list \<Rightarrow> sqlval list \<Rightarrow> sqlval list list \<Rightarrow> sqlval list list" where
  "selected sc cs wh ps rows = map (\<lambda>r. map (field sc r) cs) (filter (matches sc wh ps) rows)"

definition clashes :: "schema \<Rightarrow> sqlval list \<Rightarrow> sqlval list list \<Rightarrow> bool" where
  "clashes sc r rows \<longleftrightarrow> list_ex (\<lambda>q. list_ex (\<lambda>c. sql_eq (field sc q c) (field sc r c)) (uniq sc)) rows"

fun set_values :: "(string \<times> int option) list \<Rightarrow> sqlval list \<Rightarrow> (string \<times> sqlval) list" where
  "set_values [] ps = []"
| "set_values ((c, Some n) # ss) ps = (c, SInt n) # set_values ss ps"
| "set_values ((c, None) # ss) [] = []"
| "set_values ((c, None) # ss) (p # ps) = (c, p) # set_values ss ps"

definition assign :: "schema \<Rightarrow> (string \<times> sqlval) list \<Rightarrow> sqlval list \<Rightarrow> sqlval list" where
  "assign sc vs r = map (\<lambda>(c, v). case map_of vs c of None \<Rightarrow> v | Some w \<Rightarrow> w) (zip (columns sc) r)"

definition updated :: "schema \<Rightarrow> (string \<times> int option) list \<Rightarrow> string \<Rightarrow> sqlval list \<Rightarrow> sqlval list list \<Rightarrow> sqlval list list" where
  "updated sc sets k ps rows =
     map (\<lambda>r. if matches sc [k] [last ps] r then assign sc (set_values sets (butlast ps)) r else r) rows"

lemma mset_short: "mset xs = mset ys \<Longrightarrow> length ys \<le> 1 \<Longrightarrow> xs = ys"
  by (cases ys) (auto dest: mset_eq_length)

lemma filter_one:
  "distinct (map f xs) \<Longrightarrow> x \<in> set xs \<Longrightarrow> P x \<Longrightarrow> (\<And>y. y \<in> set xs \<Longrightarrow> P y \<Longrightarrow> f y = f x) \<Longrightarrow> filter P xs = [x]"
proof (induction xs)
  case (Cons a xs)
  show ?case
  proof (cases "a = x")
    case True
    have "\<not> P y" if y: "y \<in> set xs" for y
    proof
      assume "P y"
      then have "f y = f a" using Cons.prems(4) [of y] y True by simp
      then show False using Cons.prems(1) y by (metis distinct.simps(2) image_eqI list.set_map list.simps(9))
    qed
    then show ?thesis using True Cons.prems(3) by (simp add: filter_empty_conv)
  next
    case False
    then have x: "x \<in> set xs" using Cons.prems(2) by simp
    have "\<not> P a"
    proof
      assume "P a"
      then have "f a = f x" using Cons.prems(4) [of a] by simp
      then show False using Cons.prems(1) x by (metis distinct.simps(2) image_eqI list.set_map list.simps(9))
    qed
    moreover have "filter P xs = [x]" by (rule Cons.IH [OF _ x Cons.prems(3)]) (use Cons.prems(1) in simp, use Cons.prems(4) in simp)
    ultimately show ?thesis by simp
  qed
qed simp

lemma selected_rows:
  assumes "mset R = mset (map row xs)"
  shows "mset (selected sc cs wh ps R) = mset (map (\<lambda>x. map (field sc (row x)) cs) (filter (\<lambda>x. matches sc wh ps (row x)) xs))"
proof -
  have "mset (selected sc cs wh ps R) = mset (selected sc cs wh ps (map row xs))"
    unfolding selected_def using assms by (metis mset_filter mset_map)
  then show ?thesis by (simp add: selected_def filter_map comp_def)
qed

lemma updated_rows:
  assumes "mset R = mset (map row xs)"
  shows "mset (updated sc sets k ps R)
     = mset (map (\<lambda>x. if matches sc [k] [last ps] (row x) then assign sc (set_values sets (butlast ps)) (row x) else row x) xs)"
  unfolding updated_def using assms by (simp add: image_mset.compositionality comp_def)

lemma matching_rows:
  assumes "mset R = mset (map row xs)"
  shows "length (filter (matches sc wh ps) R) = length (filter (\<lambda>x. matches sc wh ps (row x)) xs)"
proof -
  have "mset (filter (matches sc wh ps) R) = mset (filter (matches sc wh ps) (map row xs))" using assms by simp
  from mset_eq_length [OF this] show ?thesis by (simp add: filter_map comp_def)
qed

section \<open>An engine that works\<close>

text \<open>
  The documented behaviour for one table when no call fails. \<open>content\<close> is the table as this
  connection sees it, \<open>saved\<close> the table at the start of an open transaction. Rows come in
  any order; an insert that repeats a value of a unique column is refused.
\<close>

locale sql_engine =
  fixes L :: "'db sqlite3" and sc :: schema and S :: "stmt list"
    and content :: "'db \<Rightarrow> sqlval list list" and saved :: "'db \<Rightarrow> sqlval list list option"
  assumes begin_ok: "saved d = None \<Longrightarrow>
      \<exists>d'. sqlite3_exec L ''BEGIN IMMEDIATE;'' d = ((SQLITE_OK, None), d') \<and> content d' = content d \<and> saved d' = Some (content d)"
    and commit_ok: "saved d = Some old \<Longrightarrow>
      \<exists>d'. sqlite3_exec L ''COMMIT;'' d = ((SQLITE_OK, None), d') \<and> content d' = content d \<and> saved d' = None"
    and rollback_ok: "saved d = Some old \<Longrightarrow>
      \<exists>d'. sqlite3_exec L ''ROLLBACK;'' d = ((SQLITE_OK, None), d') \<and> content d' = old \<and> saved d' = None"
    and prepare_ok: "s \<in> set S \<Longrightarrow> sqlite3_prepare_v2 L (sql_text (table sc) s) d = SQLITE_OK"
    and insert_ok: "Insert (columns sc) \<in> set S \<Longrightarrow> saved d \<noteq> None \<Longrightarrow> length ps = length (columns sc) \<Longrightarrow>
      \<not> clashes sc ps (content d) \<Longrightarrow>
      \<exists>d'. sqlite3_steps L (sql_text (table sc) (Insert (columns sc))) ps d = (([], SQLITE_DONE), d')
         \<and> content d' = content d @ [ps] \<and> saved d' = saved d \<and> sqlite3_changes L d' = 1"
    and insert_clash: "Insert (columns sc) \<in> set S \<Longrightarrow> saved d \<noteq> None \<Longrightarrow> length ps = length (columns sc) \<Longrightarrow>
      clashes sc ps (content d) \<Longrightarrow>
      \<exists>d'. sqlite3_steps L (sql_text (table sc) (Insert (columns sc))) ps d = (([], SQLITE_CONSTRAINT), d')
         \<and> content d' = content d \<and> saved d' = saved d"
    and update_ok: "Update sets k \<in> set S \<Longrightarrow> saved d \<noteq> None \<Longrightarrow> set (uniq sc) \<inter> fst ` set sets = {} \<Longrightarrow>
      length ps = Suc (length (filter (\<lambda>(_, v). v = None) sets)) \<Longrightarrow>
      \<exists>d'. sqlite3_steps L (sql_text (table sc) (Update sets k)) ps d = (([], SQLITE_DONE), d')
         \<and> content d' = updated sc sets k ps (content d) \<and> saved d' = saved d
         \<and> sqlite3_changes L d' = int (length (filter (matches sc [k] [last ps]) (content d)))"
    and select_ok: "Select cs wh \<in> set S \<Longrightarrow> length ps = length wh \<Longrightarrow>
      \<exists>rs d'. sqlite3_steps L (sql_text (table sc) (Select cs wh)) ps d = ((rs, SQLITE_DONE), d')
         \<and> mset rs = mset (selected sc cs wh ps (content d)) \<and> content d' = content d \<and> saved d' = saved d"
    and count_ok: "Count c \<in> set S \<Longrightarrow> length ps = 1 \<Longrightarrow>
      \<exists>d'. sqlite3_steps L (sql_text (table sc) (Count c)) ps d
         = (([[SInt (int (length (filter (matches sc [c] ps) (content d))))]], SQLITE_DONE), d')"
    and exists_ok: "Exists c \<in> set S \<Longrightarrow> length ps = 1 \<Longrightarrow>
      \<exists>rs d'. sqlite3_steps L (sql_text (table sc) (Exists c)) ps d = ((rs, SQLITE_DONE), d')
         \<and> (rs \<noteq> [] \<longleftrightarrow> list_ex (matches sc [c] ps) (content d))"
    and text_ok: "sqlite3_column_text L (SText t) = Some t" and text_null: "sqlite3_column_text L SNull = None"
    and int_ok: "- (2 ^ 31) \<le> n \<Longrightarrow> n < 2 ^ 31 \<Longrightarrow> sqlite3_column_int L (SInt n) = n"
    and int64_ok: "- (2 ^ 63) \<le> n \<Longrightarrow> n < 2 ^ 63 \<Longrightarrow> sqlite3_column_int64 L (SInt n) = n"
    and blob_ok: "b \<noteq> [] \<Longrightarrow> sqlite3_column_blob L (SBlob b) = Some b" and blob_null: "sqlite3_column_blob L SNull = None"
begin

lemma begin_run: "saved d = None \<Longrightarrow> \<exists>d'. exec L ''BEGIN IMMEDIATE;'' d = (Inr (), d') \<and> content d' = content d \<and> saved d' = Some (content d)"
  using begin_ok [of d] by (auto simp: exec_def)

lemma commit_run: "saved d = Some old \<Longrightarrow> \<exists>d'. exec L ''COMMIT;'' d = (Inr (), d') \<and> content d' = content d \<and> saved d' = None"
  using commit_ok [of d] by (auto simp: exec_def)

lemma rollback_run: "saved d = Some old \<Longrightarrow> \<exists>d'. rollback_throw L e d = (Inl e, d') \<and> content d' = old \<and> saved d' = None"
  using rollback_ok [of d] by (auto simp: exec_def rollback_throw_def bindS_def throwS_def)

lemma insert_run:
  assumes "Insert (columns sc) \<in> set S" "saved d = Some old" "length ps = length (columns sc)"
  shows "if clashes sc ps (content d)
     then \<exists>d'. write_stmt L (sql_text (table sc) (Insert (columns sc))) ps failed k d = (Inl (failed SQLITE_CONSTRAINT), d')
        \<and> content d' = old \<and> saved d' = None
     else \<exists>d'. write_stmt L (sql_text (table sc) (Insert (columns sc))) ps failed k d = k d'
        \<and> content d' = content d @ [ps] \<and> saved d' = Some old \<and> sqlite3_changes L d' = 1"
proof (cases "clashes sc ps (content d)")
  case True
  then obtain d1 where d1: "sqlite3_steps L (sql_text (table sc) (Insert (columns sc))) ps d = (([], SQLITE_CONSTRAINT), d1)"
    "content d1 = content d" "saved d1 = Some old" using insert_clash [of d ps] assms by auto
  with rollback_run [of d1 old "failed SQLITE_CONSTRAINT"] True show ?thesis
    by (auto simp: write_stmt_def bindS_def prepare_def step_def prepare_ok [OF assms(1)] SQLITE_CONSTRAINT_def SQLITE_DONE_def)
next
  case False
  then show ?thesis using insert_ok [of d ps] assms
    by (auto simp: write_stmt_def bindS_def prepare_def step_def prepare_ok [OF assms(1)])
qed

lemma update_run:
  assumes "Update sets c \<in> set S" "saved d = Some old" "set (uniq sc) \<inter> fst ` set sets = {}"
    "length ps = Suc (length (filter (\<lambda>(_, v). v = None) sets))"
  shows "\<exists>d'. write_stmt L (sql_text (table sc) (Update sets c)) ps failed k d = k d'
     \<and> content d' = updated sc sets c ps (content d) \<and> saved d' = Some old
     \<and> sqlite3_changes L d' = int (length (filter (matches sc [c] [last ps]) (content d)))"
  using update_ok [OF assms(1) _ assms(3,4), of d] assms(2)
  by (auto simp: write_stmt_def bindS_def prepare_def step_def prepare_ok [OF assms(1)])

lemma step_run: "s \<in> set S \<Longrightarrow> step L (sql_text (table sc) s) ps d = (case sqlite3_steps L (sql_text (table sc) s) ps d of (res, d') \<Rightarrow> (Inr res, d'))"
  by (simp add: step_def prepare_ok)

lemma select_rows: "Select cs wh \<in> set S \<Longrightarrow> length ps = length wh \<Longrightarrow> mset (rows_of L (sql_text (table sc) (Select cs wh)) ps d) = mset (selected sc cs wh ps (content d))"
  using select_ok [of cs wh ps d] by (auto simp: rows_of_def step_run)

lemma key_rows:
  assumes "Select cs [c] \<in> set S" "mset (content d) = mset (map row xs)"
    "filter (\<lambda>x. matches sc [c] [v] (row x)) xs = ys" "length ys \<le> 1"
  shows "rows_of L (sql_text (table sc) (Select cs [c])) [v] d = map (\<lambda>x. map (field sc (row x)) cs) ys"
  by (rule mset_short) (use assms(3,4) select_rows [OF assms(1), of "[v]" d] selected_rows [OF assms(2)] in simp_all)

lemma key_step:
  assumes "Select cs [c] \<in> set S" "mset (content d) = mset (map row xs)"
    "filter (\<lambda>x. matches sc [c] [v] (row x)) xs = ys" "length ys \<le> 1"
  shows "\<exists>d'. step L (sql_text (table sc) (Select cs [c])) [v] d = (Inr (map (\<lambda>x. map (field sc (row x)) cs) ys, SQLITE_DONE), d')
     \<and> content d' = content d \<and> saved d' = saved d"
proof -
  obtain rs d' where d': "sqlite3_steps L (sql_text (table sc) (Select cs [c])) [v] d = ((rs, SQLITE_DONE), d')"
    "content d' = content d" "saved d' = saved d" using select_ok [OF assms(1), of "[v]" d] by auto
  moreover have "rs = rows_of L (sql_text (table sc) (Select cs [c])) [v] d" using d' by (simp add: rows_of_def step_run [OF assms(1)])
  ultimately show ?thesis by (simp add: step_run [OF assms(1)] key_rows [OF assms])
qed

end

section \<open>A reference engine\<close>

text \<open>One table, kept as a list of rows, that knows a fixed list of statements.\<close>

record refdb =
  rcontent :: "sqlval list list"
  rsaved :: "sqlval list list option"
  rchanges :: int

definition ref_exec :: "string \<Rightarrow> refdb \<Rightarrow> (int \<times> string option) \<times> refdb" where
  "ref_exec sql d =
     (if sql = ''BEGIN IMMEDIATE;'' then
        (case rsaved d of None \<Rightarrow> ((SQLITE_OK, None), d\<lparr>rsaved := Some (rcontent d)\<rparr>) | Some _ \<Rightarrow> ((1, Some ''nested''), d))
      else if sql = ''COMMIT;'' then
        (case rsaved d of Some _ \<Rightarrow> ((SQLITE_OK, None), d\<lparr>rsaved := None\<rparr>) | None \<Rightarrow> ((1, Some ''no transaction''), d))
      else if sql = ''ROLLBACK;'' then
        (case rsaved d of Some old \<Rightarrow> ((SQLITE_OK, None), d\<lparr>rcontent := old, rsaved := None\<rparr>) | None \<Rightarrow> ((1, Some ''no transaction''), d))
      else ((SQLITE_OK, None), d))"

fun ref_run :: "schema \<Rightarrow> stmt \<Rightarrow> sqlval list \<Rightarrow> refdb \<Rightarrow> (sqlval list list \<times> int) \<times> refdb" where
  "ref_run sc (Insert cs) ps d =
     (if clashes sc ps (rcontent d) then (([], SQLITE_CONSTRAINT), d)
      else (([], SQLITE_DONE), d\<lparr>rcontent := rcontent d @ [ps], rchanges := 1\<rparr>))"
| "ref_run sc (Update sets k) ps d =
     (([], SQLITE_DONE), d\<lparr>rcontent := updated sc sets k ps (rcontent d),
        rchanges := int (length (filter (matches sc [k] [last ps]) (rcontent d)))\<rparr>)"
| "ref_run sc (Select cs wh) ps d = ((selected sc cs wh ps (rcontent d), SQLITE_DONE), d)"
| "ref_run sc (Count c) ps d = (([[SInt (int (length (filter (matches sc [c] ps) (rcontent d))))]], SQLITE_DONE), d)"
| "ref_run sc (Exists c) ps d = ((if list_ex (matches sc [c] ps) (rcontent d) then [[SInt 1]] else [], SQLITE_DONE), d)"

definition ref_sqlite :: "schema \<Rightarrow> stmt list \<Rightarrow> refdb sqlite3" where
  "ref_sqlite sc S =
     \<lparr>sqlite3_exec = ref_exec,
      sqlite3_prepare_v2 = (\<lambda>sql d. if List.find (\<lambda>s. sql_text (table sc) s = sql) S = None then 1 else SQLITE_OK),
      sqlite3_steps = (\<lambda>sql ps d. case List.find (\<lambda>s. sql_text (table sc) s = sql) S of
                                   None \<Rightarrow> (([], SQLITE_MISUSE), d) | Some s \<Rightarrow> ref_run sc s ps d),
      sqlite3_changes = rchanges,
      sqlite3_column_text = (\<lambda>v. case v of SText s \<Rightarrow> Some s | _ \<Rightarrow> None),
      sqlite3_column_int = (\<lambda>v. case v of SInt n \<Rightarrow> n | _ \<Rightarrow> 0),
      sqlite3_column_int64 = (\<lambda>v. case v of SInt n \<Rightarrow> n | _ \<Rightarrow> 0),
      sqlite3_column_blob = (\<lambda>v. case v of SBlob b \<Rightarrow> if b = [] then None else Some b | _ \<Rightarrow> None)\<rparr>"

definition empty_db :: refdb where
  "empty_db = \<lparr>rcontent = [], rsaved = None, rchanges = 0\<rparr>"

lemma find_distinct: "distinct (map f xs) \<Longrightarrow> x \<in> set xs \<Longrightarrow> List.find (\<lambda>y. f y = f x) xs = Some x"
  by (induction xs) auto

lemma ref_engine:
  assumes "distinct (map (sql_text (table sc)) S)"
  shows "sql_engine (ref_sqlite sc S) sc S rcontent rsaved"
proof -
  have f: "List.find (\<lambda>y. sql_text (table sc) y = sql_text (table sc) s) S = Some s" if "s \<in> set S" for s
    by (rule find_distinct [OF assms that])
  show ?thesis
    by unfold_locales (auto simp: ref_sqlite_def ref_exec_def f)
qed

lemma ref_transactional:
  "transactional (ref_sqlite sc S) (\<lambda>d. case rsaved d of None \<Rightarrow> rcontent d | Some old \<Rightarrow> old) (\<lambda>d. rsaved d \<noteq> None)"
proof unfold_locales
  fix sql ps rs rc d d'
  assume tx: "rsaved d \<noteq> None" and st: "sqlite3_steps (ref_sqlite sc S) sql ps d = ((rs, rc), d')"
  have "rsaved (snd (ref_run sc s ps d)) = rsaved d" for s by (cases s) auto
  then have "rsaved d' = rsaved d" using st by (auto simp: ref_sqlite_def split: option.splits) (metis snd_conv)
  then show "(case rsaved d' of None \<Rightarrow> rcontent d' | Some old \<Rightarrow> old) = (case rsaved d of None \<Rightarrow> rcontent d | Some old \<Rightarrow> old)
      \<and> (rs \<noteq> [] \<or> rc = SQLITE_DONE \<longrightarrow> rsaved d' \<noteq> None)" using tx by auto
qed (auto simp: ref_sqlite_def ref_exec_def SQLITE_OK_def split: option.splits)

end
