(* ===== verification/UserRepo.thy ===== *)
theory UserRepo
  imports Domain "HOL-Library.AList"
begin

text \<open>
  The user repository port (\<^verbatim>\<open>include/ports/user_repository.hpp\<close>) as a table of
  operations, the laws its clients rely on as the locale \<open>user_repository\<close>, and the
  in-memory implementation (\<^verbatim>\<open>src/infrastructure/memory_user_repo.cpp\<close>) with its
  invariant and the interpretation of the locale on it. A \<open>std::unordered_map\<close> is an
  association list: \<open>emplace\<close> keeps a present key, \<open>[]=\<close> overwrites it, and iteration
  (whose order the standard leaves open) follows the list.
\<close>

section \<open>The port\<close>

record 'r IUserRepository =
  findByUsername :: "string \<Rightarrow> 'r \<Rightarrow> exn + User Result"
  findByEmail :: "string \<Rightarrow> 'r \<Rightarrow> exn + User Result"
  findById :: "UserId \<Rightarrow> 'r \<Rightarrow> exn + User Result"
  saveUser :: "User \<Rightarrow> string \<Rightarrow> ('r, unit) sx"
  updateUser :: "User \<Rightarrow> ('r, unit) sx"
  updateHash :: "UserId \<Rightarrow> string \<Rightarrow> ('r, unit) sx"
  recordLoginFailure :: "UserId \<Rightarrow> int \<Rightarrow> ('r, unit) sx"
  recordLoginFailureTo :: "UserId \<Rightarrow> int \<Rightarrow> int \<Rightarrow> ('r, unit) sx"
  resetLoginFailures :: "UserId \<Rightarrow> ('r, unit) sx"
  getEncodedHash :: "UserId \<Rightarrow> 'r \<Rightarrow> exn + string"
  listAll :: "'r \<Rightarrow> exn + User list"

definition emplace :: "'k \<Rightarrow> 'v \<Rightarrow> ('k \<times> 'v) list \<Rightarrow> ('k \<times> 'v) list" where
  "emplace k v m = (if map_of m k = None then m @ [(k, v)] else m)"

section \<open>The in-memory repository\<close>

record MemoryUserRepository =
  usersById :: "(string \<times> User) list"
  usernameToId :: "(string \<times> string) list"
  emailToId :: "(string \<times> string) list"
  hashById :: "(string \<times> string) list"

definition emptyMemoryUserRepository :: MemoryUserRepository where
  "emptyMemoryUserRepository = \<lparr>usersById = [], usernameToId = [], emailToId = [], hashById = []\<rparr>"

definition MemUser_findByUsername :: "string \<Rightarrow> MemoryUserRepository \<Rightarrow> exn + User Result" where
  "MemUser_findByUsername n r = Inr
     (case map_of (usernameToId r) n of
        None \<Rightarrow> failure ''not found''
      | Some i \<Rightarrow> (case map_of (usersById r) i of
                    None \<Rightarrow> failure ''not found''
                  | Some u \<Rightarrow> success u))"

definition MemUser_findByEmail :: "string \<Rightarrow> MemoryUserRepository \<Rightarrow> exn + User Result" where
  "MemUser_findByEmail e r = Inr
     (case map_of (emailToId r) e of
        None \<Rightarrow> failure ''not found''
      | Some i \<Rightarrow> (case map_of (usersById r) i of
                    None \<Rightarrow> failure ''not found''
                  | Some u \<Rightarrow> success u))"

definition MemUser_findById :: "UserId \<Rightarrow> MemoryUserRepository \<Rightarrow> exn + User Result" where
  "MemUser_findById i r = Inr
     (case map_of (usersById r) (uid i) of None \<Rightarrow> failure ''not found'' | Some u \<Rightarrow> success u)"

definition MemUser_save :: "User \<Rightarrow> string \<Rightarrow> (MemoryUserRepository, unit) sx" where
  "MemUser_save u encodedHash r =
     (if map_of (usernameToId r) (username u) \<noteq> None
      then (Inl (ValidationException ''username exists''), r)
      else if map_of (emailToId r) (email u) \<noteq> None
      then (Inl (ValidationException ''email exists''), r)
      else if map_of (usersById r) (uid (user_id u)) \<noteq> None
      then (Inl (ValidationException ''id exists''), r)
      else (Inr (), r\<lparr>usersById := emplace (uid (user_id u)) u (usersById r),
                      usernameToId := emplace (username u) (uid (user_id u)) (usernameToId r),
                      emailToId := emplace (email u) (uid (user_id u)) (emailToId r),
                      hashById := emplace (uid (user_id u)) encodedHash (hashById r)\<rparr>))"

text \<open>The three methods that look a user up by id and overwrite it in place.\<close>

definition MemUser_modify :: "UserId \<Rightarrow> (User \<Rightarrow> User) \<Rightarrow> (MemoryUserRepository, unit) sx" where
  "MemUser_modify i f r =
     (case map_of (usersById r) (uid i) of
        None \<Rightarrow> (Inl (NotFoundException ''not found''), r)
      | Some u \<Rightarrow> (Inr (), r\<lparr>usersById := AList.update (uid i) (f u) (usersById r)\<rparr>))"

definition MemUser_update :: "User \<Rightarrow> (MemoryUserRepository, unit) sx" where
  "MemUser_update u r =
     (case map_of (usersById r) (uid (user_id u)) of
        None \<Rightarrow> (Inl (NotFoundException ''not found''), r)
      | Some u0 \<Rightarrow>
          if username u0 \<noteq> username u \<or> email u0 \<noteq> email u
          then (Inl (ValidationException ''username/email immutable''), r)
          else (Inr (), r\<lparr>usersById := AList.update (uid (user_id u)) u (usersById r)\<rparr>))"

definition MemUser_updateHash :: "UserId \<Rightarrow> string \<Rightarrow> (MemoryUserRepository, unit) sx" where
  "MemUser_updateHash i h r =
     (if map_of (usersById r) (uid i) = None then (Inl (NotFoundException ''not found''), r)
      else (Inr (), r\<lparr>hashById := AList.update (uid i) h (hashById r)\<rparr>))"

text \<open>The counter and lockout after one more failed login, as both repositories compute it.\<close>

definition login_failed :: "User \<Rightarrow> int \<Rightarrow> User" where
  "login_failed u now =
     (let fails = failedAttempts u + 1;
          lockout = (if fails \<ge> 5 then now + 15 * 60 * 1000 else lockoutUntil u)
      in setLockout u lockout fails)"

definition MemUser_recordLoginFailure :: "UserId \<Rightarrow> int \<Rightarrow> (MemoryUserRepository, unit) sx" where
  "MemUser_recordLoginFailure i now = MemUser_modify i (\<lambda>u. login_failed u now)"

definition MemUser_recordLoginFailureTo :: "UserId \<Rightarrow> int \<Rightarrow> int \<Rightarrow> (MemoryUserRepository, unit) sx" where
  "MemUser_recordLoginFailureTo i f until = MemUser_modify i (\<lambda>u. setLockout u until f)"

definition MemUser_resetLoginFailures :: "UserId \<Rightarrow> (MemoryUserRepository, unit) sx" where
  "MemUser_resetLoginFailures i = MemUser_modify i (\<lambda>u. setLockout u 0 0)"

definition MemUser_getEncodedHash :: "UserId \<Rightarrow> MemoryUserRepository \<Rightarrow> exn + string" where
  "MemUser_getEncodedHash i r =
     (case map_of (hashById r) (uid i) of
        None \<Rightarrow> Inl (NotFoundException ''hash not found'')
      | Some h \<Rightarrow> Inr h)"

definition MemUser_listAll :: "MemoryUserRepository \<Rightarrow> exn + User list" where
  "MemUser_listAll r = Inr (map snd (usersById r))"

definition memory_users :: "MemoryUserRepository IUserRepository" where
  "memory_users =
     \<lparr>findByUsername = MemUser_findByUsername, findByEmail = MemUser_findByEmail,
      findById = MemUser_findById, saveUser = MemUser_save, updateUser = MemUser_update,
      updateHash = MemUser_updateHash, recordLoginFailure = MemUser_recordLoginFailure,
      recordLoginFailureTo = MemUser_recordLoginFailureTo,
      resetLoginFailures = MemUser_resetLoginFailures,
      getEncodedHash = MemUser_getEncodedHash, listAll = MemUser_listAll\<rparr>"

section \<open>What the port promises\<close>

text \<open>
  The abstract content of a repository: the users by identifier and their password
  hashes. Identifiers, user names and e-mail addresses are unique.
\<close>

definition wf_users :: "(string \<Rightarrow> User option) \<Rightarrow> (string \<Rightarrow> string option) \<Rightarrow> bool" where
  "wf_users us hs \<longleftrightarrow>
     (\<forall>i u. us i = Some u \<longrightarrow> uid (user_id u) = i)
     \<and> (\<forall>i j u v. us i = Some u \<and> us j = Some v \<and> (username u = username v \<or> email u = email v) \<longrightarrow> i = j)
     \<and> dom hs = dom us \<and> finite (dom us)"

definition fresh_user :: "User \<Rightarrow> (string \<Rightarrow> User option) \<Rightarrow> bool" where
  "fresh_user u us \<longleftrightarrow> us (uid (user_id u)) = None
     \<and> (\<forall>v\<in>ran us. username v \<noteq> username u \<and> email v \<noteq> email u)"

definition lookup :: "'v option \<Rightarrow> 'v Result" where
  "lookup x = (case x of None \<Rightarrow> failure ''not found'' | Some v \<Rightarrow> success v)"

lemma lookup_simps [simp]: "lookup None = failure ''not found''" "lookup (Some v) = success v"
  "got (lookup x) = x" "ok (lookup x) \<longleftrightarrow> x \<noteq> None"
  by (simp_all add: lookup_def split: option.split)

locale user_repository =
  fixes R :: "'r IUserRepository"
    and inv :: "'r \<Rightarrow> bool"
    and users :: "'r \<Rightarrow> string \<Rightarrow> User option"
    and hashes :: "'r \<Rightarrow> string \<Rightarrow> string option"
  assumes wf: "inv r \<Longrightarrow> wf_users (users r) (hashes r)"
    and findById: "inv r \<Longrightarrow> findById R i r = Inr (lookup (users r (uid i)))"
    and findByUsername_hit: "inv r \<Longrightarrow> users r k = Some u \<Longrightarrow> findByUsername R (username u) r = Inr (success u)"
    and findByUsername_miss:
      "inv r \<Longrightarrow> n \<notin> username ` ran (users r) \<Longrightarrow> findByUsername R n r = Inr (failure ''not found'')"
    and findByEmail_hit: "inv r \<Longrightarrow> users r k = Some u \<Longrightarrow> findByEmail R (email u) r = Inr (success u)"
    and findByEmail_miss:
      "inv r \<Longrightarrow> e \<notin> email ` ran (users r) \<Longrightarrow> findByEmail R e r = Inr (failure ''not found'')"
    and saveUser: "inv r \<Longrightarrow> fresh_user u (users r) \<Longrightarrow>
      \<exists>r'. saveUser R u h r = (Inr (), r') \<and> inv r'
         \<and> users r' = (users r)(uid (user_id u) \<mapsto> u) \<and> hashes r' = (hashes r)(uid (user_id u) \<mapsto> h)"
    and saveUser_dup: "inv r \<Longrightarrow> \<not> fresh_user u (users r) \<Longrightarrow>
      \<exists>m. saveUser R u h r = (Inl (ValidationException m), r)"
    and updateUser: "inv r \<Longrightarrow> users r (uid (user_id u)) = Some v \<Longrightarrow> username v = username u \<Longrightarrow>
      email v = email u \<Longrightarrow> \<exists>r'. updateUser R u r = (Inr (), r') \<and> inv r'
         \<and> users r' = (users r)(uid (user_id u) \<mapsto> u) \<and> hashes r' = hashes r"
    and recordLoginFailure: "inv r \<Longrightarrow> users r (uid i) = Some u \<Longrightarrow>
      \<exists>r'. recordLoginFailure R i now r = (Inr (), r') \<and> inv r'
         \<and> users r' = (users r)(uid i \<mapsto> login_failed u now) \<and> hashes r' = hashes r"
    and resetLoginFailures: "inv r \<Longrightarrow> users r (uid i) = Some u \<Longrightarrow>
      \<exists>r'. resetLoginFailures R i r = (Inr (), r') \<and> inv r'
         \<and> users r' = (users r)(uid i \<mapsto> setLockout u 0 0) \<and> hashes r' = hashes r"
    and getEncodedHash: "inv r \<Longrightarrow> hashes r (uid i) = Some h \<Longrightarrow> getEncodedHash R i r = Inr h"
    and listAll: "inv r \<Longrightarrow> \<exists>l. listAll R r = Inr l \<and> distinct (map user_id l) \<and> set l = ran (users r)"
begin

lemma keyed: "inv r \<Longrightarrow> users r i = Some u \<Longrightarrow> uid (user_id u) = i"
  using wf [of r] by (auto simp: wf_users_def)

lemma name_unique: "inv r \<Longrightarrow> users r i = Some u \<Longrightarrow> users r j = Some v \<Longrightarrow> username u = username v \<Longrightarrow> i = j"
  using wf [of r] unfolding wf_users_def by blast

lemma has_hash: "inv r \<Longrightarrow> users r i = Some u \<Longrightarrow> \<exists>h. hashes r i = Some h"
  using wf [of r] unfolding wf_users_def by blast

lemma finite_users: "inv r \<Longrightarrow> finite (dom (users r))"
  using wf [of r] by (simp add: wf_users_def)

lemma findByUsername_found:
  assumes "inv r" "findByUsername R n r = Inr (success u)"
  shows "users r (uid (user_id u)) = Some u \<and> username u = n"
proof (cases "n \<in> username ` ran (users r)")
  case True
  then obtain i v where v: "users r i = Some v" "username v = n" by (auto simp: ran_def)
  with findByUsername_hit [OF assms(1) v(1)] assms keyed [OF assms(1) v(1)] show ?thesis by simp
next
  case False
  with findByUsername_miss [OF assms(1)] assms show ?thesis by simp
qed

lemma findByUsername_cases:
  assumes "inv r"
  obtains (hit) u where "findByUsername R n r = Inr (success u)" "users r (uid (user_id u)) = Some u" "username u = n"
  | (miss) "findByUsername R n r = Inr (failure ''not found'')" "n \<notin> username ` ran (users r)"
proof (cases "n \<in> username ` ran (users r)")
  case True
  then obtain i v where "users r i = Some v" "username v = n" by (auto simp: ran_def)
  then show thesis using findByUsername_hit [OF assms] keyed [OF assms] hit by metis
next
  case False
  then show thesis using findByUsername_miss [OF assms] miss by simp
qed

lemma findByEmail_cases:
  assumes "inv r"
  obtains (hit) u where "findByEmail R e r = Inr (success u)" "u \<in> ran (users r)" "email u = e"
  | (miss) "findByEmail R e r = Inr (failure ''not found'')" "e \<notin> email ` ran (users r)"
proof (cases "e \<in> email ` ran (users r)")
  case True
  then obtain i v where "users r i = Some v" "email v = e" by (auto simp: ran_def)
  then show thesis using findByEmail_hit [OF assms] hit by (metis ranI)
next
  case False
  then show thesis using findByEmail_miss [OF assms] miss by simp
qed

end

section \<open>The in-memory repository keeps the promise\<close>

definition mem_inv :: "MemoryUserRepository \<Rightarrow> bool" where
  "mem_inv r \<longleftrightarrow>
     distinct (map fst (usersById r))
     \<and> (\<forall>i u. map_of (usersById r) i = Some u \<longrightarrow> uid (user_id u) = i)
     \<and> (\<forall>n i. map_of (usernameToId r) n = Some i
            \<longleftrightarrow> (\<exists>u. map_of (usersById r) i = Some u \<and> username u = n))
     \<and> (\<forall>e i. map_of (emailToId r) e = Some i
            \<longleftrightarrow> (\<exists>u. map_of (usersById r) i = Some u \<and> email u = e))
     \<and> dom (map_of (hashById r)) = dom (map_of (usersById r))"

definition mem_users :: "MemoryUserRepository \<Rightarrow> string \<Rightarrow> User option" where
  "mem_users r = map_of (usersById r)"

definition mem_hashes :: "MemoryUserRepository \<Rightarrow> string \<Rightarrow> string option" where
  "mem_hashes r = map_of (hashById r)"

lemma map_of_emplace: "map_of (emplace k v m) = (if map_of m k = None then (map_of m)(k \<mapsto> v) else map_of m)"
  by (auto simp: emplace_def map_add_def fun_eq_iff split: option.split)

lemma map_of_update [simp]: "map_of (AList.update k v m) = (map_of m)(k \<mapsto> v)"
  by (rule update_conv')

lemma distinct_emplace: "distinct (map fst m) \<Longrightarrow> distinct (map fst (emplace k v m))"
  by (auto simp: emplace_def map_of_eq_None_iff)

lemma mem_inv_empty: "mem_inv emptyMemoryUserRepository"
  by (simp add: mem_inv_def emptyMemoryUserRepository_def)

lemma mem_wf: "mem_inv r \<Longrightarrow> wf_users (mem_users r) (mem_hashes r)"
  unfolding mem_inv_def wf_users_def mem_users_def mem_hashes_def
  by (auto simp: finite_dom_map_of dest: sym) (metis option.inject)+

lemma mem_invD:
  assumes "mem_inv r"
  shows "distinct (map fst (usersById r))"
    and "map_of (usersById r) i = Some u \<Longrightarrow> uid (user_id u) = i"
    and "map_of (usersById r) i = Some u \<Longrightarrow> map_of (usernameToId r) (username u) = Some i"
    and "map_of (usersById r) i = Some u \<Longrightarrow> map_of (emailToId r) (email u) = Some i"
    and "map_of (usernameToId r) n = Some i \<Longrightarrow> \<exists>u. map_of (usersById r) i = Some u \<and> username u = n"
    and "map_of (emailToId r) e = Some i \<Longrightarrow> \<exists>u. map_of (usersById r) i = Some u \<and> email u = e"
    and "dom (map_of (hashById r)) = dom (map_of (usersById r))"
  using assms unfolding mem_inv_def by blast+

lemma mem_inv_overwrite:
  assumes "mem_inv r" "map_of (usersById r) k = Some u"
    and same: "user_id v = user_id u" "username v = username u" "email v = email u"
  shows "mem_inv (r\<lparr>usersById := AList.update k v (usersById r)\<rparr>)"
proof -
  have sel: "(\<exists>w. ((map_of (usersById r))(k \<mapsto> v)) i = Some w \<and> f w = x)
      \<longleftrightarrow> (\<exists>w. map_of (usersById r) i = Some w \<and> f w = x)" if "f v = f u" for f :: "User \<Rightarrow> string" and i x
    using assms(2) that by auto
  show ?thesis using assms sel [of username] sel [of email]
    by (auto simp: mem_inv_def distinct_update dom_def)
qed

lemma mem_inv_insert:
  assumes "mem_inv r" "map_of (usernameToId r) (username u) = None" "map_of (emailToId r) (email u) = None"
    "map_of (usersById r) (uid (user_id u)) = None"
  shows "mem_inv (r\<lparr>usersById := emplace (uid (user_id u)) u (usersById r),
                      usernameToId := emplace (username u) (uid (user_id u)) (usernameToId r),
                      emailToId := emplace (email u) (uid (user_id u)) (emailToId r),
                      hashById := emplace (uid (user_id u)) h (hashById r)\<rparr>)"
proof -
  have "map_of (hashById r) (uid (user_id u)) = None"
    using assms(1,4) unfolding mem_inv_def by (metis domIff)
  moreover have "username v \<noteq> username u" "email v \<noteq> email u" if "map_of (usersById r) i = Some v" for i v
    using mem_invD(3,4) [OF assms(1) that] assms(2,3) by auto
  ultimately show ?thesis
    using assms mem_invD(1) [OF assms(1)]
    unfolding mem_inv_def by (simp add: map_of_emplace distinct_emplace del: map_of_eq_Some_iff)
qed

lemma mem_index_None:
  assumes "mem_inv r"
  shows "map_of (usernameToId r) n = None \<longleftrightarrow> n \<notin> username ` ran (mem_users r)"
    and "map_of (emailToId r) e = None \<longleftrightarrow> e \<notin> email ` ran (mem_users r)"
proof -
  show "map_of (usernameToId r) n = None \<longleftrightarrow> n \<notin> username ` ran (mem_users r)"
  proof (cases "map_of (usernameToId r) n")
    case None
    then show ?thesis using mem_invD(3) [OF assms] by (force simp: ran_def mem_users_def)
  next
    case (Some i)
    then show ?thesis using mem_invD(5) [OF assms Some] by (force simp: ran_def mem_users_def)
  qed
  show "map_of (emailToId r) e = None \<longleftrightarrow> e \<notin> email ` ran (mem_users r)"
  proof (cases "map_of (emailToId r) e")
    case None
    then show ?thesis using mem_invD(4) [OF assms] by (force simp: ran_def mem_users_def)
  next
    case (Some i)
    then show ?thesis using mem_invD(6) [OF assms Some] by (force simp: ran_def mem_users_def)
  qed
qed

lemma fresh_user_mem:
  assumes "mem_inv r"
  shows "fresh_user u (mem_users r) \<longleftrightarrow> map_of (usernameToId r) (username u) = None
     \<and> map_of (emailToId r) (email u) = None \<and> map_of (usersById r) (uid (user_id u)) = None"
  unfolding mem_index_None [OF assms] fresh_user_def by (simp add: mem_users_def image_iff) metis

lemma MemUser_modify_ok:
  assumes "mem_inv r" "mem_users r (uid i) = Some u"
    and same: "user_id (f u) = user_id u" "username (f u) = username u" "email (f u) = email u"
  shows "\<exists>r'. MemUser_modify i f r = (Inr (), r') \<and> mem_inv r'
     \<and> mem_users r' = (mem_users r)(uid i \<mapsto> f u) \<and> mem_hashes r' = mem_hashes r"
  using assms mem_inv_overwrite [OF assms(1), of "uid i" u "f u"]
  by (simp add: MemUser_modify_def mem_users_def mem_hashes_def)

lemma login_failed_same [simp]:
  "user_id (login_failed u now) = user_id u" "username (login_failed u now) = username u"
  "email (login_failed u now) = email u" "role (login_failed u now) = role u"
  "status (login_failed u now) = status u" "failedAttempts (login_failed u now) = failedAttempts u + 1"
  by (simp_all add: login_failed_def Let_def)

lemma mem_byUsername:
  assumes "mem_inv r"
  shows "mem_users r k = Some u \<Longrightarrow> MemUser_findByUsername (username u) r = Inr (success u)"
    and "n \<notin> username ` ran (mem_users r) \<Longrightarrow> MemUser_findByUsername n r = Inr (failure ''not found'')"
  using mem_invD(3,5) [OF assms] unfolding mem_users_def MemUser_findByUsername_def
  by (simp_all add: mem_index_None [OF assms, unfolded mem_users_def, symmetric])

lemma mem_byEmail:
  assumes "mem_inv r"
  shows "mem_users r k = Some u \<Longrightarrow> MemUser_findByEmail (email u) r = Inr (success u)"
    and "e \<notin> email ` ran (mem_users r) \<Longrightarrow> MemUser_findByEmail e r = Inr (failure ''not found'')"
  using mem_invD(4,6) [OF assms] unfolding mem_users_def MemUser_findByEmail_def
  by (simp_all add: mem_index_None [OF assms, unfolded mem_users_def, symmetric])

lemma mem_listAll:
  assumes "mem_inv r"
  shows "distinct (map user_id (map snd (usersById r))) \<and> snd ` set (usersById r) = ran (mem_users r)"
proof
  have d: "distinct (map fst (usersById r))" using assms by (simp add: mem_inv_def)
  have k: "uid (user_id (snd p)) = fst p" if "p \<in> set (usersById r)" for p
    using mem_invD(2) [OF assms map_of_is_SomeI [OF d]] that by (metis prod.collapse)
  have "map (uid \<circ> user_id \<circ> snd) (usersById r) = map fst (usersById r)"
    using k by (intro map_cong) auto
  then have "distinct (map uid (map user_id (map snd (usersById r))))" using d by (simp only: map_map comp_assoc)
  then show "distinct (map user_id (map snd (usersById r)))" by (simp only: distinct_map)
  show "snd ` set (usersById r) = ran (mem_users r)"
    using d by (simp add: mem_users_def ran_distinct)
qed

interpretation mem: user_repository memory_users mem_inv mem_users mem_hashes
proof (unfold_locales, goal_cases)
  case 1 then show ?case by (rule mem_wf)
next
  case 2 then show ?case by (simp add: memory_users_def MemUser_findById_def mem_users_def lookup_def)
next
  case 3 then show ?case by (simp add: memory_users_def mem_byUsername)
next
  case 4 then show ?case by (simp add: memory_users_def mem_byUsername)
next
  case 5 then show ?case by (simp add: memory_users_def mem_byEmail)
next
  case 6 then show ?case by (simp add: memory_users_def mem_byEmail)
next
  case (7 r u h)
  then have new: "map_of (usernameToId r) (username u) = None" "map_of (emailToId r) (email u) = None"
    "map_of (usersById r) (uid (user_id u)) = None"
    by (simp_all add: fresh_user_mem)
  have "mem_hashes r (uid (user_id u)) = None"
    using 7 mem_wf unfolding wf_users_def fresh_user_def by (metis domIff)
  with 7 new show ?case
    by (simp add: memory_users_def MemUser_save_def mem_inv_insert mem_users_def
        mem_hashes_def map_of_emplace)
next
  case 8 then show ?case by (auto simp: memory_users_def MemUser_save_def fresh_user_mem)
next
  case (9 r u v)
  then have "\<not> (username v \<noteq> username u \<or> email v \<noteq> email u)" by simp
  moreover have "user_id u = user_id v"
    using 9 by (auto simp: mem_inv_def mem_users_def intro: UserId.expand)
  ultimately show ?case
    using 9 mem_inv_overwrite [of r "uid (user_id u)" v u]
    by (simp add: memory_users_def MemUser_update_def mem_users_def mem_hashes_def)
next
  case (10 r i u now) then show ?case
    using MemUser_modify_ok [where f = "\<lambda>u. login_failed u now"] by (simp add: memory_users_def MemUser_recordLoginFailure_def)
next
  case 11 then show ?case
    using MemUser_modify_ok [where f = "\<lambda>u. setLockout u 0 0"]
    by (simp add: memory_users_def MemUser_resetLoginFailures_def)
next
  case 12 then show ?case by (simp add: memory_users_def MemUser_getEncodedHash_def mem_hashes_def)
next
  case 13 then show ?case using mem_listAll by (simp add: memory_users_def MemUser_listAll_def comp_def)
qed

lemma mem_inv_modify:
  assumes "mem_inv r" and "\<And>u. user_id (f u) = user_id u \<and> username (f u) = username u \<and> email (f u) = email u"
  shows "mem_inv (snd (MemUser_modify i f r))"
  using assms mem_inv_overwrite [OF assms(1)] by (simp add: MemUser_modify_def split: option.split)

lemma mem_inv_save: "mem_inv r \<Longrightarrow> mem_inv (snd (MemUser_save u h r))"
  by (simp add: MemUser_save_def mem_inv_insert)

lemma mem_inv_update:
  assumes "mem_inv r" shows "mem_inv (snd (MemUser_update u r))"
proof (cases "map_of (usersById r) (uid (user_id u))")
  case (Some v)
  then have "user_id u = user_id v" using mem_invD(2) [OF assms Some] by (simp add: UserId.expand)
  with Some assms mem_inv_overwrite [OF assms Some, of u] show ?thesis by (simp add: MemUser_update_def)
qed (simp add: MemUser_update_def assms)

lemma mem_inv_updateHash: "mem_inv r \<Longrightarrow> mem_inv (snd (MemUser_updateHash i h r))"
  by (auto simp: MemUser_updateHash_def mem_inv_def)

section \<open>Properties\<close>

text \<open>
  The in-memory user repository keeps its four maps consistent (every user under its
  own identifier, reachable by its unique name and unique address, with a password hash)
  through every operation, also one that throws.
\<close>

theorem user_repo_invariant:
  assumes "mem_inv r"
  shows "mem_inv (snd (MemUser_save u h r)) \<and> mem_inv (snd (MemUser_update u r))
     \<and> mem_inv (snd (MemUser_updateHash i h r)) \<and> mem_inv (snd (MemUser_recordLoginFailure i now r))
     \<and> mem_inv (snd (MemUser_recordLoginFailureTo i f until r)) \<and> mem_inv (snd (MemUser_resetLoginFailures i r))"
  using assms
  by (simp add: mem_inv_save mem_inv_update mem_inv_updateHash mem_inv_modify
      MemUser_recordLoginFailure_def MemUser_recordLoginFailureTo_def MemUser_resetLoginFailures_def)

theorem user_repo_invariant_witness:
  "mem_inv (snd (MemUser_recordLoginFailure (UserId ''u'') 0 emptyMemoryUserRepository))"
  using user_repo_invariant [OF mem_inv_empty, of undefined undefined "UserId ''u''" 0 0 0] by blast

text \<open>
  Saving a user either throws and changes nothing, when the identifier, the name or
  the address is taken, or makes exactly that user and hash visible through all three
  lookups, leaving every other user as it was.
\<close>

theorem user_save_lookup:
  assumes "mem_inv r"
  shows "if fresh_user u (mem_users r)
     then \<exists>r'. MemUser_save u h r = (Inr (), r')
        \<and> MemUser_findByUsername (username u) r' = Inr (success u)
        \<and> MemUser_findByEmail (email u) r' = Inr (success u)
        \<and> MemUser_findById (user_id u) r' = Inr (success u)
        \<and> MemUser_getEncodedHash (user_id u) r' = Inr h
        \<and> (\<forall>i. i \<noteq> user_id u \<longrightarrow> MemUser_findById i r' = MemUser_findById i r
                \<and> MemUser_getEncodedHash i r' = MemUser_getEncodedHash i r)
     else \<exists>m. MemUser_save u h r = (Inl (ValidationException m), r)"
proof (cases "fresh_user u (mem_users r)")
  case False
  with mem.saveUser_dup [OF assms] show ?thesis by (simp add: memory_users_def)
next
  case True
  from mem.saveUser [OF assms True, of h] obtain r' where r': "MemUser_save u h r = (Inr (), r')" "mem_inv r'"
    "mem_users r' = (mem_users r)(uid (user_id u) \<mapsto> u)" "mem_hashes r' = (mem_hashes r)(uid (user_id u) \<mapsto> h)"
    by (auto simp: memory_users_def)
  then have "mem_users r' (uid (user_id u)) = Some u" by simp
  then have "MemUser_findByUsername (username u) r' = Inr (success u)" "MemUser_findByEmail (email u) r' = Inr (success u)"
    by (rule mem_byUsername(1) [OF r'(2)], rule mem_byEmail(1) [OF r'(2)])
  with True r' show ?thesis
    by (auto simp: MemUser_findById_def MemUser_getEncodedHash_def mem_users_def mem_hashes_def UserId.expand)
qed

theorem user_save_lookup_witness:
  "\<exists>r'. MemUser_save \<lparr>user_id = UserId ''1'', username = ''bob'', email = ''b@x'', role = ''user'',
       status = ''active'', failedAttempts = 0, lockoutUntil = 0\<rparr> ''h'' emptyMemoryUserRepository = (Inr (), r')
     \<and> MemUser_getEncodedHash (UserId ''1'') r' = Inr ''h''"
  using user_save_lookup [OF mem_inv_empty, of "\<lparr>user_id = UserId ''1'', username = ''bob'', email = ''b@x'',
     role = ''user'', status = ''active'', failedAttempts = 0, lockoutUntil = 0\<rparr>" "''h''"]
  by (auto simp: fresh_user_def mem_users_def emptyMemoryUserRepository_def)

end
