(* ===== verification/SqliteUsers.thy ===== *)
theory SqliteUsers
  imports Sqlite UserRepo
begin

text \<open>
  The persistent user repository (\<^verbatim>\<open>src/infrastructure/sqlite_user_repo.cpp\<close>). Each
  operation is the source's sequence of SQL calls. Whatever the database does, an
  operation that throws has committed nothing; over an engine that works, the repository
  behaves like the in-memory one, up to what \<open>UPDATE\<close> does for an unknown identifier.
\<close>

section \<open>The statements\<close>

definition users_table_sql :: string where
  "users_table_sql = ''CREATE TABLE IF NOT EXISTS users(id TEXT PRIMARY KEY, username TEXT UNIQUE NOT NULL, email TEXT UNIQUE NOT NULL, pass_hash TEXT NOT NULL, role TEXT NOT NULL, status TEXT NOT NULL, failed_attempts INT NOT NULL, lockout_until INTEGER NOT NULL);''"

definition users_by_sql :: "string \<Rightarrow> string" where
  "users_by_sql col = ''SELECT id, username, email, role, status, failed_attempts, lockout_until FROM users WHERE '' @ col @ ''=?;''"

definition users_insert_sql :: string where
  "users_insert_sql = ''INSERT INTO users(id, username, email, pass_hash, role, status, failed_attempts, lockout_until) VALUES(?,?,?,?,?,?,?,?);''"

definition users_update_sql :: string where
  "users_update_sql = ''UPDATE users SET role=?, status=?, failed_attempts=?, lockout_until=? WHERE id=?;''"

definition users_hash_sql :: string where
  "users_hash_sql = ''UPDATE users SET pass_hash=? WHERE id=?;''"

definition users_fails_sql :: string where
  "users_fails_sql = ''SELECT failed_attempts, lockout_until FROM users WHERE id=?;''"

definition users_lock_sql :: string where
  "users_lock_sql = ''UPDATE users SET failed_attempts=?, lockout_until=? WHERE id=?;''"

definition users_reset_sql :: string where
  "users_reset_sql = ''UPDATE users SET failed_attempts=0, lockout_until=0 WHERE id=?;''"

definition users_gethash_sql :: string where
  "users_gethash_sql = ''SELECT pass_hash FROM users WHERE id=?;''"

definition users_all_sql :: string where
  "users_all_sql = ''SELECT id, username, email, role, status, failed_attempts, lockout_until FROM users;''"

section \<open>Operations\<close>

definition SqliteUser_open :: "'db sqlite3 \<Rightarrow> 'db option \<Rightarrow> exn + 'db" where
  "SqliteUser_open L = open_db L users_table_sql"

definition row_user :: "'db sqlite3 \<Rightarrow> sqlval list \<Rightarrow> exn + User" where
  "row_user L r =
     bindE (column_string L r 0) (\<lambda>i.
     bindE (column_string L r 1) (\<lambda>name.
     bindE (column_string L r 2) (\<lambda>mail.
     bindE (column_string L r 3) (\<lambda>rl.
     bindE (column_string L r 4) (\<lambda>st.
     mkUser (UserId i) name mail rl st (sqlite3_column_int L (column r 5)) (sqlite3_column_int64 L (column r 6)))))))"

definition findByColumn :: "'db sqlite3 \<Rightarrow> string \<Rightarrow> string \<Rightarrow> 'db \<Rightarrow> exn + User Result" where
  "findByColumn L col val d =
     (if sqlite3_prepare_v2 L (users_by_sql col) d \<noteq> SQLITE_OK then Inr (failure ''prepare failed'')
      else case rows_of L (users_by_sql col) [bind_text val] d of
             [] \<Rightarrow> Inr (failure ''not found'')
           | r # _ \<Rightarrow> bindE (row_user L r) (\<lambda>u. Inr (success u)))"

definition SqliteUser_findByUsername :: "'db sqlite3 \<Rightarrow> string \<Rightarrow> 'db \<Rightarrow> exn + User Result" where
  "SqliteUser_findByUsername L n = findByColumn L ''username'' n"

definition SqliteUser_findByEmail :: "'db sqlite3 \<Rightarrow> string \<Rightarrow> 'db \<Rightarrow> exn + User Result" where
  "SqliteUser_findByEmail L e = findByColumn L ''email'' e"

definition SqliteUser_findById :: "'db sqlite3 \<Rightarrow> UserId \<Rightarrow> 'db \<Rightarrow> exn + User Result" where
  "SqliteUser_findById L i = findByColumn L ''id'' (uid i)"

definition SqliteUser_save :: "'db sqlite3 \<Rightarrow> User \<Rightarrow> string \<Rightarrow> ('db, unit) sx" where
  "SqliteUser_save L u encodedHash =
     bindS (exec L ''BEGIN IMMEDIATE;'') (\<lambda>_.
     write_stmt L users_insert_sql
       [bind_text (uid (user_id u)), bind_text (username u), bind_text (email u), bind_text encodedHash,
        bind_text (role u), bind_text (status u), SInt (failedAttempts u), SInt (lockoutUntil u)]
       (\<lambda>rc. if rc = SQLITE_CONSTRAINT then ValidationException ''username or email exists'' else RuntimeError ''insert failed'')
       (exec L ''COMMIT;''))"

definition SqliteUser_update :: "'db sqlite3 \<Rightarrow> User \<Rightarrow> ('db, unit) sx" where
  "SqliteUser_update L u =
     bindS (getS (SqliteUser_findById L (user_id u))) (\<lambda>existing.
     case got existing of
       None \<Rightarrow> throwS (NotFoundException ''not found'')
     | Some v \<Rightarrow>
         if username v \<noteq> username u \<or> email v \<noteq> email u then throwS (ValidationException ''username/email immutable'')
         else bindS (exec L ''BEGIN IMMEDIATE;'') (\<lambda>_.
              write_stmt L users_update_sql
                [bind_text (role u), bind_text (status u), SInt (failedAttempts u), SInt (lockoutUntil u), bind_text (uid (user_id u))]
                (\<lambda>_. RuntimeError ''update failed'') (exec L ''COMMIT;'')))"

text \<open>Neither the prepare nor the step is checked here.\<close>

definition SqliteUser_updateHash :: "'db sqlite3 \<Rightarrow> UserId \<Rightarrow> string \<Rightarrow> ('db, unit) sx" where
  "SqliteUser_updateHash L i h =
     bindS (exec L ''BEGIN IMMEDIATE;'') (\<lambda>_.
     bindS (step L users_hash_sql [bind_text h, bind_text (uid i)]) (\<lambda>_.
     exec L ''COMMIT;''))"

definition SqliteUser_recordLoginFailure :: "'db sqlite3 \<Rightarrow> UserId \<Rightarrow> int \<Rightarrow> ('db, unit) sx" where
  "SqliteUser_recordLoginFailure L i now =
     bindS (exec L ''BEGIN IMMEDIATE;'') (\<lambda>_.
     bindS (prepare L users_fails_sql) (\<lambda>rc.
     if rc \<noteq> SQLITE_OK then rollback_throw L (RuntimeError ''prepare failed'')
     else bindS (step L users_fails_sql [bind_text (uid i)]) (\<lambda>(rs, _).
          case rs of
            [] \<Rightarrow> rollback_throw L (NotFoundException ''not found'')
          | r # _ \<Rightarrow>
              (let fails = sqlite3_column_int L (column r 0) + 1;
                   lockout = sqlite3_column_int64 L (column r 1);
                   newLockout = (if fails \<ge> 5 then now + 15 * 60 * 1000 else lockout)
               in write_stmt L users_lock_sql [SInt fails, SInt newLockout, bind_text (uid i)]
                    (\<lambda>_. RuntimeError ''update failed'') (checked_commit L ''no row updated'')))))"

definition SqliteUser_recordLoginFailureTo :: "'db sqlite3 \<Rightarrow> UserId \<Rightarrow> int \<Rightarrow> int \<Rightarrow> ('db, unit) sx" where
  "SqliteUser_recordLoginFailureTo L i f until =
     bindS (exec L ''BEGIN IMMEDIATE;'') (\<lambda>_.
     write_stmt L users_lock_sql [SInt f, SInt until, bind_text (uid i)]
       (\<lambda>_. RuntimeError ''update failed'') (checked_commit L ''no row updated''))"

definition SqliteUser_resetLoginFailures :: "'db sqlite3 \<Rightarrow> UserId \<Rightarrow> ('db, unit) sx" where
  "SqliteUser_resetLoginFailures L i =
     bindS (exec L ''BEGIN IMMEDIATE;'') (\<lambda>_.
     write_stmt L users_reset_sql [bind_text (uid i)] (\<lambda>_. RuntimeError ''reset failed'') (exec L ''COMMIT;''))"

definition SqliteUser_getEncodedHash :: "'db sqlite3 \<Rightarrow> UserId \<Rightarrow> 'db \<Rightarrow> exn + string" where
  "SqliteUser_getEncodedHash L i d =
     (case rows_of L users_gethash_sql [bind_text (uid i)] d of
        [] \<Rightarrow> Inl (NotFoundException ''hash not found'')
      | r # _ \<Rightarrow> column_string L r 0)"

definition SqliteUser_listAll :: "'db sqlite3 \<Rightarrow> 'db \<Rightarrow> exn + User list" where
  "SqliteUser_listAll L d = mapE (row_user L) (rows_of L users_all_sql [] d)"

definition sqlite_users :: "'db sqlite3 \<Rightarrow> 'db IUserRepository" where
  "sqlite_users L =
     \<lparr>findByUsername = SqliteUser_findByUsername L, findByEmail = SqliteUser_findByEmail L, findById = SqliteUser_findById L,
      saveUser = SqliteUser_save L, updateUser = SqliteUser_update L, updateHash = SqliteUser_updateHash L,
      recordLoginFailure = SqliteUser_recordLoginFailure L, recordLoginFailureTo = SqliteUser_recordLoginFailureTo L,
      resetLoginFailures = SqliteUser_resetLoginFailures L, getEncodedHash = SqliteUser_getEncodedHash L,
      listAll = SqliteUser_listAll L\<rparr>"

section \<open>Commands\<close>

text \<open>The calls that write, over any repository.\<close>

datatype user_cmd =
    SaveUser User string
  | UpdateUser User
  | UpdateHash UserId string
  | LoginFailure UserId int
  | LoginFailureTo UserId int int
  | ResetFailures UserId

primrec run_user_cmd :: "'r IUserRepository \<Rightarrow> user_cmd \<Rightarrow> ('r, unit) sx" where
  "run_user_cmd R (SaveUser u h) = saveUser R u h"
| "run_user_cmd R (UpdateUser u) = updateUser R u"
| "run_user_cmd R (UpdateHash i h) = updateHash R i h"
| "run_user_cmd R (LoginFailure i now) = recordLoginFailure R i now"
| "run_user_cmd R (LoginFailureTo i f until) = recordLoginFailureTo R i f until"
| "run_user_cmd R (ResetFailures i) = resetLoginFailures R i"

context transactional
begin

lemma user_cmd_safe: "safe_run committed (run_user_cmd (sqlite_users L) c)"
proof (cases c)
  case (UpdateUser u)
  have "safe_run committed (bindS (exec L ''BEGIN IMMEDIATE;'') (\<lambda>_. write_stmt L users_update_sql ps failed (exec L ''COMMIT;'')))"
    for ps failed by (intro safe_write_rules)
  then show ?thesis unfolding UpdateUser
    by (auto simp: sqlite_users_def SqliteUser_update_def safe_run_def bindS_def [of "getS _"] getS_def throwS_def
        split: sum.splits option.splits if_splits)
next
  case (LoginFailure i now)
  have "safe_within in_tx committed (rollback_throw L (e :: exn) :: ('db, unit) sx)" for e by (rule safe_tx [OF safe_rollback])
  then show ?thesis unfolding LoginFailure
    by (auto simp: sqlite_users_def SqliteUser_recordLoginFailure_def Let_def
        intro!: safe_begin tx_safe_prepare tx_safe_step safe_write safe_checked safe_rollback split: list.split)
next
  case (UpdateHash i h)
  show ?thesis unfolding UpdateHash
    by (auto simp: sqlite_users_def SqliteUser_updateHash_def intro!: safe_begin tx_safe_step safe_commit safe_tx [OF safe_commit])
qed (auto simp: sqlite_users_def SqliteUser_save_def SqliteUser_recordLoginFailureTo_def SqliteUser_resetLoginFailures_def
    intro!: safe_write_rules)

end

section \<open>The table\<close>

definition users_schema :: schema where
  "users_schema = \<lparr>table = ''users'',
     columns = [''id'', ''username'', ''email'', ''pass_hash'', ''role'', ''status'', ''failed_attempts'', ''lockout_until''],
     uniq = [''id'', ''username'', ''email'']\<rparr>"

abbreviation user_columns :: "string list" where
  "user_columns \<equiv> [''id'', ''username'', ''email'', ''role'', ''status'', ''failed_attempts'', ''lockout_until'']"

definition users_stmts :: "stmt list" where
  "users_stmts =
     [Insert (columns users_schema),
      Update [(''role'', None), (''status'', None), (''failed_attempts'', None), (''lockout_until'', None)] ''id'',
      Update [(''pass_hash'', None)] ''id'',
      Update [(''failed_attempts'', None), (''lockout_until'', None)] ''id'',
      Update [(''failed_attempts'', Some 0), (''lockout_until'', Some 0)] ''id'',
      Select user_columns [''id''], Select user_columns [''username''], Select user_columns [''email''],
      Select [''failed_attempts'', ''lockout_until''] [''id''], Select [''pass_hash''] [''id''], Select user_columns []]"

lemma users_sql:
  "users_insert_sql = sql_text (table users_schema) (Insert (columns users_schema))"
  "users_update_sql = sql_text (table users_schema)
     (Update [(''role'', None), (''status'', None), (''failed_attempts'', None), (''lockout_until'', None)] ''id'')"
  "users_hash_sql = sql_text (table users_schema) (Update [(''pass_hash'', None)] ''id'')"
  "users_lock_sql = sql_text (table users_schema) (Update [(''failed_attempts'', None), (''lockout_until'', None)] ''id'')"
  "users_reset_sql = sql_text (table users_schema) (Update [(''failed_attempts'', Some 0), (''lockout_until'', Some 0)] ''id'')"
  "users_fails_sql = sql_text (table users_schema) (Select [''failed_attempts'', ''lockout_until''] [''id''])"
  "users_gethash_sql = sql_text (table users_schema) (Select [''pass_hash''] [''id''])"
  "users_all_sql = sql_text (table users_schema) (Select user_columns [])"
  by code_simp+

lemma users_by_sql: "users_by_sql c = sql_text (table users_schema) (Select user_columns [c])"
  by (simp add: users_by_sql_def sql_text.simps where_text_def users_schema_def)

text \<open>The row of a user, and the users a row can hold: text without NUL, numbers in range.\<close>

definition user_row :: "User \<Rightarrow> string \<Rightarrow> sqlval list" where
  "user_row u h = [SText (uid (user_id u)), SText (username u), SText (email u), SText h, SText (role u), SText (status u),
     SInt (failedAttempts u), SInt (lockoutUntil u)]"

definition in_range :: "int \<Rightarrow> int \<Rightarrow> bool" where
  "in_range fails until \<longleftrightarrow> - (2 ^ 31) \<le> fails \<and> fails < 2 ^ 31 \<and> - (2 ^ 63) \<le> until \<and> until < 2 ^ 63"

definition storable_user :: "User \<Rightarrow> bool" where
  "storable_user u \<longleftrightarrow> uid (user_id u) \<noteq> [] \<and> username u \<noteq> [] \<and> email u \<noteq> []
     \<and> plain_text (uid (user_id u)) \<and> plain_text (username u) \<and> plain_text (email u)
     \<and> plain_text (role u) \<and> plain_text (status u) \<and> in_range (failedAttempts u) (lockoutUntil u)"

text \<open>The table holds exactly the users and hashes of an in-memory repository.\<close>

abbreviation hash_of :: "MemoryUserRepository \<Rightarrow> string \<Rightarrow> string" where
  "hash_of m i \<equiv> the (map_of (hashById m) i)"

definition users_sim :: "sqlval list list \<Rightarrow> MemoryUserRepository \<Rightarrow> bool" where
  "users_sim R m \<longleftrightarrow> mem_inv m \<and> mset R = mset (map (\<lambda>(i, u). user_row u (hash_of m i)) (usersById m))
     \<and> (\<forall>(i, u)\<in>set (usersById m). storable_user u \<and> plain_text (hash_of m i))"

lemma user_row_field:
  "field users_schema (user_row u h) ''id'' = SText (uid (user_id u))"
  "field users_schema (user_row u h) ''username'' = SText (username u)"
  "field users_schema (user_row u h) ''email'' = SText (email u)"
  "field users_schema (user_row u h) ''pass_hash'' = SText h"
  "field users_schema (user_row u h) ''role'' = SText (role u)"
  "field users_schema (user_row u h) ''status'' = SText (status u)"
  "field users_schema (user_row u h) ''failed_attempts'' = SInt (failedAttempts u)"
  "field users_schema (user_row u h) ''lockout_until'' = SInt (lockoutUntil u)"
  by (simp_all add: field_def users_schema_def user_row_def)

section \<open>Lookups\<close>

locale users_db = sql_engine L users_schema users_stmts content saved
  for L :: "'db sqlite3" and content :: "'db \<Rightarrow> sqlval list list" and saved :: "'db \<Rightarrow> sqlval list list option"
begin

lemma row_user_row:
  assumes "storable_user u"
  shows "row_user L (map (field users_schema (user_row u h)) user_columns) = Inr u"
  using assms
  by (simp add: row_user_def column_string_def column_def user_row_field text_ok bindE_def mkUser_def storable_user_def
      int_ok int64_ok in_range_def)

text \<open>A lookup by a unique column finds what the in-memory index finds.\<close>

lemma findByColumn_sim:
  assumes "users_sim (content d) m" "plain_text k" "c \<in> {''id'', ''username'', ''email''}"
    and key: "\<And>u h. field users_schema (user_row u h) c = SText (f u)"
    and hit: "\<And>u. r = Some u \<Longrightarrow> \<exists>i. map_of (usersById m) i = Some u \<and> f u = k"
    and uniq: "\<And>i j u v. map_of (usersById m) i = Some u \<Longrightarrow> map_of (usersById m) j = Some v \<Longrightarrow> f u = f v \<Longrightarrow> i = j"
    and miss: "\<And>i u. r = None \<Longrightarrow> map_of (usersById m) i = Some u \<Longrightarrow> f u \<noteq> k"
  shows "findByColumn L c k d = Inr (lookup r)"
proof -
  have st: "Select user_columns [c] \<in> set users_stmts" using assms(3) by (auto simp: users_stmts_def)
  let ?row = "\<lambda>(i, u). user_row u (hash_of m i)" and ?xs = "usersById m"
  have ms: "mset (content d) = mset (map ?row ?xs)" and dis: "distinct (map fst ?xs)"
    and ok: "\<And>i u. (i, u) \<in> set ?xs \<Longrightarrow> storable_user u"
    using assms(1) unfolding users_sim_def mem_inv_def by auto
  have "matches users_schema [c] [SText k] (?row x) \<longleftrightarrow> f (snd x) = k" for x
    by (cases x) (simp add: matches_def key sql_eq_def)
  then have flt: "filter (\<lambda>x. matches users_schema [c] [SText k] (?row x)) ?xs = filter (\<lambda>x. f (snd x) = k) ?xs" by simp
  have mem: "(i, u) \<in> set ?xs \<longleftrightarrow> map_of ?xs i = Some u" for i u using dis by simp
  show ?thesis
  proof (cases r)
    case None
    then have "f u \<noteq> k" if "(i, u) \<in> set ?xs" for i u using miss [of i u] mem [of i u] that by simp
    then have "\<forall>x\<in>set ?xs. f (snd x) \<noteq> k" by (metis prod.collapse)
    then have "filter (\<lambda>x. f (snd x) = k) ?xs = []" by (simp add: filter_empty_conv)
    then have "rows_of L (users_by_sql c) [SText k] d = []"
      using key_rows [OF st ms, of "SText k" "[]"] flt by (simp add: users_by_sql)
    then show ?thesis using None assms(2) prepare_ok [OF st, of d] by (simp add: findByColumn_def users_by_sql)
  next
    case (Some u)
    then obtain i where i: "map_of ?xs i = Some u" "f u = k" using hit by blast
    have "filter (\<lambda>x. f (snd x) = k) ?xs = [(i, u)]"
      by (rule filter_one [of fst, OF dis]) (use i mem uniq in auto)
    then have "rows_of L (users_by_sql c) [SText k] d = [map (field users_schema (user_row u (hash_of m i))) user_columns]"
      using key_rows [OF st ms, of "SText k" "[(i, u)]"] flt by (simp add: users_by_sql)
    then show ?thesis
      using Some assms(2) prepare_ok [OF st, of d] row_user_row [OF ok [of i u]] i mem
      by (simp add: findByColumn_def users_by_sql bindE_def)
  qed
qed

lemma find_sim:
  assumes "users_sim (content d) m" "plain_text k"
  shows "SqliteUser_findById L (UserId k) d = MemUser_findById (UserId k) m"
    and "SqliteUser_findByUsername L k d = MemUser_findByUsername k m"
    and "SqliteUser_findByEmail L k d = MemUser_findByEmail k m"
proof -
  have inv: "mem_inv m" using assms(1) by (simp add: users_sim_def)
  note D = mem_invD [OF inv]
  have "findByColumn L ''id'' k d = Inr (lookup (map_of (usersById m) k))"
    by (rule findByColumn_sim [OF assms, where f = "\<lambda>u. uid (user_id u)"]) (use D(2) in \<open>auto simp: user_row_field\<close>)
  then show "SqliteUser_findById L (UserId k) d = MemUser_findById (UserId k) m"
    by (simp add: SqliteUser_findById_def MemUser_findById_def lookup_def)
  let ?r = "case map_of (usernameToId m) k of None \<Rightarrow> None | Some i \<Rightarrow> map_of (usersById m) i"
  have "findByColumn L ''username'' k d = Inr (lookup ?r)"
  proof (rule findByColumn_sim [OF assms, where f = username])
    fix i j u v assume "map_of (usersById m) i = Some u" "map_of (usersById m) j = Some v" "username u = username v"
    then show "i = j" using D(3) [of i u] D(3) [of j v] by simp
  qed (use D(5) [of k] in \<open>auto simp: user_row_field split: option.splits dest: D(3)\<close>)
  then show "SqliteUser_findByUsername L k d = MemUser_findByUsername k m"
    by (simp add: SqliteUser_findByUsername_def MemUser_findByUsername_def lookup_def split: option.splits)
  let ?e = "case map_of (emailToId m) k of None \<Rightarrow> None | Some i \<Rightarrow> map_of (usersById m) i"
  have "findByColumn L ''email'' k d = Inr (lookup ?e)"
  proof (rule findByColumn_sim [OF assms, where f = email])
    fix i j u v assume "map_of (usersById m) i = Some u" "map_of (usersById m) j = Some v" "email u = email v"
    then show "i = j" using D(4) [of i u] D(4) [of j v] by simp
  qed (use D(6) [of k] in \<open>auto simp: user_row_field split: option.splits dest: D(4)\<close>)
  then show "SqliteUser_findByEmail L k d = MemUser_findByEmail k m"
    by (simp add: SqliteUser_findByEmail_def MemUser_findByEmail_def lookup_def split: option.splits)
qed

end

section \<open>Writes\<close>

lemma update_known:
  "distinct (map fst xs) \<Longrightarrow> map_of xs k = Some w \<Longrightarrow> AList.update k v xs = map (\<lambda>(i, u). (i, if i = k then v else u)) xs"
proof (induction xs)
  case (Cons x xs)
  obtain j u where x: "x = (j, u)" by (cases x)
  show ?case
  proof (cases "j = k")
    case True
    then have "(i, a) \<in> set xs \<Longrightarrow> i \<noteq> k" for i a using Cons.prems(1) x by (auto simp: image_iff)
    then show ?thesis using True x by (auto intro!: map_idI [symmetric])
  next
    case False
    then show ?thesis using Cons x by auto
  qed
qed simp

lemma mem_inv_hash:
  assumes "mem_inv m" "map_of (usersById m) k = Some u"
  shows "mem_inv (m\<lparr>hashById := AList.update k h (hashById m)\<rparr>)"
  using assms by (auto simp: mem_inv_def)

lemma users_match:
  assumes "users_sim R m"
  shows "filter (\<lambda>x. matches users_schema [''id''] [SText k] (case x of (i, u) \<Rightarrow> user_row u (hash_of m i))) (usersById m)
     = (case map_of (usersById m) k of None \<Rightarrow> [] | Some u \<Rightarrow> [(k, u)])"
proof -
  have inv: "mem_inv m" and dis: "distinct (map fst (usersById m))" using assms by (auto simp: users_sim_def mem_inv_def)
  have "matches users_schema [''id''] [SText k] (user_row u (hash_of m i)) \<longleftrightarrow> i = k" if "(i, u) \<in> set (usersById m)" for i u
    using that dis mem_invD(2) [OF inv, of i u] by (simp add: matches_def user_row_field sql_eq_def)
  then have *: "filter (\<lambda>x. matches users_schema [''id''] [SText k] (case x of (i, u) \<Rightarrow> user_row u (hash_of m i))) (usersById m)
      = filter (\<lambda>x. fst x = k) (usersById m)" by (auto intro!: filter_cong)
  show ?thesis
  proof (cases "map_of (usersById m) k")
    case None
    then have "filter (\<lambda>x. fst x = k) (usersById m) = []" by (auto simp: filter_empty_conv map_of_eq_None_iff)
    then show ?thesis unfolding * None by simp
  next
    case (Some u)
    have "filter (\<lambda>x. fst x = k) (usersById m) = [(k, u)]"
      by (rule filter_one [of fst, OF dis]) (use Some in \<open>auto dest: map_of_SomeD\<close>)
    then show ?thesis unfolding * using Some by simp
  qed
qed

text \<open>An update of one user's row is the in-memory overwrite of that user and its hash.\<close>

lemma updated_sim:
  assumes sim: "users_sim R m"
    and row: "\<And>u. map_of (usersById m) k = Some u \<Longrightarrow>
      assign users_schema (set_values sets vals) (user_row u (hash_of m k)) = user_row (f u) h
      \<and> user_id (f u) = user_id u \<and> username (f u) = username u \<and> email (f u) = email u \<and> storable_user (f u) \<and> plain_text h"
  shows "users_sim (updated users_schema sets ''id'' (vals @ [SText k]) R)
     (case map_of (usersById m) k of None \<Rightarrow> m
      | Some u \<Rightarrow> m\<lparr>usersById := AList.update k (f u) (usersById m), hashById := AList.update k h (hashById m)\<rparr>)"
proof -
  let ?row = "\<lambda>(i, u). user_row u (hash_of m i)" and ?xs = "usersById m"
  have inv: "mem_inv m" and dis: "distinct (map fst ?xs)" and ms: "mset R = mset (map ?row ?xs)"
    and ok: "\<And>i u. (i, u) \<in> set ?xs \<Longrightarrow> storable_user u \<and> plain_text (hash_of m i)"
    using sim by (auto simp: users_sim_def mem_inv_def)
  have mt: "matches users_schema [''id''] [SText k] (?row x) \<longleftrightarrow> fst x = k" if "x \<in> set ?xs" for x
  proof -
    obtain i u where x: "x = (i, u)" by (cases x) auto
    then have "uid (user_id u) = i" using that dis mem_invD(2) [OF inv, of i u] by simp
    then show ?thesis by (simp add: x matches_def user_row_field sql_eq_def)
  qed
  have upd: "mset (updated users_schema sets ''id'' (vals @ [SText k]) R)
      = mset (map (\<lambda>x. if fst x = k then assign users_schema (set_values sets vals) (?row x) else ?row x) ?xs)"
    unfolding updated_rows [OF ms] by (rule arg_cong [of _ _ mset], rule map_cong) (simp_all add: mt butlast_append)
  show ?thesis
  proof (cases "map_of ?xs k")
    case None
    then have "fst x \<noteq> k" if "x \<in> set ?xs" for x using that by (metis map_of_eq_None_iff image_eqI)
    then have "mset (updated users_schema sets ''id'' (vals @ [SText k]) R) = mset (map ?row ?xs)"
      unfolding upd by (simp cong: map_cong)
    then show ?thesis using None sim by (simp add: users_sim_def)
  next
    case (Some u)
    note r = row [OF Some]
    let ?m = "m\<lparr>usersById := AList.update k (f u) ?xs, hashById := AList.update k h (hashById m)\<rparr>"
    have "mem_inv (m\<lparr>usersById := AList.update k (f u) ?xs\<rparr>)"
      by (rule mem_inv_overwrite [OF inv Some]) (use r in simp_all)
    from mem_inv_hash [OF this, of k "f u" h] have inv': "mem_inv ?m" by simp
    have xs: "AList.update k (f u) ?xs = map (\<lambda>(i, v). (i, if i = k then f u else v)) ?xs" by (rule update_known [OF dis Some])
    have "(if fst x = k then assign users_schema (set_values sets vals) (?row x) else ?row x)
        = (\<lambda>(i, v). user_row v (hash_of ?m i)) ((\<lambda>(i, v). (i, if i = k then f u else v)) x)" if "x \<in> set ?xs" for x
    proof -
      obtain i v where x: "x = (i, v)" by (cases x) auto
      then have "i = k \<Longrightarrow> v = u" using that Some dis by auto
      then show ?thesis using r by (auto simp: x)
    qed
    then have "mset (updated users_schema sets ''id'' (vals @ [SText k]) R) = mset (map (\<lambda>(i, v). user_row v (hash_of ?m i)) (usersById ?m))"
      unfolding upd xs map_map by (simp cong: map_cong add: xs)
    moreover have "\<forall>(i, v)\<in>set (usersById ?m). storable_user v \<and> plain_text (hash_of ?m i)"
      using ok r by (auto simp: xs)
    ultimately show ?thesis using inv' Some by (simp add: users_sim_def)
  qed
qed

lemma clash_iff:
  assumes "users_sim R m"
  shows "clashes users_schema (user_row u h) R \<longleftrightarrow> \<not> fresh_user u (mem_users m)"
proof -
  have inv: "mem_inv m" and "mset R = mset (map (\<lambda>(i, v). user_row v (hash_of m i)) (usersById m))" using assms by (simp_all add: users_sim_def)
  from this(2) have R: "set R = (\<lambda>(i, v). user_row v (hash_of m i)) ` set (usersById m)" by (metis list.set_map mset_eq_setD)
  have mem: "(i, v) \<in> set (usersById m) \<longleftrightarrow> mem_users m i = Some v" for i v
    using mem_invD(1) [OF inv] by (simp add: mem_users_def)
  have key: "mem_users m i = Some v \<Longrightarrow> uid (user_id v) = i" for i v using mem_invD(2) [OF inv] by (simp add: mem_users_def)
  have "clashes users_schema (user_row u h) R
      \<longleftrightarrow> (\<exists>(i, v)\<in>set (usersById m). uid (user_id v) = uid (user_id u) \<or> username v = username u \<or> email v = email u)"
    unfolding clashes_def list_ex_iff R
    by (simp add: users_schema_def [THEN arg_cong, of uniq] user_row_field sql_eq_def split_beta)
  also have "\<dots> \<longleftrightarrow> \<not> fresh_user u (mem_users m)"
    using key by (fastforce simp: fresh_user_def mem ran_def)
  finally show ?thesis .
qed

lemma inserted_sim:
  assumes sim: "users_sim R m" and "fresh_user u (mem_users m)" "storable_user u" "plain_text h"
  shows "\<exists>m'. MemUser_save u h m = (Inr (), m') \<and> users_sim (R @ [user_row u h]) m'"
proof -
  have inv: "mem_inv m" using sim by (simp add: users_sim_def)
  have none: "map_of (usernameToId m) (username u) = None" "map_of (emailToId m) (email u) = None"
    "map_of (usersById m) (uid (user_id u)) = None"
    unfolding mem_index_None [OF inv] using assms(2) by (auto simp: fresh_user_def mem_users_def)
  then have nh: "map_of (hashById m) (uid (user_id u)) = None" using mem_invD(7) [OF inv] by (metis domIff)
  let ?m = "m\<lparr>usersById := emplace (uid (user_id u)) u (usersById m), usernameToId := emplace (username u) (uid (user_id u)) (usernameToId m),
      emailToId := emplace (email u) (uid (user_id u)) (emailToId m), hashById := emplace (uid (user_id u)) h (hashById m)\<rparr>"
  have us: "usersById ?m = usersById m @ [(uid (user_id u), u)]" and hs: "map_of (emplace (uid (user_id u)) h (hashById m)) = (map_of (hashById m))(uid (user_id u) \<mapsto> h)"
    using none(3) nh by (simp_all add: emplace_def [of "uid (user_id u)" u] map_of_emplace)
  have old: "i \<noteq> uid (user_id u)" if "(i, v) \<in> set (usersById m)" for i v using that none(3) by (metis map_of_eq_None_iff image_eqI fst_conv)
  have "map (\<lambda>(i, v). user_row v (hash_of ?m i)) (usersById m) = map (\<lambda>(i, v). user_row v (hash_of m i)) (usersById m)"
    by (rule map_cong [OF refl]) (use old in \<open>auto simp: hs simp del: map_of_eq_None_iff\<close>)
  then have "map (\<lambda>(i, v). user_row v (hash_of ?m i)) (usersById ?m)
      = map (\<lambda>(i, v). user_row v (hash_of m i)) (usersById m) @ [user_row u h]"
    unfolding us by (simp add: hs)
  then have "mset (R @ [user_row u h]) = mset (map (\<lambda>(i, v). user_row v (hash_of ?m i)) (usersById ?m))"
    using sim by (simp only: mset_append users_sim_def)
  moreover have "\<forall>(i, v)\<in>set (usersById ?m). storable_user v \<and> plain_text (hash_of ?m i)"
    using sim assms(3,4) old unfolding users_sim_def us by (auto simp: hs)
  ultimately have "users_sim (R @ [user_row u h]) ?m"
    using mem_inv_insert [OF inv none, of h] unfolding users_sim_def by blast
  moreover have "MemUser_save u h m = (Inr (), ?m)" using none by (simp add: MemUser_save_def)
  ultimately show ?thesis by blast
qed

section \<open>The simulation\<close>

text \<open>
  What a command may carry: what a row can hold. An unknown identifier is an error in
  memory; \<open>UPDATE\<close> matches no row, which \<open>updateHash\<close> and \<open>resetLoginFailures\<close> do not notice.
\<close>

primrec storable_cmd :: "MemoryUserRepository \<Rightarrow> user_cmd \<Rightarrow> bool" where
  "storable_cmd m (SaveUser u h) \<longleftrightarrow> storable_user u \<and> plain_text h"
| "storable_cmd m (UpdateUser u) \<longleftrightarrow> storable_user u"
| "storable_cmd m (UpdateHash i h) \<longleftrightarrow> plain_text (uid i) \<and> plain_text h"
| "storable_cmd m (LoginFailure i now) \<longleftrightarrow> plain_text (uid i)
     \<and> (case map_of (usersById m) (uid i) of None \<Rightarrow> True | Some u \<Rightarrow> in_range (failedAttempts u + 1) (now + 15 * 60 * 1000))"
| "storable_cmd m (LoginFailureTo i f until) \<longleftrightarrow> plain_text (uid i) \<and> in_range f until"
| "storable_cmd m (ResetFailures i) \<longleftrightarrow> plain_text (uid i)"

primrec unnoticed :: "MemoryUserRepository \<Rightarrow> user_cmd \<Rightarrow> bool" where
  "unnoticed m (SaveUser u h) \<longleftrightarrow> False"
| "unnoticed m (UpdateUser u) \<longleftrightarrow> False"
| "unnoticed m (UpdateHash i h) \<longleftrightarrow> map_of (usersById m) (uid i) = None"
| "unnoticed m (LoginFailure i now) \<longleftrightarrow> False"
| "unnoticed m (LoginFailureTo i f until) \<longleftrightarrow> False"
| "unnoticed m (ResetFailures i) \<longleftrightarrow> map_of (usersById m) (uid i) = None"

lemma assign_rows:
  "assign users_schema [(''role'', SText rl), (''status'', SText st), (''failed_attempts'', SInt f), (''lockout_until'', SInt l)] (user_row u h)
     = user_row (u\<lparr>role := rl, status := st, failedAttempts := f, lockoutUntil := l\<rparr>) h"
  "assign users_schema [(''pass_hash'', SText h')] (user_row u h) = user_row u h'"
  "assign users_schema [(''failed_attempts'', SInt f), (''lockout_until'', SInt l)] (user_row u h) = user_row (setLockout u l f) h"
  by (simp_all add: assign_def users_schema_def user_row_def setLockout_def)

lemma hash_kept: "mem_inv m \<Longrightarrow> map_of (usersById m) k = Some u \<Longrightarrow> AList.update k (hash_of m k) (hashById m) = hashById m"
  using mem_invD(7) [of m] by (intro update_triv) (metis domI domIff option.exhaust_sel)

lemma setLockout_same: "user_id (setLockout u l f) = user_id u" "username (setLockout u l f) = username u" "email (setLockout u l f) = email u"
  by (simp_all add: setLockout_def)

lemma setLockout_storable: "storable_user u \<Longrightarrow> in_range f l \<Longrightarrow> storable_user (setLockout u l f)"
  by (simp add: storable_user_def setLockout_def)

text \<open>The case of an update that leaves the hash alone.\<close>

lemma updated_user_sim:
  assumes "users_sim R m"
    and "\<And>u. map_of (usersById m) k = Some u \<Longrightarrow>
      assign users_schema (set_values sets vals) (user_row u (hash_of m k)) = user_row (f u) (hash_of m k)
      \<and> user_id (f u) = user_id u \<and> username (f u) = username u \<and> email (f u) = email u \<and> storable_user (f u)"
  shows "users_sim (updated users_schema sets ''id'' (vals @ [SText k]) R) (snd (MemUser_modify (UserId k) f m))"
proof -
  have plain: "plain_text (hash_of m k)" if "map_of (usersById m) k = Some u" for u
    using assms(1) that unfolding users_sim_def by (auto dest: map_of_SomeD)
  have "mem_inv m" using assms(1) by (simp add: users_sim_def)
  then show ?thesis
    using updated_sim [OF assms(1), of k sets vals f "hash_of m k"] assms(2) plain
    by (cases "map_of (usersById m) k") (simp_all add: MemUser_modify_def hash_kept)
qed

lemma storable_known: "users_sim R m \<Longrightarrow> map_of (usersById m) k = Some u \<Longrightarrow> storable_user u"
  unfolding users_sim_def by (auto dest: map_of_SomeD)

context users_db
begin

text \<open>Begin, update one row by identifier, go on with \<open>k\<close>.\<close>

lemma update_by_id:
  assumes "Update sets ''id'' \<in> set users_stmts" "set (uniq users_schema) \<inter> fst ` set sets = {}"
    "length vals = length (filter (\<lambda>(_, v). v = None) sets)" "saved d = None" "users_sim (content d) m"
  shows "\<exists>d'. bindS (exec L ''BEGIN IMMEDIATE;'') (\<lambda>_. write_stmt L (sql_text (table users_schema) (Update sets ''id'')) (vals @ [SText i]) failed k) d = k d'
     \<and> content d' = updated users_schema sets ''id'' (vals @ [SText i]) (content d) \<and> saved d' = Some (content d)
     \<and> sqlite3_changes L d' = (if map_of (usersById m) i = None then 0 else 1)"
proof -
  obtain d1 where d1: "exec L ''BEGIN IMMEDIATE;'' d = (Inr (), d1)" "content d1 = content d" "saved d1 = Some (content d)"
    using begin_run [OF assms(4)] by blast
  have ms: "mset (content d) = mset (map (\<lambda>(i, u). user_row u (hash_of m i)) (usersById m))" using assms(5) by (simp add: users_sim_def)
  have "length (filter (matches users_schema [''id''] [SText i]) (content d)) = (if map_of (usersById m) i = None then 0 else 1)"
    using matching_rows [OF ms, of users_schema "[''id'']" "[SText i]"] users_match [OF assms(5), of i]
    by (simp split: option.splits)
  then show ?thesis
    using update_run [OF assms(1) d1(3) assms(2), of "vals @ [SText i]" failed k] assms(3) d1
    by (auto simp: bindS_def)
qed

lemma commit_sim:
  assumes "saved d = Some old" "users_sim (content d) m"
  shows "\<exists>d'. exec L ''COMMIT;'' d = (Inr (), d') \<and> saved d' = None \<and> users_sim (content d') m"
  using commit_run [OF assms(1)] assms(2) by auto

lemma checked_sim:
  assumes "saved d = Some old" "sqlite3_changes L d = (if known then 1 else 0)"
    "if known then users_sim (content d) m else users_sim old m"
  shows "\<exists>r d'. checked_commit L msg d = (r, d') \<and> saved d' = None \<and> users_sim (content d') m \<and> (isl r \<longleftrightarrow> \<not> known)"
proof -
  have "\<exists>d'. (rollback_throw L (RuntimeError msg) :: ('db, unit) sx) d = (Inl (RuntimeError msg), d') \<and> content d' = old \<and> saved d' = None"
    by (rule rollback_run [OF assms(1)])
  then show ?thesis using commit_run [OF assms(1)] assms(2,3) by (auto simp: checked_commit_def)
qed

lemma save_sim:
  assumes "saved d = None" "users_sim (content d) m" "storable_user u" "plain_text h"
  shows "\<exists>r d'. SqliteUser_save L u h d = (r, d') \<and> saved d' = None \<and> users_sim (content d') (snd (MemUser_save u h m))
     \<and> isl r = isl (fst (MemUser_save u h m))"
proof -
  obtain d1 where d1: "exec L ''BEGIN IMMEDIATE;'' d = (Inr (), d1)" "content d1 = content d" "saved d1 = Some (content d)"
    using begin_run [OF assms(1)] by blast
  let ?failed = "\<lambda>rc. if rc = SQLITE_CONSTRAINT then ValidationException ''username or email exists'' else RuntimeError ''insert failed''"
  have run: "SqliteUser_save L u h d = write_stmt L users_insert_sql (user_row u h) ?failed (exec L ''COMMIT;'') d1"
    using assms(3,4) d1 by (simp add: SqliteUser_save_def bindS_def user_row_def storable_user_def)
  have ins: "Insert (columns users_schema) \<in> set users_stmts" "length (user_row u h) = length (columns users_schema)"
    by (simp_all add: users_stmts_def user_row_def users_schema_def)
  note r = insert_run [OF ins(1) d1(3) ins(2), of ?failed "exec L ''COMMIT;''", folded users_sql(1)]
  have inv: "mem_inv m" using assms(2) by (simp add: users_sim_def)
  show ?thesis
  proof (cases "fresh_user u (mem_users m)")
    case True
    then obtain d2 where d2: "SqliteUser_save L u h d = exec L ''COMMIT;'' d2" "content d2 = content d @ [user_row u h]" "saved d2 = Some (content d)"
      using r clash_iff [OF assms(2), of u h] run d1(2) by auto
    obtain m' where m': "MemUser_save u h m = (Inr (), m')" "users_sim (content d2) m'"
      using inserted_sim [OF assms(2) True assms(3,4)] d2(2) by auto
    then show ?thesis using commit_sim [OF d2(3) m'(2)] d2(1) by auto
  next
    case False
    then obtain d2 where d2: "SqliteUser_save L u h d = (Inl (?failed SQLITE_CONSTRAINT), d2)" "content d2 = content d" "saved d2 = None"
      using r clash_iff [OF assms(2), of u h] run d1(2) by auto
    obtain e where "MemUser_save u h m = (Inl e, m)" using mem.saveUser_dup [OF inv False, of h] by (auto simp: memory_users_def)
    then show ?thesis using d2 assms(2) by auto
  qed
qed

end

context users_db
begin

lemma update_sim:
  assumes "saved d = None" "users_sim (content d) m" "storable_user u"
  shows "\<exists>r d'. SqliteUser_update L u d = (r, d') \<and> saved d' = None \<and> users_sim (content d') (snd (MemUser_update u m))
     \<and> isl r = isl (fst (MemUser_update u m))"
proof -
  let ?k = "uid (user_id u)" and ?sets = "[(''role'', None), (''status'', None), (''failed_attempts'', None), (''lockout_until'', None)]"
  let ?vals = "[SText (role u), SText (status u), SInt (failedAttempts u), SInt (lockoutUntil u)]"
  let ?f = "\<lambda>v. v\<lparr>role := role u, status := status u, failedAttempts := failedAttempts u, lockoutUntil := lockoutUntil u\<rparr> :: User"
  have p: "plain_text ?k" "plain_text (role u)" "plain_text (status u)" using assms(3) by (simp_all add: storable_user_def)
  have fnd: "SqliteUser_findById L (user_id u) d = MemUser_findById (user_id u) m" using find_sim(1) [OF assms(2) p(1)] by simp
  show ?thesis
  proof (cases "\<exists>v. map_of (usersById m) ?k = Some v \<and> username v = username u \<and> email v = email u")
    case False
    then show ?thesis using assms(1,2) fnd
      by (auto simp: SqliteUser_update_def MemUser_update_def MemUser_findById_def bindS_def getS_def throwS_def split: option.splits)
  next
    case True
    then obtain v where v: "map_of (usersById m) ?k = Some v" "username v = username u" "email v = email u" by blast
    have ids: "user_id v = user_id u" using v(1) mem_invD(2) [of m ?k v] assms(2) by (simp add: users_sim_def UserId.expand)
    then have fv: "?f v = u" using v by (cases u; cases v) simp
    have st: "Update ?sets ''id'' \<in> set users_stmts" "set (uniq users_schema) \<inter> fst ` set ?sets = {}"
      "length ?vals = length (filter (\<lambda>(_, v). v = None) ?sets)" by (simp_all add: users_stmts_def users_schema_def)
    obtain d1 where d1: "SqliteUser_update L u d = exec L ''COMMIT;'' d1" "saved d1 = Some (content d)"
      "content d1 = updated users_schema ?sets ''id'' (?vals @ [SText ?k]) (content d)"
      using update_by_id [OF st assms(1,2), of ?k "\<lambda>_. RuntimeError ''update failed''" "exec L ''COMMIT;''"] v fnd p
      by (auto simp: SqliteUser_update_def MemUser_findById_def bindS_def [of "getS _"] getS_def users_sql)
    have "users_sim (content d1) (snd (MemUser_modify (UserId ?k) ?f m))"
      unfolding d1(3) by (rule updated_user_sim [OF assms(2)]) (use assms(3) v ids in \<open>auto simp: assign_rows storable_user_def\<close>)
    then have "users_sim (content d1) (snd (MemUser_update u m))" using v fv by (simp add: MemUser_modify_def MemUser_update_def)
    moreover have "\<not> isl (fst (MemUser_update u m))" using v by (simp add: MemUser_update_def)
    ultimately show ?thesis using commit_sim [OF d1(2), of "snd (MemUser_update u m)"] d1(1) by auto
  qed
qed

lemma hash_sim:
  assumes "saved d = None" "users_sim (content d) m" "plain_text (uid i)" "plain_text h"
  shows "\<exists>d'. SqliteUser_updateHash L i h d = (Inr (), d') \<and> saved d' = None \<and> users_sim (content d') (snd (MemUser_updateHash i h m))"
proof -
  obtain d1 where d1: "exec L ''BEGIN IMMEDIATE;'' d = (Inr (), d1)" "content d1 = content d" "saved d1 = Some (content d)"
    using begin_run [OF assms(1)] by blast
  have st: "Update [(''pass_hash'', None)] ''id'' \<in> set users_stmts" "set (uniq users_schema) \<inter> fst ` set [(''pass_hash'', None :: int option)] = {}"
    by (simp_all add: users_stmts_def users_schema_def)
  obtain d2 where d2: "sqlite3_steps L users_hash_sql [SText h, SText (uid i)] d1 = (([], SQLITE_DONE), d2)"
    "content d2 = updated users_schema [(''pass_hash'', None)] ''id'' [SText h, SText (uid i)] (content d)" "saved d2 = Some (content d)"
    using update_ok [OF st(1) _ st(2), of d1 "[SText h, SText (uid i)]"] d1 by (auto simp: users_sql)
  have run: "SqliteUser_updateHash L i h d = exec L ''COMMIT;'' d2"
    using d1(1) d2(1) assms(3,4) by (simp add: SqliteUser_updateHash_def bindS_def users_sql(3) step_run [OF st(1)])
  have "users_sim (content d2) (case map_of (usersById m) (uid i) of None \<Rightarrow> m
      | Some u \<Rightarrow> m\<lparr>usersById := AList.update (uid i) u (usersById m), hashById := AList.update (uid i) h (hashById m)\<rparr>)"
    using updated_sim [OF assms(2), of "uid i" "[(''pass_hash'', None)]" "[SText h]" "\<lambda>u. u" h] assms(4) storable_known [OF assms(2)]
    by (simp add: d2(2) assign_rows)
  then have "users_sim (content d2) (snd (MemUser_updateHash i h m))"
    by (auto simp: MemUser_updateHash_def update_triv split: option.splits)
  then show ?thesis using commit_sim [OF d2(3)] run by auto
qed

lemma lock_sim:
  assumes "saved d = None" "users_sim (content d) m" "plain_text (uid i)" "in_range f l"
  shows "\<exists>r d'. bindS (exec L ''BEGIN IMMEDIATE;'') (\<lambda>_. write_stmt L users_lock_sql [SInt f, SInt l, SText (uid i)] failed (checked_commit L msg)) d
      = (r, d') \<and> saved d' = None \<and> users_sim (content d') (snd (MemUser_modify i (\<lambda>u. setLockout u l f) m))
     \<and> (isl r \<longleftrightarrow> map_of (usersById m) (uid i) = None)"
proof -
  let ?sets = "[(''failed_attempts'', None), (''lockout_until'', None)] :: (string \<times> int option) list"
  have st: "Update ?sets ''id'' \<in> set users_stmts" "set (uniq users_schema) \<inter> fst ` set ?sets = {}"
    "length [SInt f, SInt l] = length (filter (\<lambda>(_, v). v = None) ?sets)" by (simp_all add: users_stmts_def users_schema_def)
  obtain d1 where d1: "bindS (exec L ''BEGIN IMMEDIATE;'') (\<lambda>_. write_stmt L users_lock_sql [SInt f, SInt l, SText (uid i)] failed (checked_commit L msg)) d
      = checked_commit L msg d1" "content d1 = updated users_schema ?sets ''id'' ([SInt f, SInt l] @ [SText (uid i)]) (content d)"
    "saved d1 = Some (content d)" "sqlite3_changes L d1 = (if map_of (usersById m) (uid i) \<noteq> None then 1 else 0)"
    using update_by_id [OF st assms(1,2), of "uid i" failed "checked_commit L msg"] by (auto simp: users_sql)
  have "users_sim (content d1) (snd (MemUser_modify (UserId (uid i)) (\<lambda>u. setLockout u l f) m))"
    unfolding d1(2) by (rule updated_user_sim [OF assms(2)])
      (use storable_known [OF assms(2)] assms(4) in \<open>simp add: assign_rows setLockout_storable setLockout_same\<close>)
  then have "if map_of (usersById m) (uid i) \<noteq> None then users_sim (content d1) (snd (MemUser_modify i (\<lambda>u. setLockout u l f) m))
      else users_sim (content d) (snd (MemUser_modify i (\<lambda>u. setLockout u l f) m))"
    using assms(2) by (auto simp: MemUser_modify_def)
  from checked_sim [OF d1(3,4) this, of msg] d1(1) show ?thesis by auto
qed

end

context users_db
begin

lemma failure_sim:
  assumes "saved d = None" "users_sim (content d) m" "storable_cmd m (LoginFailure i now)"
  shows "\<exists>r d'. SqliteUser_recordLoginFailure L i now d = (r, d') \<and> saved d' = None
     \<and> users_sim (content d') (snd (MemUser_recordLoginFailure i now m)) \<and> (isl r \<longleftrightarrow> map_of (usersById m) (uid i) = None)"
proof -
  let ?row = "\<lambda>(i, u). user_row u (hash_of m i)"
  have p: "plain_text (uid i)" using assms(3) by simp
  have st: "Select [''failed_attempts'', ''lockout_until''] [''id''] \<in> set users_stmts" by (simp add: users_stmts_def)
  have ms: "mset (content d) = mset (map ?row (usersById m))" using assms(2) by (simp add: users_sim_def)
  obtain d1 where d1: "exec L ''BEGIN IMMEDIATE;'' d = (Inr (), d1)" "content d1 = content d" "saved d1 = Some (content d)"
    using begin_run [OF assms(1)] by blast
  let ?ys = "case map_of (usersById m) (uid i) of None \<Rightarrow> [] | Some u \<Rightarrow> [(uid i, u)]"
  have "length ?ys \<le> 1" by (simp split: option.split)
  then obtain d2 where d2: "step L users_fails_sql [SText (uid i)] d1
      = (Inr (map (\<lambda>x. map (field users_schema (?row x)) [''failed_attempts'', ''lockout_until'']) ?ys, SQLITE_DONE), d2)"
      "content d2 = content d" "saved d2 = Some (content d)"
    using key_step [OF st, of d1 ?row "usersById m" "SText (uid i)" ?ys] ms d1 users_match [OF assms(2), of "uid i"] by (auto simp: users_sql)
  have prep: "prepare L users_fails_sql d1 = (Inr SQLITE_OK, d1)" using prepare_ok [OF st, of d1] by (simp add: prepare_def users_sql)
  show ?thesis
  proof (cases "map_of (usersById m) (uid i)")
    case None
    have "\<exists>d'. (rollback_throw L (NotFoundException ''not found'') :: ('db, unit) sx) d2 = (Inl (NotFoundException ''not found''), d')
        \<and> content d' = content d \<and> saved d' = None" by (rule rollback_run [OF d2(3)])
    then show ?thesis using None d1 d2 prep p assms(2)
      by (auto simp: SqliteUser_recordLoginFailure_def bindS_def MemUser_recordLoginFailure_def MemUser_modify_def simp del: map_of_eq_None_iff)
  next
    case (Some u)
    let ?f = "failedAttempts u + 1"
    let ?l = "if ?f \<ge> 5 then now + 15 * 60 * 1000 else lockoutUntil u"
    have rg: "in_range ?f ?l" "in_range (failedAttempts u) (lockoutUntil u)"
      using assms(3) Some storable_known [OF assms(2) Some] by (auto simp: in_range_def storable_user_def)
    have run: "SqliteUser_recordLoginFailure L i now d = write_stmt L users_lock_sql [SInt ?f, SInt ?l, SText (uid i)]
        (\<lambda>_. RuntimeError ''update failed'') (checked_commit L ''no row updated'') d2"
      using Some d1 d2 prep p rg(2)
      by (simp add: SqliteUser_recordLoginFailure_def bindS_def Let_def column_def user_row_field int_ok int64_ok in_range_def)
    let ?sets = "[(''failed_attempts'', None), (''lockout_until'', None)] :: (string \<times> int option) list"
    have up: "Update ?sets ''id'' \<in> set users_stmts" "set (uniq users_schema) \<inter> fst ` set ?sets = {}"
      by (simp_all add: users_stmts_def users_schema_def)
    obtain d3 where d3: "SqliteUser_recordLoginFailure L i now d = checked_commit L ''no row updated'' d3" "saved d3 = Some (content d)"
      "content d3 = updated users_schema ?sets ''id'' ([SInt ?f, SInt ?l] @ [SText (uid i)]) (content d)"
      "sqlite3_changes L d3 = (if True then 1 else 0)"
      using update_run [OF up(1) d2(3) up(2), of "[SInt ?f, SInt ?l, SText (uid i)]" "\<lambda>_. RuntimeError ''update failed''" "checked_commit L ''no row updated''"]
        run matching_rows [OF ms, of users_schema "[''id'']" "[SText (uid i)]"] users_match [OF assms(2), of "uid i"] Some d2(2)
      by (auto simp: users_sql)
    have "users_sim (content d3) (snd (MemUser_modify (UserId (uid i)) (\<lambda>_. setLockout u ?l ?f) m))"
      unfolding d3(3) by (rule updated_user_sim [OF assms(2)])
        (use storable_known [OF assms(2) Some] rg(1) Some in \<open>simp add: assign_rows setLockout_storable setLockout_same\<close>)
    then have "if True then users_sim (content d3) (snd (MemUser_recordLoginFailure i now m)) else users_sim (content d) (snd (MemUser_recordLoginFailure i now m))"
      using Some by (simp add: MemUser_recordLoginFailure_def MemUser_modify_def login_failed_def Let_def)
    from checked_sim [OF d3(2,4) this, of "''no row updated''"] d3(1) Some show ?thesis by auto
  qed
qed

lemma reset_sim:
  assumes "saved d = None" "users_sim (content d) m" "plain_text (uid i)"
  shows "\<exists>d'. SqliteUser_resetLoginFailures L i d = (Inr (), d') \<and> saved d' = None
     \<and> users_sim (content d') (snd (MemUser_resetLoginFailures i m))"
proof -
  let ?sets = "[(''failed_attempts'', Some 0), (''lockout_until'', Some 0)] :: (string \<times> int option) list"
  have st: "Update ?sets ''id'' \<in> set users_stmts" "set (uniq users_schema) \<inter> fst ` set ?sets = {}"
    "length ([] :: sqlval list) = length (filter (\<lambda>(_, v). v = None) ?sets)" by (simp_all add: users_stmts_def users_schema_def)
  obtain d1 where d1: "SqliteUser_resetLoginFailures L i d = exec L ''COMMIT;'' d1" "saved d1 = Some (content d)"
    "content d1 = updated users_schema ?sets ''id'' ([] @ [SText (uid i)]) (content d)"
    using update_by_id [OF st assms(1,2), of "uid i" "\<lambda>_. RuntimeError ''reset failed''" "exec L ''COMMIT;''"] assms(3)
    by (auto simp: SqliteUser_resetLoginFailures_def users_sql)
  have "users_sim (content d1) (snd (MemUser_modify (UserId (uid i)) (\<lambda>u. setLockout u 0 0) m))"
    unfolding d1(3) by (rule updated_user_sim [OF assms(2)])
      (use storable_known [OF assms(2)] in \<open>simp add: assign_rows setLockout_storable setLockout_same in_range_def\<close>)
  then show ?thesis using commit_sim [OF d1(2)] d1(1) by (auto simp: MemUser_resetLoginFailures_def)
qed

lemma cmd_sim:
  assumes "saved d = None" "users_sim (content d) m" "storable_cmd m c"
  shows "\<exists>r d'. run_user_cmd (sqlite_users L) c d = (r, d') \<and> saved d' = None
     \<and> users_sim (content d') (snd (run_user_cmd memory_users c m))
     \<and> (isl r \<longleftrightarrow> isl (fst (run_user_cmd memory_users c m)) \<and> \<not> unnoticed m c)"
proof (cases c)
  case (LoginFailureTo i f until)
  then show ?thesis
    using lock_sim [OF assms(1,2), of i f until "\<lambda>_. RuntimeError ''update failed''" "''no row updated''"] assms(3)
    by (auto simp: sqlite_users_def memory_users_def SqliteUser_recordLoginFailureTo_def MemUser_recordLoginFailureTo_def MemUser_modify_def
        simp del: map_of_eq_None_iff split: option.splits)
next
  case (LoginFailure i now)
  then show ?thesis
    using failure_sim [OF assms(1,2), of i now] assms(3)
    by (auto simp: sqlite_users_def memory_users_def MemUser_recordLoginFailure_def MemUser_modify_def
        simp del: map_of_eq_None_iff split: option.splits)
next
  case (SaveUser u h)
  then show ?thesis using save_sim [OF assms(1,2)] assms(3) by (simp add: sqlite_users_def memory_users_def)
next
  case (UpdateUser u)
  then show ?thesis using update_sim [OF assms(1,2)] assms(3) by (simp add: sqlite_users_def memory_users_def)
next
  case (UpdateHash i h)
  then show ?thesis using hash_sim [OF assms(1,2), of i h] assms(3)
    by (auto simp: sqlite_users_def memory_users_def MemUser_updateHash_def)
next
  case (ResetFailures i)
  then show ?thesis using reset_sim [OF assms(1,2), of i] assms(3)
    by (auto simp: sqlite_users_def memory_users_def MemUser_resetLoginFailures_def MemUser_modify_def split: option.splits)
qed

end

context users_db
begin

lemma hash_lookup_sim:
  assumes "users_sim (content d) m" "plain_text (uid i)"
  shows "SqliteUser_getEncodedHash L i d = MemUser_getEncodedHash i m"
proof -
  let ?row = "\<lambda>(i, u). user_row u (hash_of m i)"
  let ?ys = "case map_of (usersById m) (uid i) of None \<Rightarrow> [] | Some u \<Rightarrow> [(uid i, u)]"
  have st: "Select [''pass_hash''] [''id''] \<in> set users_stmts" by (simp add: users_stmts_def)
  have inv: "mem_inv m" and ms: "mset (content d) = mset (map ?row (usersById m))" using assms(1) by (simp_all add: users_sim_def)
  have pl: "plain_text (hash_of m (uid i))" if "map_of (usersById m) (uid i) = Some u" for u
    using assms(1) that unfolding users_sim_def by (auto dest: map_of_SomeD)
  have rows: "rows_of L users_gethash_sql [SText (uid i)] d = map (\<lambda>x. map (field users_schema (?row x)) [''pass_hash'']) ?ys"
    using key_rows [OF st ms users_match [OF assms(1), of "uid i"]] by (simp add: users_sql split: option.splits)
  have "map_of (usersById m) (uid i) = None \<longleftrightarrow> map_of (hashById m) (uid i) = None"
    using mem_invD(7) [OF inv] by (metis domIff)
  with rows pl assms(2) show ?thesis
    by (cases "map_of (usersById m) (uid i)"; cases "map_of (hashById m) (uid i)")
       (auto simp: SqliteUser_getEncodedHash_def MemUser_getEncodedHash_def column_string_def column_def user_row_field text_ok
          simp del: map_of_eq_None_iff)
qed

lemma list_sim:
  assumes "users_sim (content d) m"
  shows "\<exists>l. SqliteUser_listAll L d = Inr l \<and> mset l = mset (map snd (usersById m))"
proof -
  let ?row = "\<lambda>(i, u). user_row u (hash_of m i)"
  let ?proj = "\<lambda>x. map (field users_schema (?row x)) user_columns"
  have st: "Select user_columns [] \<in> set users_stmts" by (simp add: users_stmts_def)
  have ms: "mset (content d) = mset (map ?row (usersById m))" using assms by (simp add: users_sim_def)
  have rs: "mset (rows_of L users_all_sql [] d) = mset (map ?proj (usersById m))"
    using select_rows [OF st, of "[]" d] selected_rows [OF ms, of users_schema user_columns "[]" "[]"]
    by (simp add: users_sql matches_def)
  have dec: "row_user L (?proj x) = Inr (snd x)" if x: "x \<in> set (usersById m)" for x
  proof -
    obtain i u where xu: "x = (i, u)" by (cases x) auto
    have "storable_user u" using assms x unfolding users_sim_def xu by auto
    then show ?thesis by (simp only: xu case_prod_conv row_user_row snd_conv)
  qed
  have mapE_all: "mapE f xs = Inr (map (\<lambda>x. projr (f x)) xs)" if "\<forall>x\<in>set xs. \<not> isl (f x)" for f :: "sqlval list \<Rightarrow> exn + User" and xs
    using that by (induction xs) (auto simp: bindE_def split: sum.splits)
  from mset_eq_setD [OF rs] have rset: "set (rows_of L users_all_sql [] d) = ?proj ` set (usersById m)" by (simp only: set_map)
  have good: "\<forall>x\<in>set (rows_of L users_all_sql [] d). \<not> isl (row_user L x)"
    unfolding rset by (rule ballI, erule imageE) (simp only: dec sum.disc simp_thms)
  have "mset (map (\<lambda>x. projr (row_user L x)) (rows_of L users_all_sql [] d)) = mset (map (\<lambda>x. projr (row_user L x)) (map ?proj (usersById m)))"
    by (simp only: mset_map rs)
  also have "map (\<lambda>x. projr (row_user L x)) (map ?proj (usersById m)) = map snd (usersById m)"
    unfolding map_map comp_def by (rule map_cong [OF refl]) (simp only: dec sum.sel)
  finally show ?thesis using mapE_all [OF good] by (simp add: SqliteUser_listAll_def)
qed

end

text \<open>Sequences of commands; a command that throws leaves the state it reached.\<close>

definition run_user_cmds :: "'r IUserRepository \<Rightarrow> user_cmd list \<Rightarrow> 'r \<Rightarrow> 'r" where
  "run_user_cmds R cs r = foldl (\<lambda>r c. snd (run_user_cmd R c r)) r cs"

fun storable_cmds :: "MemoryUserRepository \<Rightarrow> user_cmd list \<Rightarrow> bool" where
  "storable_cmds m [] \<longleftrightarrow> True"
| "storable_cmds m (c # cs) \<longleftrightarrow> storable_cmd m c \<and> storable_cmds (snd (run_user_cmd memory_users c m)) cs"

context users_db
begin

lemma cmds_sim:
  assumes "saved d = None" "users_sim (content d) m" "storable_cmds m cs"
  shows "saved (run_user_cmds (sqlite_users L) cs d) = None
     \<and> users_sim (content (run_user_cmds (sqlite_users L) cs d)) (run_user_cmds memory_users cs m)"
  using assms
proof (induction cs arbitrary: d m)
  case (Cons c cs)
  then obtain r d' where "run_user_cmd (sqlite_users L) c d = (r, d')" "saved d' = None"
    "users_sim (content d') (snd (run_user_cmd memory_users c m))" using cmd_sim [of d m c] by auto
  then show ?case using Cons.IH [of d' "snd (run_user_cmd memory_users c m)"] Cons.prems(3) by (simp add: run_user_cmds_def)
qed (simp add: run_user_cmds_def)

end

interpretation refusers: users_db "ref_sqlite users_schema users_stmts" rcontent rsaved
  unfolding users_db_def by (rule ref_engine) code_simp

interpretation reftx: transactional "ref_sqlite users_schema users_stmts"
  "\<lambda>d. case rsaved d of None \<Rightarrow> rcontent d | Some old \<Rightarrow> old" "\<lambda>d. rsaved d \<noteq> None"
  by (rule ref_transactional)

section \<open>Properties\<close>

text \<open>
  Over a database that works, the persistent user repository refines the in-memory one:
  after any sequence of commands on storable data, from an empty table, all three lookups,
  the password hash and the list of users are what the in-memory repository gives.
\<close>

theorem sqlite_users_refine_memory:
  fixes L :: "'db sqlite3"
  assumes "users_db L content saved" "saved d = None" "content d = []" "storable_cmds emptyMemoryUserRepository cs" "plain_text k"
  shows "let d' = run_user_cmds (sqlite_users L) cs d; m' = run_user_cmds memory_users cs emptyMemoryUserRepository
     in SqliteUser_findById L (UserId k) d' = MemUser_findById (UserId k) m'
        \<and> SqliteUser_findByUsername L k d' = MemUser_findByUsername k m' \<and> SqliteUser_findByEmail L k d' = MemUser_findByEmail k m'
        \<and> SqliteUser_getEncodedHash L (UserId k) d' = MemUser_getEncodedHash (UserId k) m'
        \<and> (\<exists>l l'. SqliteUser_listAll L d' = Inr l \<and> MemUser_listAll m' = Inr l' \<and> mset l = mset l')"
proof -
  let ?d = "run_user_cmds (sqlite_users L) cs d" and ?m = "run_user_cmds memory_users cs emptyMemoryUserRepository"
  have "users_sim (content d) emptyMemoryUserRepository"
    using assms(3) mem_inv_empty by (simp add: users_sim_def emptyMemoryUserRepository_def)
  then have sim: "users_sim (content ?d) ?m" using users_db.cmds_sim [OF assms(1,2) _ assms(4)] by blast
  show ?thesis
    using users_db.find_sim [OF assms(1) sim assms(5)] users_db.hash_lookup_sim [OF assms(1) sim, of "UserId k"] assms(5)
      users_db.list_sim [OF assms(1) sim]
    by (simp add: Let_def MemUser_listAll_def)
qed

text \<open>An example: register, fail a login five times, reset.\<close>

definition stored_user :: User where
  "stored_user = \<lparr>user_id = UserId ''1'', username = ''bob'', email = ''b@x'', role = ''user'', status = ''active'',
     failedAttempts = 0, lockoutUntil = 0\<rparr>"

definition stored_cmds :: "user_cmd list" where
  "stored_cmds = SaveUser stored_user ''h'' # SaveUser stored_user ''h'' # replicate 5 (LoginFailure (UserId ''1'') 1000)"

theorem sqlite_users_refine_memory_witness:
  "let L = ref_sqlite users_schema users_stmts; d' = run_user_cmds (sqlite_users L) stored_cmds empty_db
   in SqliteUser_findByUsername L ''bob'' d' = Inr (success (stored_user\<lparr>failedAttempts := 5, lockoutUntil := 901000\<rparr>))"
proof -
  have "storable_cmds emptyMemoryUserRepository stored_cmds" "plain_text ''bob''" by code_simp+
  moreover have "MemUser_findByUsername ''bob'' (run_user_cmds memory_users stored_cmds emptyMemoryUserRepository)
      = Inr (success (stored_user\<lparr>failedAttempts := 5, lockoutUntil := 901000\<rparr>))" by code_simp
  ultimately show ?thesis
    using sqlite_users_refine_memory [OF refusers.users_db_axioms, of empty_db stored_cmds "''bob''"]
    by (simp add: Let_def empty_db_def)
qed

end
