(* ===== verification/FileRepo.thy ===== *)
theory FileRepo
  imports UserRepo
begin

text \<open>
  The file repository port (\<^verbatim>\<open>include/ports/file_repository.hpp\<close>) with its laws and the
  in-memory implementation (\<^verbatim>\<open>memory_file_repo.cpp\<close>), the public key directory port
  (\<^verbatim>\<open>key_directory.hpp\<close>) with the in-memory directory (\<^verbatim>\<open>memory_pubkey_directory.cpp\<close>),
  the transfer repository port (\<^verbatim>\<open>transfer_repository.hpp\<close>) and the generic in-memory
  repository (\<^verbatim>\<open>memory_repo.hpp\<close>).
\<close>

section \<open>The ports\<close>

record 'f IFileRepository =
  saveFile :: "FileRecord \<Rightarrow> ('f, unit) sx"
  findFile :: "FileId \<Rightarrow> 'f \<Rightarrow> exn + FileRecord Result"
  findByOwner :: "UserId \<Rightarrow> 'f \<Rightarrow> exn + FileRecord list"
  existsUploadId :: "string \<Rightarrow> 'f \<Rightarrow> exn + bool"

record 'k IKeyDirectory =
  savePubkey :: "UserId \<Rightarrow> bytes \<Rightarrow> ('k, unit) sx"
  getPubkey :: "UserId \<Rightarrow> 'k \<Rightarrow> exn + bytes"
  keyExists :: "UserId \<Rightarrow> 'k \<Rightarrow> exn + bool"
  listKeys :: "'k \<Rightarrow> exn + UserId list"

record 't ITransferRepository =
  saveTransfer :: "Transfer \<Rightarrow> ('t, unit) sx"
  findTransfer :: "TransferId \<Rightarrow> 't \<Rightarrow> exn + Transfer Result"
  listTransfers :: "UserId \<Rightarrow> 't \<Rightarrow> exn + Transfer list"

section \<open>The in-memory file repository\<close>

record MemoryFileRepository =
  byId :: "(string \<times> FileRecord) list"
  uploadIdToId :: "(string \<times> string) list"
  storageIdToId :: "(string \<times> string) list"

definition emptyMemoryFileRepository :: MemoryFileRepository where
  "emptyMemoryFileRepository = \<lparr>byId = [], uploadIdToId = [], storageIdToId = []\<rparr>"

definition MemFile_save :: "FileRecord \<Rightarrow> (MemoryFileRepository, unit) sx" where
  "MemFile_save r m =
     (if fid (file_id r) = [] then (Inl (ValidationException ''id empty''), m)
      else if uploadId r = [] then (Inl (ValidationException ''uploadId empty''), m)
      else if storageId r = [] then (Inl (ValidationException ''storageId empty''), m)
      else if map_of (byId m) (fid (file_id r)) \<noteq> None then (Inl (ValidationException ''duplicate id''), m)
      else if map_of (uploadIdToId m) (uploadId r) \<noteq> None then (Inl (ValidationException ''duplicate upload_id''), m)
      else if map_of (storageIdToId m) (storageId r) \<noteq> None then (Inl (ValidationException ''duplicate storage_id''), m)
      else (Inr (), m\<lparr>byId := emplace (fid (file_id r)) r (byId m),
                      uploadIdToId := emplace (uploadId r) (fid (file_id r)) (uploadIdToId m),
                      storageIdToId := emplace (storageId r) (fid (file_id r)) (storageIdToId m)\<rparr>))"

definition MemFile_findById :: "FileId \<Rightarrow> MemoryFileRepository \<Rightarrow> exn + FileRecord Result" where
  "MemFile_findById i m = Inr
     (case map_of (byId m) (fid i) of None \<Rightarrow> failure ''not found'' | Some r \<Rightarrow> success r)"

definition MemFile_findByOwner :: "UserId \<Rightarrow> MemoryFileRepository \<Rightarrow> exn + FileRecord list" where
  "MemFile_findByOwner u m = Inr (filter (\<lambda>r. owner r = u) (map snd (byId m)))"

definition MemFile_existsUploadId :: "string \<Rightarrow> MemoryFileRepository \<Rightarrow> exn + bool" where
  "MemFile_existsUploadId x m = Inr (map_of (uploadIdToId m) x \<noteq> None)"

definition memory_files :: "MemoryFileRepository IFileRepository" where
  "memory_files = \<lparr>saveFile = MemFile_save, findFile = MemFile_findById,
     findByOwner = MemFile_findByOwner, existsUploadId = MemFile_existsUploadId\<rparr>"

section \<open>The in-memory key directory\<close>

record MemoryPubkeyDirectory =
  store :: "(string \<times> bytes) list"

definition MemKeys_savePubkey :: "UserId \<Rightarrow> bytes \<Rightarrow> (MemoryPubkeyDirectory, unit) sx" where
  "MemKeys_savePubkey u pub d =
     (if uid u = [] then (Inl (ValidationException ''user_id empty''), d)
      else if pub = [] then (Inl (ValidationException ''pubkey empty''), d)
      else if length pub \<noteq> 32 then (Inl (ValidationException ''pubkey must be 32 bytes''), d)
      else if map_of (store d) (uid u) \<noteq> None then (Inl (ValidationException ''duplicate user_id''), d)
      else (Inr (), d\<lparr>store := emplace (uid u) pub (store d)\<rparr>))"

definition MemKeys_getPubkey :: "UserId \<Rightarrow> MemoryPubkeyDirectory \<Rightarrow> exn + bytes" where
  "MemKeys_getPubkey u d =
     (if uid u = [] then Inl (ValidationException ''user_id empty'')
      else case map_of (store d) (uid u) of
             None \<Rightarrow> Inl (NotFoundException ''pubkey not found'')
           | Some k \<Rightarrow> Inr k)"

definition MemKeys_exists :: "UserId \<Rightarrow> MemoryPubkeyDirectory \<Rightarrow> exn + bool" where
  "MemKeys_exists u d = Inr (if uid u = [] then False else map_of (store d) (uid u) \<noteq> None)"

definition MemKeys_listAll :: "MemoryPubkeyDirectory \<Rightarrow> exn + UserId list" where
  "MemKeys_listAll d = Inr (map (\<lambda>(k, v). UserId k) (store d))"

definition memory_keys :: "MemoryPubkeyDirectory IKeyDirectory" where
  "memory_keys = \<lparr>savePubkey = MemKeys_savePubkey, getPubkey = MemKeys_getPubkey,
     keyExists = MemKeys_exists, listKeys = MemKeys_listAll\<rparr>"

section \<open>The generic in-memory repository\<close>

definition InMemoryRepo_save :: "('v \<Rightarrow> string) \<Rightarrow> 'v \<Rightarrow> (string \<times> 'v) list \<Rightarrow> (string \<times> 'v) list" where
  "InMemoryRepo_save key v m = AList.update (key v) v m"

definition InMemoryRepo_find :: "string \<Rightarrow> (string \<times> 'v) list \<Rightarrow> 'v Result" where
  "InMemoryRepo_find i m = (case map_of m i of None \<Rightarrow> failure ''not found'' | Some v \<Rightarrow> success v)"

section \<open>What the file repository promises\<close>

definition wf_files :: "(string \<Rightarrow> FileRecord option) \<Rightarrow> bool" where
  "wf_files fs \<longleftrightarrow>
     (\<forall>i r. fs i = Some r \<longrightarrow> fid (file_id r) = i \<and> i \<noteq> [] \<and> uploadId r \<noteq> [] \<and> storageId r \<noteq> [])
     \<and> (\<forall>i j q r. fs i = Some q \<and> fs j = Some r \<and> (uploadId q = uploadId r \<or> storageId q = storageId r) \<longrightarrow> i = j)"

definition insertable :: "FileRecord \<Rightarrow> (string \<Rightarrow> FileRecord option) \<Rightarrow> bool" where
  "insertable r fs \<longleftrightarrow> fid (file_id r) \<noteq> [] \<and> uploadId r \<noteq> [] \<and> storageId r \<noteq> []
     \<and> fs (fid (file_id r)) = None
     \<and> (\<forall>q\<in>ran fs. uploadId q \<noteq> uploadId r \<and> storageId q \<noteq> storageId r)"

locale file_repository =
  fixes F :: "'f IFileRepository" and finv :: "'f \<Rightarrow> bool" and files :: "'f \<Rightarrow> string \<Rightarrow> FileRecord option"
  assumes wf_files: "finv m \<Longrightarrow> wf_files (files m)"
    and save_new: "finv m \<Longrightarrow> insertable r (files m) \<Longrightarrow>
      \<exists>m'. saveFile F r m = (Inr (), m') \<and> finv m' \<and> files m' = (files m)(fid (file_id r) \<mapsto> r)"
    and save_bad: "finv m \<Longrightarrow> \<not> insertable r (files m) \<Longrightarrow> \<exists>x. saveFile F r m = (Inl (ValidationException x), m)"
    and findFile: "finv m \<Longrightarrow> findFile F i m = Inr (lookup (files m (fid i)))"
    and existsUploadId: "finv m \<Longrightarrow> existsUploadId F x m = Inr (x \<in> uploadId ` ran (files m))"

definition memfile_inv :: "MemoryFileRepository \<Rightarrow> bool" where
  "memfile_inv m \<longleftrightarrow>
     (\<forall>i r. map_of (byId m) i = Some r \<longrightarrow> fid (file_id r) = i \<and> i \<noteq> [] \<and> uploadId r \<noteq> [] \<and> storageId r \<noteq> [])
     \<and> (\<forall>x i. map_of (uploadIdToId m) x = Some i \<longleftrightarrow> (\<exists>r. map_of (byId m) i = Some r \<and> uploadId r = x))
     \<and> (\<forall>x i. map_of (storageIdToId m) x = Some i \<longleftrightarrow> (\<exists>r. map_of (byId m) i = Some r \<and> storageId r = x))"

definition mem_files :: "MemoryFileRepository \<Rightarrow> string \<Rightarrow> FileRecord option" where
  "mem_files m = map_of (byId m)"

lemma memfile_invD:
  assumes "memfile_inv m"
  shows "map_of (byId m) i = Some r \<Longrightarrow> fid (file_id r) = i \<and> i \<noteq> [] \<and> uploadId r \<noteq> [] \<and> storageId r \<noteq> []"
    and "map_of (byId m) i = Some r \<Longrightarrow> map_of (uploadIdToId m) (uploadId r) = Some i"
    and "map_of (byId m) i = Some r \<Longrightarrow> map_of (storageIdToId m) (storageId r) = Some i"
    and "map_of (uploadIdToId m) x = Some i \<Longrightarrow> \<exists>r. map_of (byId m) i = Some r \<and> uploadId r = x"
    and "map_of (storageIdToId m) x = Some i \<Longrightarrow> \<exists>r. map_of (byId m) i = Some r \<and> storageId r = x"
  using assms unfolding memfile_inv_def by blast+

lemma index_None:
  assumes "\<And>i r. map_of rs i = Some r \<Longrightarrow> map_of ix (f r) = Some i"
    "\<And>x i. map_of ix x = Some i \<Longrightarrow> \<exists>r. map_of rs i = Some r \<and> f r = x"
  shows "map_of ix x = None \<longleftrightarrow> x \<notin> f ` ran (map_of rs)"
proof (cases "map_of ix x")
  case None
  then have "f r \<noteq> x" if "map_of rs i = Some r" for i r using assms(1) [OF that] by auto
  then show ?thesis using None by (auto simp: ran_def)
next
  case (Some i)
  then obtain r where "map_of rs i = Some r" "f r = x" using assms(2) by blast
  then show ?thesis using Some by (auto simp: ran_def)
qed

lemma memfile_index:
  assumes "memfile_inv m"
  shows "map_of (uploadIdToId m) x = None \<longleftrightarrow> x \<notin> uploadId ` ran (mem_files m)"
    and "map_of (storageIdToId m) x = None \<longleftrightarrow> x \<notin> storageId ` ran (mem_files m)"
  unfolding mem_files_def
  by (rule index_None [where f = uploadId], use memfile_invD(2,4) [OF assms] in blast, use memfile_invD(2,4) [OF assms] in blast)
     (rule index_None [where f = storageId], use memfile_invD(3,5) [OF assms] in blast, use memfile_invD(3,5) [OF assms] in blast)

lemma MemFile_save_cases:
  assumes "memfile_inv m"
  shows "if insertable r (mem_files m)
     then MemFile_save r m = (Inr (), m\<lparr>byId := emplace (fid (file_id r)) r (byId m),
                      uploadIdToId := emplace (uploadId r) (fid (file_id r)) (uploadIdToId m),
                      storageIdToId := emplace (storageId r) (fid (file_id r)) (storageIdToId m)\<rparr>)
     else \<exists>x. MemFile_save r m = (Inl (ValidationException x), m)"
proof -
  have "insertable r (mem_files m) \<longleftrightarrow> fid (file_id r) \<noteq> [] \<and> uploadId r \<noteq> [] \<and> storageId r \<noteq> []
     \<and> map_of (byId m) (fid (file_id r)) = None \<and> map_of (uploadIdToId m) (uploadId r) = None
     \<and> map_of (storageIdToId m) (storageId r) = None"
    unfolding memfile_index [OF assms] insertable_def by (simp add: mem_files_def image_iff) metis
  then show ?thesis by (simp add: MemFile_save_def)
qed

lemma memfile_inv_insert:
  assumes "memfile_inv m" "insertable r (mem_files m)"
  shows "memfile_inv (m\<lparr>byId := emplace (fid (file_id r)) r (byId m),
                      uploadIdToId := emplace (uploadId r) (fid (file_id r)) (uploadIdToId m),
                      storageIdToId := emplace (storageId r) (fid (file_id r)) (storageIdToId m)\<rparr>)"
proof -
  have n: "map_of (byId m) (fid (file_id r)) = None" "map_of (uploadIdToId m) (uploadId r) = None"
    "map_of (storageIdToId m) (storageId r) = None" "fid (file_id r) \<noteq> []" "uploadId r \<noteq> []" "storageId r \<noteq> []"
    using assms(2) unfolding memfile_index [OF assms(1)] insertable_def by (auto simp: mem_files_def)
  moreover have "uploadId q \<noteq> uploadId r" "storageId q \<noteq> storageId r" if "map_of (byId m) i = Some q" for i q
    using memfile_invD(2,3) [OF assms(1) that] n by auto
  ultimately show ?thesis
    using assms(1) unfolding memfile_inv_def by (simp add: map_of_emplace)
qed

interpretation memfiles: file_repository memory_files memfile_inv mem_files
proof (unfold_locales, goal_cases)
  case (1 m)
  have "i = j" if "mem_files m i = Some q" "mem_files m j = Some r" "uploadId q = uploadId r \<or> storageId q = storageId r" for i j q r
    using memfile_invD(2,3) [OF 1, of i q] memfile_invD(2,3) [OF 1, of j r] that by (auto simp: mem_files_def)
  then show ?case using memfile_invD(1) [OF 1] unfolding wf_files_def mem_files_def by blast
next
  case (2 m r)
  then show ?case using MemFile_save_cases [OF 2(1), of r] memfile_inv_insert [OF 2]
    by (simp add: memory_files_def mem_files_def map_of_emplace insertable_def)
next
  case (3 m r)
  then show ?case using MemFile_save_cases [OF 3(1), of r] by (simp add: memory_files_def)
next
  case 4
  then show ?case by (simp add: memory_files_def MemFile_findById_def mem_files_def lookup_def)
next
  case (5 m x)
  then show ?case using memfile_index(1) [OF 5, of x] by (auto simp: memory_files_def MemFile_existsUploadId_def)
qed

locale key_directory =
  fixes K :: "'k IKeyDirectory" and keys :: "'k \<Rightarrow> string \<Rightarrow> bytes option"
  assumes keyExists: "keyExists K u d = Inr (uid u \<noteq> [] \<and> keys d (uid u) \<noteq> None)"
    and getPubkey: "uid u \<noteq> [] \<Longrightarrow> keys d (uid u) = Some k \<Longrightarrow> getPubkey K u d = Inr k"
    and savePubkey: "uid u \<noteq> [] \<Longrightarrow> length pub = 32 \<Longrightarrow> keys d (uid u) = None \<Longrightarrow>
      \<exists>d'. savePubkey K u pub d = (Inr (), d') \<and> keys d' = (keys d)(uid u \<mapsto> pub)"
    and savePubkey_bad: "uid u = [] \<or> length pub \<noteq> 32 \<or> keys d (uid u) \<noteq> None \<Longrightarrow>
      \<exists>e. savePubkey K u pub d = (Inl e, d)"

interpretation memkeys: key_directory memory_keys "\<lambda>d. map_of (store d)"
  by unfold_locales
     (auto simp: memory_keys_def MemKeys_exists_def MemKeys_getPubkey_def MemKeys_savePubkey_def map_of_emplace)

section \<open>Properties\<close>

text \<open>
  The in-memory file repository accepts a record exactly when its identifier, upload
  identifier and storage identifier are non-empty and all three unused; it then finds that
  record, knows its upload identifier, and has changed nothing else. Otherwise it throws
  and is unchanged. Either way its three maps stay consistent.
\<close>

theorem file_save_lookup:
  assumes "memfile_inv m"
  shows "if insertable r (mem_files m)
     then \<exists>m'. MemFile_save r m = (Inr (), m') \<and> memfile_inv m'
        \<and> MemFile_findById (file_id r) m' = Inr (success r) \<and> MemFile_existsUploadId (uploadId r) m' = Inr True
        \<and> mem_files m' = (mem_files m)(fid (file_id r) \<mapsto> r)
     else \<exists>x. MemFile_save r m = (Inl (ValidationException x), m)"
proof (cases "insertable r (mem_files m)")
  case True
  from memfiles.save_new [OF assms True] obtain m' where m': "MemFile_save r m = (Inr (), m')" "memfile_inv m'"
    "mem_files m' = (mem_files m)(fid (file_id r) \<mapsto> r)" by (auto simp: memory_files_def)
  have "r \<in> ran (mem_files m')" by (rule ranI [of _ "fid (file_id r)"]) (simp add: m'(3))
  then show ?thesis
    using True m' memfiles.existsUploadId [OF m'(2), of "uploadId r"] memfiles.findFile [OF m'(2), of "file_id r"]
    by (simp add: memory_files_def)
next
  case False
  then show ?thesis using memfiles.save_bad [OF assms] by (simp add: memory_files_def)
qed

theorem file_save_lookup_witness:
  "\<exists>m'. MemFile_save \<lparr>file_id = FileId ''f'', owner = UserId ''1'', origName = ''a.pdf'', storageId = ''s.bin'', fsize = 3,
       digest = Digest [], wrapped = emptyWrappedKey, recipient = UserId ''2'', uploadId = ''u'', fcreatedAt = 0\<rparr>
       emptyMemoryFileRepository = (Inr (), m') \<and> MemFile_existsUploadId ''u'' m' = Inr True"
  using file_save_lookup [of emptyMemoryFileRepository "\<lparr>file_id = FileId ''f'', owner = UserId ''1'', origName = ''a.pdf'',
       storageId = ''s.bin'', fsize = 3, digest = Digest [], wrapped = emptyWrappedKey, recipient = UserId ''2'',
       uploadId = ''u'', fcreatedAt = 0\<rparr>"]
  by (auto simp: memfile_inv_def emptyMemoryFileRepository_def mem_files_def insertable_def)

end
