(* ===== verification/SqliteFiles.thy ===== *)
theory SqliteFiles
  imports SqliteUsers FileRepo
begin

text \<open>
  The persistent file, transfer and public key repositories (\<^verbatim>\<open>sqlite_file_repo.cpp\<close>,
  \<^verbatim>\<open>sqlite_transfer_repo.cpp\<close>, \<^verbatim>\<open>recipient_pubkey_directory.cpp\<close>) over the SQLite
  interface: how records become rows and rows records again, and what a save leaves.
\<close>

section \<open>Conversions\<close>

definition digestToHex :: "Digest \<Rightarrow> string" where
  "digestToHex d = hex_string (dbytes d)"

text \<open>
  \<open>std::stoi(s, nullptr, 16)\<close>: white space, a sign and a \<open>0x\<close> that precedes a digit are
  skipped, the longest run of hexadecimal digits is read; no digit is an exception. Two
  characters cannot leave the range of \<open>int\<close>.
\<close>

definition stoi_hex :: "string \<Rightarrow> exn + int" where
  "stoi_hex s =
     (let t = dropWhile is_space s;
          neg = (t \<noteq> [] \<and> hd t = CHR ''-'');
          u = (if t \<noteq> [] \<and> (hd t = CHR ''-'' \<or> hd t = CHR ''+'') then tl t else t);
          v = (if length u \<ge> 3 \<and> take 2 u \<in> {''0x'', ''0X''} \<and> hex_val (u ! 2) \<noteq> None then drop 2 u else u);
          ds = takeWhile (\<lambda>c. hex_val c \<noteq> None) v;
          n = int (foldl (\<lambda>a c. 16 * a + the (hex_val c)) 0 ds)
      in if ds = [] then Inl (RuntimeError ''stoi'') else Inr (if neg then - n else n))"

definition hexToDigest :: "string \<Rightarrow> exn + Digest" where
  "hexToDigest s =
     (if length s \<noteq> 64 then Inr (Digest (replicate 32 0))
      else bindE (mapE (\<lambda>i. stoi_hex (take 2 (drop (i * 2) s))) [0..<32]) (\<lambda>ns. Inr (Digest (map word_of_int ns))))"

text \<open>\<open>std::stoll\<close>, where \<^const>\<open>None\<close> is the exception.\<close>

definition stoll :: "string \<Rightarrow> int option" where
  "stoll s =
     (let t = dropWhile is_space s;
          neg = (t \<noteq> [] \<and> hd t = CHR ''-'');
          u = (if t \<noteq> [] \<and> (hd t = CHR ''-'' \<or> hd t = CHR ''+'') then tl t else t);
          ds = takeWhile is_digit u;
          n = (if neg then - int (dec_val ds) else int (dec_val ds))
      in if ds = [] \<or> n < - (2 ^ 63) \<or> 2 ^ 63 \<le> n then None else Some n)"

section \<open>Files\<close>

definition files_table_sql :: string where
  "files_table_sql = ''CREATE TABLE IF NOT EXISTS files(id TEXT PRIMARY KEY, owner_id TEXT, recipient_id TEXT, orig_name TEXT, storage_id TEXT UNIQUE, size INTEGER, digest TEXT, wrapped_dek BLOB, nonce BLOB, upload_id TEXT UNIQUE, created_at TEXT);''"

definition files_insert_sql :: string where
  "files_insert_sql = ''INSERT INTO files(id, owner_id, recipient_id, orig_name, storage_id, size, digest, wrapped_dek, nonce, upload_id, created_at) VALUES(?,?,?,?,?,?,?,?,?,?,?);''"

definition files_byid_sql :: string where
  "files_byid_sql = ''SELECT id, owner_id, recipient_id, orig_name, storage_id, size, digest, wrapped_dek, nonce, upload_id, created_at FROM files WHERE id=?;''"

definition files_byowner_sql :: string where
  "files_byowner_sql = ''SELECT id, owner_id, recipient_id, orig_name, storage_id, size, digest, wrapped_dek, nonce, upload_id, created_at FROM files WHERE owner_id=?;''"

definition files_count_sql :: string where
  "files_count_sql = ''SELECT COUNT(*) FROM files WHERE upload_id=?;''"

definition SqliteFile_open :: "'db sqlite3 \<Rightarrow> 'db option \<Rightarrow> exn + 'db" where
  "SqliteFile_open L = open_db L files_table_sql"

text \<open>
  A blob is bound with its length cast to an \<open>int\<close>. SQLite leaves open what a negative length
  does; it is no byte here, and the records for which anything is claimed (\<open>storable_file\<close>)
  have shorter blobs.
\<close>

definition bind_blob :: "bytes \<Rightarrow> sqlval" where
  "bind_blob b = (if b \<noteq> [] then SBlob (take (nat (as_int (length b))) b) else SNull)"

definition SqliteFile_save :: "'db sqlite3 \<Rightarrow> FileRecord \<Rightarrow> ('db, unit) sx" where
  "SqliteFile_save L r =
     bindS (exec L ''BEGIN IMMEDIATE;'') (\<lambda>_.
     write_stmt L files_insert_sql
       [bind_text (fid (file_id r)), bind_text (uid (owner r)), bind_text (uid (recipient r)), bind_text (origName r),
        bind_text (storageId r), SInt (sint (fsize r)), bind_text (digestToHex (digest r)), bind_blob (wbytes (wrapped r)),
        bind_blob (nonce (wrapped r)), bind_text (uploadId r), bind_text (to_string (fcreatedAt r))]
       (\<lambda>rc. if rc = SQLITE_CONSTRAINT then ValidationException ''duplicate upload_id or storage_id or id'' else RuntimeError ''insert failed'')
       (checked_commit L ''no row inserted''))"

definition row_wrapped :: "UserId \<Rightarrow> bytes \<Rightarrow> bytes \<Rightarrow> WrappedKey" where
  "row_wrapped rid nb wb =
     (let direct = \<lparr>recipientId = rid, nonce = nb, wbytes = wb, alg = seal_alg\<rparr>
      in if nb \<noteq> [] \<or> wb \<noteq> []
         then if length nb = 12 \<and> wb \<noteq> []
              then (case mkWrappedKey rid nb wb seal_alg of Inr w \<Rightarrow> w | Inl _ \<Rightarrow> direct)
              else direct
         else emptyWrappedKey\<lparr>recipientId := rid\<rparr>)"

definition row_file :: "'db sqlite3 \<Rightarrow> sqlval list \<Rightarrow> exn + FileRecord" where
  "row_file L r =
     bindE (column_string L r 0) (\<lambda>i.
     let recip = UserId (column_string_or L '''' r 2) in
     bindE (hexToDigest (column_string_or L '''' r 6)) (\<lambda>dig.
     Inr \<lparr>file_id = FileId i, owner = UserId (column_string_or L '''' r 1), origName = column_string_or L '''' r 3,
          storageId = column_string_or L '''' r 4, fsize = word_of_int (sqlite3_column_int64 L (column r 5)), digest = dig,
          wrapped = row_wrapped recip (column_bytes L r 8) (column_bytes L r 7), recipient = recip,
          uploadId = column_string_or L '''' r 9,
          fcreatedAt = (case stoll (column_string_or L ''0'' r 10) of None \<Rightarrow> 0 | Some n \<Rightarrow> n)\<rparr>))"

definition SqliteFile_findById :: "'db sqlite3 \<Rightarrow> FileId \<Rightarrow> 'db \<Rightarrow> exn + FileRecord Result" where
  "SqliteFile_findById L i d =
     (if sqlite3_prepare_v2 L files_byid_sql d \<noteq> SQLITE_OK then Inr (failure ''prepare failed'')
      else case rows_of L files_byid_sql [bind_text (fid i)] d of
             [] \<Rightarrow> Inr (failure ''not found'')
           | r # _ \<Rightarrow> bindE (row_file L r) (\<lambda>f. Inr (success f)))"

definition SqliteFile_findByOwner :: "'db sqlite3 \<Rightarrow> UserId \<Rightarrow> 'db \<Rightarrow> exn + FileRecord list" where
  "SqliteFile_findByOwner L u d =
     (if sqlite3_prepare_v2 L files_byowner_sql d \<noteq> SQLITE_OK then Inr []
      else mapE (row_file L) (rows_of L files_byowner_sql [bind_text (uid u)] d))"

definition SqliteFile_existsUploadId :: "'db sqlite3 \<Rightarrow> string \<Rightarrow> 'db \<Rightarrow> exn + bool" where
  "SqliteFile_existsUploadId L x d =
     Inr (if sqlite3_prepare_v2 L files_count_sql d \<noteq> SQLITE_OK then False
          else case rows_of L files_count_sql [bind_text x] d of
                 [] \<Rightarrow> False
               | r # _ \<Rightarrow> sqlite3_column_int L (column r 0) > 0)"

definition sqlite_files :: "'db sqlite3 \<Rightarrow> 'db IFileRepository" where
  "sqlite_files L = \<lparr>saveFile = SqliteFile_save L, findFile = SqliteFile_findById L, findByOwner = SqliteFile_findByOwner L,
     existsUploadId = SqliteFile_existsUploadId L\<rparr>"

section \<open>Transfers\<close>

definition transfers_table_sql :: string where
  "transfers_table_sql = ''CREATE TABLE IF NOT EXISTS transfers(id TEXT PRIMARY KEY, file_id TEXT, sender TEXT, recipient TEXT, status TEXT, created_at TEXT, updated_at TEXT);''"

definition transfers_insert_sql :: string where
  "transfers_insert_sql = ''INSERT INTO transfers(id, file_id, sender, recipient, status, created_at, updated_at) VALUES(?,?,?,?,?,?,?);''"

definition transfers_byid_sql :: string where
  "transfers_byid_sql = ''SELECT id, file_id, sender, recipient, status, created_at, updated_at FROM transfers WHERE id=?;''"

definition transfers_for_sql :: string where
  "transfers_for_sql = ''SELECT id, file_id, sender, recipient, status FROM transfers WHERE sender=? OR recipient=?;''"

fun statusToString :: "TransferStatus \<Rightarrow> string" where
  "statusToString CREATED = ''CREATED''"
| "statusToString UPLOADED = ''UPLOADED''"
| "statusToString DOWNLOADED = ''DOWNLOADED''"
| "statusToString FAILED = ''FAILED''"

definition stringToStatus :: "string \<Rightarrow> TransferStatus" where
  "stringToStatus s =
     (if s = ''UPLOADED'' then UPLOADED else if s = ''DOWNLOADED'' then DOWNLOADED else if s = ''FAILED'' then FAILED else CREATED)"

definition SqliteTransfer_open :: "'db sqlite3 \<Rightarrow> 'db option \<Rightarrow> exn + 'db" where
  "SqliteTransfer_open L = open_db L transfers_table_sql"

definition SqliteTransfer_save :: "'db sqlite3 \<Rightarrow> Transfer \<Rightarrow> ('db, unit) sx" where
  "SqliteTransfer_save L t =
     bindS (exec L ''BEGIN IMMEDIATE;'') (\<lambda>_.
     write_stmt L transfers_insert_sql
       [bind_text (tid (transfer_id t)), bind_text (fid (tfile t)), bind_text (uid (sender t)), bind_text (uid (trecipient t)),
        bind_text (statusToString (tstatus t)), bind_text '''', bind_text '''']
       (\<lambda>rc. if rc = SQLITE_CONSTRAINT then ValidationException ''duplicate transfer id'' else RuntimeError ''insert failed'')
       (checked_commit L ''no row inserted''))"

definition row_transfer :: "'db sqlite3 \<Rightarrow> sqlval list \<Rightarrow> exn + Transfer" where
  "row_transfer L r =
     bindE (column_string L r 0) (\<lambda>i.
     bindE (column_string L r 1) (\<lambda>f.
     bindE (column_string L r 2) (\<lambda>s.
     bindE (column_string L r 3) (\<lambda>t.
     Inr \<lparr>transfer_id = TransferId i, tfile = FileId f, sender = UserId s, trecipient = UserId t,
          tstatus = stringToStatus (column_string_or L ''CREATED'' r 4)\<rparr>))))"

definition SqliteTransfer_findById :: "'db sqlite3 \<Rightarrow> TransferId \<Rightarrow> 'db \<Rightarrow> exn + Transfer Result" where
  "SqliteTransfer_findById L i d =
     (if sqlite3_prepare_v2 L transfers_byid_sql d \<noteq> SQLITE_OK then Inr (failure ''prepare failed'')
      else case rows_of L transfers_byid_sql [bind_text (tid i)] d of
             [] \<Rightarrow> Inr (failure ''not found'')
           | r # _ \<Rightarrow> bindE (row_transfer L r) (\<lambda>t. Inr (success t)))"

definition SqliteTransfer_listFor :: "'db sqlite3 \<Rightarrow> UserId \<Rightarrow> 'db \<Rightarrow> exn + Transfer list" where
  "SqliteTransfer_listFor L u d =
     (if sqlite3_prepare_v2 L transfers_for_sql d \<noteq> SQLITE_OK then Inr []
      else mapE (row_transfer L) (rows_of L transfers_for_sql [bind_text (uid u), bind_text (uid u)] d))"

definition sqlite_transfers :: "'db sqlite3 \<Rightarrow> 'db ITransferRepository" where
  "sqlite_transfers L = \<lparr>saveTransfer = SqliteTransfer_save L, findTransfer = SqliteTransfer_findById L,
     listTransfers = SqliteTransfer_listFor L\<rparr>"

section \<open>Public keys\<close>

definition keys_table_sql :: string where
  "keys_table_sql = ''CREATE TABLE IF NOT EXISTS recipient_pubkeys(user_id TEXT PRIMARY KEY, pubkey BLOB, alg TEXT, created_at TEXT);''"

definition keys_insert_sql :: string where
  "keys_insert_sql = ''INSERT INTO recipient_pubkeys(user_id, pubkey, alg, created_at) VALUES(?,?,?,?);''"

definition keys_get_sql :: string where
  "keys_get_sql = ''SELECT pubkey FROM recipient_pubkeys WHERE user_id=?;''"

definition keys_exists_sql :: string where
  "keys_exists_sql = ''SELECT 1 FROM recipient_pubkeys WHERE user_id=? LIMIT 1;''"

definition keys_all_sql :: string where
  "keys_all_sql = ''SELECT user_id FROM recipient_pubkeys;''"

definition SqliteKeys_open :: "'db sqlite3 \<Rightarrow> 'db option \<Rightarrow> exn + 'db" where
  "SqliteKeys_open L = open_db L keys_table_sql"

text \<open>The text of the current time is an argument.\<close>

definition SqliteKeys_savePubkey :: "'db sqlite3 \<Rightarrow> string \<Rightarrow> UserId \<Rightarrow> bytes \<Rightarrow> ('db, unit) sx" where
  "SqliteKeys_savePubkey L nowStr u pk =
     (if uid u = [] then throwS (ValidationException ''user_id empty'')
      else if length pk \<noteq> 32 then throwS (ValidationException ''pubkey must be 32 bytes'')
      else if pk = [] then throwS (ValidationException ''pubkey empty'')
      else bindS (exec L ''BEGIN IMMEDIATE;'') (\<lambda>_.
           write_stmt L keys_insert_sql [bind_text (uid u), SBlob pk, bind_text ''X25519-AES-GCM-Seal'', bind_text nowStr]
             (\<lambda>rc. if rc = SQLITE_CONSTRAINT then ValidationException ''duplicate user_id'' else RuntimeError ''insert failed'')
             (checked_commit L ''no row inserted'')))"

definition SqliteKeys_getPubkey :: "'db sqlite3 \<Rightarrow> UserId \<Rightarrow> 'db \<Rightarrow> exn + bytes" where
  "SqliteKeys_getPubkey L u d =
     (if uid u = [] then Inl (ValidationException ''user_id empty'')
      else if sqlite3_prepare_v2 L keys_get_sql d \<noteq> SQLITE_OK then Inl (RuntimeError ''prepare failed'')
      else case rows_of L keys_get_sql [bind_text (uid u)] d of
             [] \<Rightarrow> Inl (NotFoundException ''pubkey not found'')
           | r # _ \<Rightarrow> Inr (column_bytes L r 0))"

definition SqliteKeys_exists :: "'db sqlite3 \<Rightarrow> UserId \<Rightarrow> 'db \<Rightarrow> exn + bool" where
  "SqliteKeys_exists L u d =
     Inr (if uid u = [] then False
          else if sqlite3_prepare_v2 L keys_exists_sql d \<noteq> SQLITE_OK then False
          else rows_of L keys_exists_sql [bind_text (uid u)] d \<noteq> [])"

definition SqliteKeys_listAll :: "'db sqlite3 \<Rightarrow> 'db \<Rightarrow> exn + UserId list" where
  "SqliteKeys_listAll L d =
     Inr (if sqlite3_prepare_v2 L keys_all_sql d \<noteq> SQLITE_OK then []
          else concat (map (\<lambda>r. case sqlite3_column_text L (column r 0) of None \<Rightarrow> [] | Some s \<Rightarrow> [UserId (c_string s)])
                 (rows_of L keys_all_sql [] d)))"

definition sqlite_keys :: "'db sqlite3 \<Rightarrow> string \<Rightarrow> 'db IKeyDirectory" where
  "sqlite_keys L nowStr = \<lparr>savePubkey = SqliteKeys_savePubkey L nowStr, getPubkey = SqliteKeys_getPubkey L,
     keyExists = SqliteKeys_exists L, listKeys = SqliteKeys_listAll L\<rparr>"

section \<open>The conversions are faithful\<close>

lemma not_hex: "is_space c \<Longrightarrow> hex_val c = None" "hex_val (CHR ''-'') = None" "hex_val (CHR ''+'') = None" "hex_val (CHR 0x00) = None"
  by (auto simp: hex_val_def is_space_def Let_def)

lemma hex_digit_plain: "n < 16 \<Longrightarrow> \<not> is_space (hex_digit n) \<and> hex_digit n \<noteq> CHR ''-'' \<and> hex_digit n \<noteq> CHR ''+'' \<and> hex_digit n \<noteq> CHR 0x00"
  using hex_val_digit [of n] not_hex(1) [of "hex_digit n"] not_hex(2-4) by (metis option.distinct(1))

lemma stoi_hex_byte: "stoi_hex (hex_byte b) = Inr (uint b)"
proof -
  have b: "unat b div 16 < 16" "unat b mod 16 < 16" by simp_all
  have "int (16 * (unat b div 16) + unat b mod 16) = uint b" by (metis mult_div_mod_eq uint_nat)
  then show ?thesis
    using hex_digit_plain [OF b(1)] hex_val_digit [OF b(1)] hex_val_digit [OF b(2)]
    by (simp add: stoi_hex_def hex_byte_def Let_def)
qed

lemma hex_pair: "i < length bs \<Longrightarrow> take 2 (drop (i * 2) (hex_string bs)) = hex_byte (bs ! i)"
proof (induction bs arbitrary: i)
  case (Cons b bs)
  then show ?case by (cases i) (auto simp: hex_byte_def numeral_2_eq_2)
qed simp

lemma mapE_Inr: "(\<And>x. x \<in> set xs \<Longrightarrow> f x = Inr (g x)) \<Longrightarrow> mapE f xs = Inr (map g xs)"
  by (induction xs) (auto simp: bindE_def)

lemma hexToDigest_digestToHex:
  assumes "length (dbytes d) = 32"
  shows "hexToDigest (digestToHex d) = Inr d"
proof -
  have "mapE (\<lambda>i. stoi_hex (take 2 (drop (i * 2) (hex_string (dbytes d))))) [0..<32] = Inr (map (\<lambda>i. uint (dbytes d ! i)) [0..<32])"
    by (rule mapE_Inr) (simp add: assms hex_pair stoi_hex_byte)
  moreover have "map (\<lambda>i. word_of_int (uint (dbytes d ! i))) [0..<32] = dbytes d"
    by (rule nth_equalityI) (simp_all add: assms del: upt_rec_numeral)
  ultimately show ?thesis using assms by (simp add: hexToDigest_def digestToHex_def bindE_def comp_def)
qed

lemma stoll_to_string:
  assumes "- (2 ^ 63) \<le> n" "n < 2 ^ 63"
  shows "stoll (to_string n) = Some n"
proof -
  have tw: "takeWhile is_digit (dec_string k) = dec_string k" for k
    using dec_string_digits by (auto simp: takeWhile_eq_all_conv)
  have hd: "is_digit (hd (dec_string k))" for k using dec_string_digits [of _ k] by (cases "dec_string k") simp_all
  have "\<not> is_space (CHR ''-'')" by (simp add: is_space_def)
  moreover have "dropWhile is_space (dec_string k) = dec_string k" for k
    using is_digit_not_space [OF hd [of k]] by (cases "dec_string k") auto
  ultimately show ?thesis
    using assms is_digit_not_sign [OF hd]
    by (auto simp: stoll_def to_string_def Let_def tw dec_val_string)
qed

lemma plain_dec: "CHR 0x00 \<notin> set (dec_string n)"
  using dec_string_digits [of "CHR 0x00" n] by (auto simp: is_digit_def)

lemma plain_to_string: "CHR 0x00 \<notin> set (to_string n)"
  using plain_dec by (simp add: to_string_def)

lemma plain_digest: "CHR 0x00 \<notin> set (digestToHex d)"
proof
  assume "CHR 0x00 \<in> set (digestToHex d)"
  then obtain n where "n < 16" "CHR 0x00 = hex_digit n" unfolding digestToHex_def using set_hex_string by blast
  then show False using hex_digit_plain by metis
qed

section \<open>The file table\<close>

definition files_schema :: schema where
  "files_schema = \<lparr>table = ''files'',
     columns = [''id'', ''owner_id'', ''recipient_id'', ''orig_name'', ''storage_id'', ''size'', ''digest'', ''wrapped_dek'', ''nonce'',
       ''upload_id'', ''created_at''],
     uniq = [''id'', ''storage_id'', ''upload_id'']\<rparr>"

definition files_stmts :: "stmt list" where
  "files_stmts = [Insert (columns files_schema), Select (columns files_schema) [''id''], Select (columns files_schema) [''owner_id''], Count ''upload_id'']"

lemma files_sql:
  "files_insert_sql = sql_text (table files_schema) (Insert (columns files_schema))"
  "files_byid_sql = sql_text (table files_schema) (Select (columns files_schema) [''id''])"
  "files_byowner_sql = sql_text (table files_schema) (Select (columns files_schema) [''owner_id''])"
  "files_count_sql = sql_text (table files_schema) (Count ''upload_id'')"
  by code_simp+

definition file_row :: "FileRecord \<Rightarrow> sqlval list" where
  "file_row r = [SText (fid (file_id r)), SText (uid (owner r)), SText (uid (recipient r)), SText (origName r), SText (storageId r),
     SInt (sint (fsize r)), SText (digestToHex (digest r)), bind_blob (wbytes (wrapped r)), bind_blob (nonce (wrapped r)),
     SText (uploadId r), SText (to_string (fcreatedAt r))]"

text \<open>What a row keeps of a record: not the recipient and the algorithm named in the wrapped key.\<close>

definition stored_file :: "FileRecord \<Rightarrow> FileRecord" where
  "stored_file r = r\<lparr>wrapped := (wrapped r)\<lparr>recipientId := recipient r, alg := seal_alg\<rparr>\<rparr>"

text \<open>A wrapped key whose two blobs are within the length SQLite is told, and a record it stores as it is.\<close>

definition blob_sized :: "WrappedKey \<Rightarrow> bool" where
  "blob_sized w \<longleftrightarrow> length (wbytes w) < 2 ^ 31 \<and> length (nonce w) < 2 ^ 31"

lemma bind_blob_sized: "length b < 2 ^ 31 \<Longrightarrow> bind_blob b = (if b \<noteq> [] then SBlob b else SNull)"
  by (simp add: bind_blob_def as_int_small)

definition storable_file :: "FileRecord \<Rightarrow> bool" where
  "storable_file r \<longleftrightarrow> plain_text (fid (file_id r)) \<and> plain_text (uid (owner r)) \<and> plain_text (uid (recipient r)) \<and> plain_text (origName r)
     \<and> plain_text (storageId r) \<and> plain_text (uploadId r) \<and> length (dbytes (digest r)) = 32 \<and> blob_sized (wrapped r)
     \<and> - (2 ^ 63) \<le> fcreatedAt r \<and> fcreatedAt r < 2 ^ 63"

text \<open>The table holds the records of a list, no two of which share a unique column.\<close>

definition holds_files :: "FileRecord list \<Rightarrow> sqlval list list \<Rightarrow> bool" where
  "holds_files fs R \<longleftrightarrow> R = map file_row fs \<and> distinct (map file_id fs) \<and> distinct (map uploadId fs) \<and> list_all storable_file fs"

definition shares_id :: "FileRecord \<Rightarrow> FileRecord \<Rightarrow> bool" where
  "shares_id q r \<longleftrightarrow> file_id q = file_id r \<or> storageId q = storageId r \<or> uploadId q = uploadId r"

lemma file_row_field:
  "field files_schema (file_row r) ''id'' = SText (fid (file_id r))"
  "field files_schema (file_row r) ''owner_id'' = SText (uid (owner r))"
  "field files_schema (file_row r) ''storage_id'' = SText (storageId r)"
  "field files_schema (file_row r) ''upload_id'' = SText (uploadId r)"
  "map (field files_schema (file_row r)) (columns files_schema) = file_row r"
  by (simp_all add: field_def files_schema_def file_row_def)

lemma row_wrapped_stored: "row_wrapped (recipient r) (nonce (wrapped r)) (wbytes (wrapped r)) = wrapped (stored_file r)"
  by (auto simp: row_wrapped_def stored_file_def Let_def mkWrappedKey_def emptyWrappedKey_def)

lemma files_clash: "clashes files_schema (file_row r) (map file_row fs) \<longleftrightarrow> (\<exists>q\<in>set fs. shares_id q r)"
  unfolding clashes_def list_ex_iff
  by (simp add: files_schema_def [THEN arg_cong, of uniq] file_row_field sql_eq_def shares_id_def FileId.expand)
     (metis FileId.expand)

locale files_db = sql_engine L files_schema files_stmts content saved
  for L :: "'db sqlite3" and content :: "'db \<Rightarrow> sqlval list list" and saved :: "'db \<Rightarrow> sqlval list list option"
begin

lemma row_file_row:
  assumes "storable_file r"
  shows "row_file L (file_row r) = Inr (stored_file r)"
proof -
  have bl: "column_bytes L (file_row r) 8 = nonce (wrapped r)" "column_bytes L (file_row r) 7 = wbytes (wrapped r)"
    using assms by (simp_all add: column_bytes_def column_def file_row_def bind_blob_sized blob_ok blob_null storable_file_def blob_sized_def)
  have tx: "column_string L (file_row r) 0 = Inr (fid (file_id r))" "column_string_or L '''' (file_row r) 1 = uid (owner r)"
    "column_string_or L '''' (file_row r) 2 = uid (recipient r)" "column_string_or L '''' (file_row r) 3 = origName r"
    "column_string_or L '''' (file_row r) 4 = storageId r" "column_string_or L '''' (file_row r) 9 = uploadId r"
    "column_string_or L '''' (file_row r) 6 = digestToHex (digest r)" "column_string_or L ''0'' (file_row r) 10 = to_string (fcreatedAt r)"
    using assms plain_digest plain_to_string
    by (simp_all add: column_string_def column_string_or_def column_def file_row_def text_ok storable_file_def plain_text_def [of "digestToHex _"]
        plain_text_def [of "to_string _"])
  have "- (2 ^ 63) \<le> sint (fsize r)" "sint (fsize r) < 2 ^ 63" using sint_range_size [of "fsize r"] by (simp_all add: word_size)
  then have "sqlite3_column_int64 L (column (file_row r) 5) = sint (fsize r)" by (simp add: column_def file_row_def int64_ok)
  then show ?thesis
    using assms row_wrapped_stored [of r] bl tx
    by (simp add: row_file_def bindE_def Let_def hexToDigest_digestToHex storable_file_def stoll_to_string) (simp add: stored_file_def)
qed

lemma file_found:
  assumes "holds_files fs (content d)" "q \<in> set fs"
  shows "SqliteFile_findById L (file_id q) d = Inr (success (stored_file q))"
proof -
  have st: "Select (columns files_schema) [''id''] \<in> set files_stmts" by (simp add: files_stmts_def)
  have h: "content d = map file_row fs" "distinct (map file_id fs)" "storable_file q" "plain_text (fid (file_id q))"
    using assms by (auto simp: holds_files_def list_all_iff storable_file_def)
  have "filter (\<lambda>x. matches files_schema [''id''] [SText (fid (file_id q))] (file_row x)) fs = [q]"
    by (rule filter_one [of file_id, OF h(2) assms(2)])
       (simp_all add: matches_def file_row_field sql_eq_def FileId.expand)
  then have "rows_of L files_byid_sql [SText (fid (file_id q))] d = [file_row q]"
    using key_rows [OF st, of d file_row fs "SText (fid (file_id q))" "[q]"] h(1) by (simp add: files_sql file_row_field)
  then show ?thesis using prepare_ok [OF st, of d] h(4) row_file_row [OF h(3)]
    by (simp add: SqliteFile_findById_def files_sql bindE_def)
qed

lemma upload_known:
  assumes "holds_files fs (content d)" "plain_text x"
  shows "SqliteFile_existsUploadId L x d = Inr (x \<in> uploadId ` set fs)"
proof -
  have st: "Count ''upload_id'' \<in> set files_stmts" by (simp add: files_stmts_def)
  have h: "content d = map file_row fs" "distinct (map uploadId fs)" using assms by (auto simp: holds_files_def)
  let ?ys = "filter (\<lambda>q. uploadId q = x) fs"
  have len: "length ?ys = (if x \<in> uploadId ` set fs then 1 else 0)"
  proof (cases "x \<in> uploadId ` set fs")
    case True
    then obtain q where "q \<in> set fs" "uploadId q = x" by auto
    then have "?ys = [q]" by (intro filter_one [of uploadId, OF h(2)]) auto
    then show ?thesis using True by simp
  qed (auto simp: filter_empty_conv)
  have "length (filter (matches files_schema [''upload_id''] [SText x]) (content d)) = length ?ys"
    using matching_rows [of "content d" file_row fs files_schema "[''upload_id'']" "[SText x]"] h(1)
    by (simp add: matches_def file_row_field sql_eq_def)
  then have "rows_of L files_count_sql [SText x] d = [[SInt (int (length ?ys))]]"
    using count_ok [OF st, of "[SText x]" d] by (auto simp: rows_of_def files_sql step_run [OF st])
  then show ?thesis using prepare_ok [OF st, of d] assms(2) len
    by (simp add: SqliteFile_existsUploadId_def files_sql column_def int_ok)
qed

end

context sql_engine
begin

text \<open>Begin, insert one row, check the count and commit.\<close>

lemma insert_commit:
  assumes "Insert (columns sc) \<in> set S" "saved d = None" "length ps = length (columns sc)"
  shows "if clashes sc ps (content d)
     then \<exists>d'. bindS (exec L ''BEGIN IMMEDIATE;'') (\<lambda>_. write_stmt L (sql_text (table sc) (Insert (columns sc))) ps failed (checked_commit L msg)) d
          = (Inl (failed SQLITE_CONSTRAINT), d') \<and> content d' = content d \<and> saved d' = None
     else \<exists>d'. bindS (exec L ''BEGIN IMMEDIATE;'') (\<lambda>_. write_stmt L (sql_text (table sc) (Insert (columns sc))) ps failed (checked_commit L msg)) d
          = (Inr (), d') \<and> content d' = content d @ [ps] \<and> saved d' = None"
proof -
  obtain d1 where d1: "exec L ''BEGIN IMMEDIATE;'' d = (Inr (), d1)" "content d1 = content d" "saved d1 = Some (content d)"
    using begin_run [OF assms(2)] by blast
  note r = insert_run [OF assms(1) d1(3) assms(3), of failed "checked_commit L msg"]
  show ?thesis
  proof (cases "clashes sc ps (content d)")
    case True
    then show ?thesis using r d1 by (simp add: bindS_def)
  next
    case False
    then obtain d2 where d2: "write_stmt L (sql_text (table sc) (Insert (columns sc))) ps failed (checked_commit L msg) d1 = checked_commit L msg d2"
      "content d2 = content d @ [ps]" "saved d2 = Some (content d)" "sqlite3_changes L d2 = 1" using r d1(2) by auto
    then show ?thesis using False commit_run [OF d2(3)] d1(1) by (auto simp: bindS_def checked_commit_def)
  qed
qed

end

context transactional
begin

lemma saves_safe:
  "safe_run committed (SqliteFile_save L r)" "safe_run committed (SqliteTransfer_save L t)"
  "safe_run committed (SqliteKeys_savePubkey L now u k)"
proof -
  show "safe_run committed (SqliteFile_save L r)" "safe_run committed (SqliteTransfer_save L t)"
    unfolding SqliteFile_save_def SqliteTransfer_save_def by (intro safe_write_rules)+
  have "safe_run committed (throwS e :: ('db, unit) sx)" for e by (simp add: safe_run_def throwS_def)
  then show "safe_run committed (SqliteKeys_savePubkey L now u k)"
    unfolding SqliteKeys_savePubkey_def by (auto intro!: safe_write_rules)
qed

end

context files_db
begin

lemma file_saved:
  assumes "saved d = None" "holds_files fs (content d)" "storable_file r"
  shows "if \<exists>q\<in>set fs. shares_id q r
     then \<exists>d'. SqliteFile_save L r d = (Inl (ValidationException ''duplicate upload_id or storage_id or id''), d')
        \<and> content d' = content d \<and> saved d' = None
     else \<exists>d'. SqliteFile_save L r d = (Inr (), d') \<and> holds_files (fs @ [r]) (content d') \<and> saved d' = None"
proof -
  have ins: "Insert (columns files_schema) \<in> set files_stmts" "length (file_row r) = length (columns files_schema)"
    by (simp_all add: files_stmts_def file_row_def files_schema_def)
  have R: "content d = map file_row fs" using assms(2) by (simp add: holds_files_def)
  have row: "[bind_text (fid (file_id r)), bind_text (uid (owner r)), bind_text (uid (recipient r)), bind_text (origName r),
        bind_text (storageId r), SInt (sint (fsize r)), bind_text (digestToHex (digest r)), bind_blob (wbytes (wrapped r)),
        bind_blob (nonce (wrapped r)), bind_text (uploadId r), bind_text (to_string (fcreatedAt r))] = file_row r"
    using assms(3) plain_digest plain_to_string
    by (simp add: file_row_def storable_file_def plain_text_def [of "digestToHex _"] plain_text_def [of "to_string _"])
  let ?failed = "\<lambda>rc. if rc = SQLITE_CONSTRAINT then ValidationException ''duplicate upload_id or storage_id or id'' else RuntimeError ''insert failed''"
  note r = insert_commit [OF ins(1) assms(1) ins(2), where failed = ?failed and msg = "''no row inserted''",
      folded files_sql, unfolded R files_clash, folded R]
  show ?thesis
  proof (cases "\<exists>q\<in>set fs. shares_id q r")
    case True
    then show ?thesis unfolding SqliteFile_save_def row using r by simp
  next
    case False
    then have "holds_files (fs @ [r]) (content d @ [file_row r])"
      using assms(2,3) by (auto simp: holds_files_def shares_id_def)
    then show ?thesis using False r unfolding SqliteFile_save_def row by auto
  qed
qed

end

interpretation reffiles: files_db "ref_sqlite files_schema files_stmts" rcontent rsaved
  unfolding files_db_def by (rule ref_engine) code_simp

section \<open>The transfer and key tables\<close>

definition transfers_schema :: schema where
  "transfers_schema = \<lparr>table = ''transfers'',
     columns = [''id'', ''file_id'', ''sender'', ''recipient'', ''status'', ''created_at'', ''updated_at''], uniq = [''id'']\<rparr>"

definition transfers_stmts :: "stmt list" where
  "transfers_stmts = [Insert (columns transfers_schema), Select (columns transfers_schema) [''id''],
     Select [''id'', ''file_id'', ''sender'', ''recipient'', ''status''] [''sender'', ''recipient'']]"

lemma transfers_sql:
  "transfers_insert_sql = sql_text (table transfers_schema) (Insert (columns transfers_schema))"
  "transfers_byid_sql = sql_text (table transfers_schema) (Select (columns transfers_schema) [''id''])"
  "transfers_for_sql = sql_text (table transfers_schema)
     (Select [''id'', ''file_id'', ''sender'', ''recipient'', ''status''] [''sender'', ''recipient''])"
  by code_simp+

definition transfer_row :: "Transfer \<Rightarrow> sqlval list" where
  "transfer_row t = [SText (tid (transfer_id t)), SText (fid (tfile t)), SText (uid (sender t)), SText (uid (trecipient t)),
     SText (statusToString (tstatus t)), SText '''', SText '''']"

definition storable_transfer :: "Transfer \<Rightarrow> bool" where
  "storable_transfer t \<longleftrightarrow> plain_text (tid (transfer_id t)) \<and> plain_text (fid (tfile t)) \<and> plain_text (uid (sender t)) \<and> plain_text (uid (trecipient t))"

lemma transfer_row_field:
  "field transfers_schema (transfer_row t) ''id'' = SText (tid (transfer_id t))"
  "field transfers_schema (transfer_row t) ''sender'' = SText (uid (sender t))"
  "field transfers_schema (transfer_row t) ''recipient'' = SText (uid (trecipient t))"
  "map (field transfers_schema (transfer_row t)) (columns transfers_schema) = transfer_row t"
  "map (field transfers_schema (transfer_row t)) [''id'', ''file_id'', ''sender'', ''recipient'', ''status''] = take 5 (transfer_row t)"
  by (simp_all add: field_def transfers_schema_def transfer_row_def)

lemma status_roundtrip: "stringToStatus (statusToString s) = s" "plain_text (statusToString s)"
  by (cases s; simp add: stringToStatus_def plain_text_def)+

locale transfers_db = sql_engine L transfers_schema transfers_stmts content saved
  for L :: "'db sqlite3" and content :: "'db \<Rightarrow> sqlval list list" and saved :: "'db \<Rightarrow> sqlval list list option"
begin

lemma row_transfer_row:
  assumes "storable_transfer t"
  shows "row_transfer L (transfer_row t) = Inr t" "row_transfer L (take 5 (transfer_row t)) = Inr t"
  using assms status_roundtrip
  by (simp_all add: row_transfer_def column_string_def column_string_or_def column_def transfer_row_def text_ok bindE_def storable_transfer_def)

lemma transfer_saved:
  assumes "saved d = None" "content d = map transfer_row us" "storable_transfer t"
  shows "if transfer_id t \<in> transfer_id ` set us
     then \<exists>d'. SqliteTransfer_save L t d = (Inl (ValidationException ''duplicate transfer id''), d') \<and> content d' = content d \<and> saved d' = None
     else \<exists>d'. SqliteTransfer_save L t d = (Inr (), d') \<and> content d' = map transfer_row (us @ [t]) \<and> saved d' = None"
proof -
  have ins: "Insert (columns transfers_schema) \<in> set transfers_stmts" "length (transfer_row t) = length (columns transfers_schema)"
    by (simp_all add: transfers_stmts_def transfer_row_def transfers_schema_def)
  have "plain_text ''''" by (simp add: plain_text_def)
  then have row: "[bind_text (tid (transfer_id t)), bind_text (fid (tfile t)), bind_text (uid (sender t)), bind_text (uid (trecipient t)),
        bind_text (statusToString (tstatus t)), bind_text '''', bind_text ''''] = transfer_row t"
    using assms(3) status_roundtrip by (simp add: transfer_row_def storable_transfer_def)
  have clash: "clashes transfers_schema (transfer_row t) (content d) \<longleftrightarrow> transfer_id t \<in> transfer_id ` set us"
    unfolding assms(2) clashes_def list_ex_iff
    by (simp add: transfers_schema_def [THEN arg_cong, of uniq] transfer_row_field sql_eq_def image_iff) (metis TransferId.expand)
  let ?failed = "\<lambda>rc. if rc = SQLITE_CONSTRAINT then ValidationException ''duplicate transfer id'' else RuntimeError ''insert failed''"
  note r = insert_commit [OF ins(1) assms(1) ins(2), where failed = ?failed and msg = "''no row inserted''", folded transfers_sql, unfolded clash]
  show ?thesis unfolding SqliteTransfer_save_def row using r assms(2) by (simp split: if_splits)
qed

lemma transfer_listed:
  assumes "content d = map transfer_row us" "list_all storable_transfer us" "plain_text (uid u)"
  shows "\<exists>l. SqliteTransfer_listFor L u d = Inr l \<and> mset l = mset (filter (\<lambda>t. sender t = u \<or> trecipient t = u) us)"
proof -
  let ?cs = "[''id'', ''file_id'', ''sender'', ''recipient'', ''status'']" and ?P = "\<lambda>t. sender t = u \<or> trecipient t = u"
  have st: "Select ?cs [''sender'', ''recipient''] \<in> set transfers_stmts" by (simp add: transfers_stmts_def)
  let ?rs = "rows_of L transfers_for_sql [SText (uid u), SText (uid u)] d"
  have m: "matches transfers_schema [''sender'', ''recipient''] [SText (uid u), SText (uid u)] (transfer_row t) \<longleftrightarrow> ?P t" for t
    by (auto simp: matches_def transfer_row_field sql_eq_def UserId.expand)
  have "mset ?rs = mset (map (\<lambda>t. take 5 (transfer_row t)) (filter ?P us))"
    using select_rows [OF st, of "[SText (uid u), SText (uid u)]" d]
      selected_rows [of "content d" transfer_row us transfers_schema ?cs "[''sender'', ''recipient'']" "[SText (uid u), SText (uid u)]"] assms(1)
    unfolding transfers_sql transfer_row_field m by simp
  note rs = this
  have dec: "row_transfer L (take 5 (transfer_row t)) = Inr t" if "t \<in> set us" for t
    using row_transfer_row(2) [of t] assms(2) that by (auto simp: list_all_iff)
  let ?g = "\<lambda>x. projr (row_transfer L x)"
  have "row_transfer L x = Inr (?g x)" if "x \<in> set ?rs" for x
    using that dec mset_eq_setD [OF rs] by auto
  then have run: "mapE (row_transfer L) ?rs = Inr (map ?g ?rs)" by (rule mapE_Inr)
  have "mset (map ?g ?rs) = mset (map ?g (map (\<lambda>t. take 5 (transfer_row t)) (filter ?P us)))" by (simp only: mset_map rs)
  also have "map ?g (map (\<lambda>t. take 5 (transfer_row t)) (filter ?P us)) = filter ?P us"
    unfolding map_map comp_def by (rule map_idI) (use dec in auto)
  finally show ?thesis using run prepare_ok [OF st, of d] assms(3) by (simp add: SqliteTransfer_listFor_def transfers_sql)
qed

end

interpretation reftransfers: transfers_db "ref_sqlite transfers_schema transfers_stmts" rcontent rsaved
  unfolding transfers_db_def by (rule ref_engine) code_simp

definition keys_schema :: schema where
  "keys_schema = \<lparr>table = ''recipient_pubkeys'', columns = [''user_id'', ''pubkey'', ''alg'', ''created_at''], uniq = [''user_id'']\<rparr>"

definition keys_stmts :: "stmt list" where
  "keys_stmts = [Insert (columns keys_schema), Select [''pubkey''] [''user_id''], Exists ''user_id'', Select [''user_id''] []]"

lemma keys_sql:
  "keys_insert_sql = sql_text (table keys_schema) (Insert (columns keys_schema))"
  "keys_get_sql = sql_text (table keys_schema) (Select [''pubkey''] [''user_id''])"
  "keys_exists_sql = sql_text (table keys_schema) (Exists ''user_id'')"
  "keys_all_sql = sql_text (table keys_schema) (Select [''user_id''] [])"
  by code_simp+

text \<open>The table as a list of users with their keys and the time they were saved.\<close>

definition key_row :: "string \<times> bytes \<times> string \<Rightarrow> sqlval list" where
  "key_row = (\<lambda>(u, k, now). [SText u, SBlob k, SText ''X25519-AES-GCM-Seal'', SText now])"

definition holds_keys :: "(string \<times> bytes \<times> string) list \<Rightarrow> sqlval list list \<Rightarrow> bool" where
  "holds_keys ks R \<longleftrightarrow> R = map key_row ks \<and> distinct (map fst ks) \<and> list_all (\<lambda>(u, k, now). plain_text u \<and> length k = 32) ks"

lemma known_key: "map_of ks k \<noteq> None \<longleftrightarrow> (\<exists>x\<in>set ks. fst x = k)"
  unfolding map_of_eq_None_iff by (simp add: image_iff) (metis fst_conv prod.collapse)

lemma key_row_field:
  "field keys_schema (key_row x) ''user_id'' = SText (fst x)" "field keys_schema (key_row x) ''pubkey'' = SBlob (fst (snd x))"
  by (cases x; simp add: field_def keys_schema_def key_row_def)+

locale keys_db = sql_engine L keys_schema keys_stmts content saved
  for L :: "'db sqlite3" and content :: "'db \<Rightarrow> sqlval list list" and saved :: "'db \<Rightarrow> sqlval list list option"
begin

lemma key_lookup:
  assumes "holds_keys ks (content d)" "plain_text (uid u)" "uid u \<noteq> []"
  shows "SqliteKeys_getPubkey L u d = (case map_of ks (uid u) of None \<Rightarrow> Inl (NotFoundException ''pubkey not found'') | Some (k, _) \<Rightarrow> Inr k)"
    and "SqliteKeys_exists L u d = Inr (map_of ks (uid u) \<noteq> None)"
proof -
  have h: "content d = map key_row ks" "distinct (map fst ks)" "\<And>x k now. map_of ks x = Some (k, now) \<Longrightarrow> k \<noteq> []"
    using assms(1) by (fastforce simp: holds_keys_def list_all_iff dest: map_of_SomeD)+
  have m: "matches keys_schema [''user_id''] [SText (uid u)] (key_row x) \<longleftrightarrow> fst x = uid u" for x
    by (simp add: matches_def key_row_field sql_eq_def)
  have st: "Select [''pubkey''] [''user_id''] \<in> set keys_stmts" "Exists ''user_id'' \<in> set keys_stmts" by (simp_all add: keys_stmts_def)
  obtain rs d' where "sqlite3_steps L (sql_text (table keys_schema) (Exists ''user_id'')) [SText (uid u)] d = ((rs, SQLITE_DONE), d')"
    "rs \<noteq> [] \<longleftrightarrow> list_ex (matches keys_schema [''user_id''] [SText (uid u)]) (content d)"
    using exists_ok [OF st(2), of "[SText (uid u)]" d] by auto
  moreover have "list_ex (matches keys_schema [''user_id''] [SText (uid u)]) (content d) \<longleftrightarrow> map_of ks (uid u) \<noteq> None"
    unfolding h(1) known_key by (simp add: list_ex_iff m)
  ultimately show "SqliteKeys_exists L u d = Inr (map_of ks (uid u) \<noteq> None)"
    using prepare_ok [OF st(2), of d] assms(2,3) by (simp add: SqliteKeys_exists_def keys_sql rows_of_def step_run [OF st(2)])
  let ?ys = "case map_of ks (uid u) of None \<Rightarrow> [] | Some y \<Rightarrow> [(uid u, y)]"
  have "filter (\<lambda>x. matches keys_schema [''user_id''] [SText (uid u)] (key_row x)) ks = ?ys"
  proof (cases "map_of ks (uid u)")
    case None
    then have "fst x \<noteq> uid u" if "x \<in> set ks" for x using that by (metis map_of_eq_None_iff image_eqI)
    then show ?thesis unfolding m None by (simp add: filter_empty_conv)
  next
    case (Some y)
    have "filter (\<lambda>x. fst x = uid u) ks = [(uid u, y)]"
      by (rule filter_one [of fst, OF h(2)]) (use Some in \<open>auto dest: map_of_SomeD\<close>)
    then show ?thesis unfolding m Some by simp
  qed
  then have "rows_of L keys_get_sql [SText (uid u)] d = map (\<lambda>x. [SBlob (fst (snd x))]) ?ys"
    using key_rows [OF st(1), of d key_row ks "SText (uid u)" ?ys] h(1) by (simp add: keys_sql key_row_field split: option.splits)
  then show "SqliteKeys_getPubkey L u d = (case map_of ks (uid u) of None \<Rightarrow> Inl (NotFoundException ''pubkey not found'') | Some (k, _) \<Rightarrow> Inr k)"
    using prepare_ok [OF st(1), of d] assms(2,3) h(3) [of "uid u"]
    by (cases "map_of ks (uid u)") (auto simp: SqliteKeys_getPubkey_def keys_sql column_bytes_def column_def blob_ok split: prod.splits)
qed

lemma key_saved:
  assumes "saved d = None" "holds_keys ks (content d)" "plain_text (uid u)" "uid u \<noteq> []" "length k = 32" "plain_text now"
  shows "if map_of ks (uid u) \<noteq> None
     then \<exists>d'. SqliteKeys_savePubkey L now u k d = (Inl (ValidationException ''duplicate user_id''), d') \<and> content d' = content d \<and> saved d' = None
     else \<exists>d'. SqliteKeys_savePubkey L now u k d = (Inr (), d') \<and> holds_keys (ks @ [(uid u, k, now)]) (content d') \<and> saved d' = None"
proof -
  let ?row = "key_row (uid u, k, now)"
  have ins: "Insert (columns keys_schema) \<in> set keys_stmts" "length ?row = length (columns keys_schema)"
    by (simp_all add: keys_stmts_def key_row_def keys_schema_def)
  have "plain_text ''X25519-AES-GCM-Seal''" by (simp add: plain_text_def)
  then have row: "[bind_text (uid u), SBlob k, bind_text ''X25519-AES-GCM-Seal'', bind_text now] = ?row"
    using assms(3,6) by (simp add: key_row_def)
  have clash: "clashes keys_schema ?row (content d) \<longleftrightarrow> map_of ks (uid u) \<noteq> None"
    using assms(2) unfolding clashes_def list_ex_iff known_key
    by (simp add: keys_schema_def [THEN arg_cong, of uniq] key_row_field sql_eq_def holds_keys_def)
  have ne: "k \<noteq> []" using assms(5) by auto
  let ?failed = "\<lambda>rc. if rc = SQLITE_CONSTRAINT then ValidationException ''duplicate user_id'' else RuntimeError ''insert failed''"
  note r = insert_commit [OF ins(1) assms(1) ins(2), where failed = ?failed and msg = "''no row inserted''", folded keys_sql, unfolded clash]
  have "holds_keys (ks @ [(uid u, k, now)]) (content d @ [?row])" if "map_of ks (uid u) = None"
    using that assms(2,3,5) by (auto simp: holds_keys_def map_of_eq_None_iff)
  note hold = this
  show ?thesis
  proof (cases "map_of ks (uid u) = None")
    case True
    then show ?thesis unfolding SqliteKeys_savePubkey_def row using r assms(4,5) ne hold [OF True] by auto
  next
    case False
    then show ?thesis unfolding SqliteKeys_savePubkey_def row using r assms(4,5) ne by auto
  qed
qed

end

interpretation refkeys: keys_db "ref_sqlite keys_schema keys_stmts" rcontent rsaved
  unfolding keys_db_def by (rule ref_engine) code_simp

section \<open>Properties\<close>

text \<open>
  C12. The persistent repositories write all or nothing: whatever results the database
  returns to their calls, a write that throws has not changed what is committed. The
  hypothesis says only what a transaction is; every call may fail.
\<close>

theorem sqlite_writes_atomic:
  assumes "transactional L committed in_tx"
    "run_user_cmd (sqlite_users L) c d = (Inl e, d') \<or> SqliteFile_save L r d = (Inl e, d')
     \<or> SqliteTransfer_save L t d = (Inl e, d') \<or> SqliteKeys_savePubkey L now u k d = (Inl e, d')"
  shows "committed d' = committed d"
  using transactional.user_cmd_safe [OF assms(1), of c] transactional.saves_safe(1) [OF assms(1), of r]
    transactional.saves_safe(2) [OF assms(1), of t] transactional.saves_safe(3) [OF assms(1), of now u k] assms(2)
  unfolding safe_run_def by blast

theorem sqlite_writes_atomic_witness:
  "let L = ref_sqlite users_schema users_stmts; d = snd (SqliteUser_save L stored_user ''h'' empty_db);
       (r, d') = run_user_cmd (sqlite_users L) (SaveUser stored_user ''x'') d
   in isl r \<and> (case rsaved d' of None \<Rightarrow> rcontent d' | Some old \<Rightarrow> old) = [user_row stored_user ''h'']"
proof -
  let ?L = "ref_sqlite users_schema users_stmts"
  let ?d = "snd (SqliteUser_save ?L stored_user ''h'' empty_db)"
  have d: "(case rsaved ?d of None \<Rightarrow> rcontent ?d | Some old \<Rightarrow> old) = [user_row stored_user ''h'']" by code_simp
  have "isl (fst (run_user_cmd (sqlite_users ?L) (SaveUser stored_user ''x'') ?d))" by code_simp
  then obtain e d' where r: "run_user_cmd (sqlite_users ?L) (SaveUser stored_user ''x'') ?d = (Inl e, d')" by (metis isl_def prod.collapse)
  from sqlite_writes_atomic [OF reftx.transactional_axioms] r show ?thesis using r d by (fastforce simp: Let_def)
qed

text \<open>
  C33. A file record survives the database: saving it into a table that holds other records
  is refused, without effect, exactly if it shares an identifier, storage identifier or
  upload identifier with one of them. Otherwise every record, old and new, is found again
  with all its fields, the 64-bit size, the digest and the creation time included, except
  that the wrapped key names the record's recipient and the standard algorithm; and the
  upload identifiers known are exactly those of the records.
\<close>

theorem sqlite_file_roundtrip:
  assumes "files_db L content saved" "saved d = None" "holds_files fs (content d)" "storable_file r" "plain_text x"
  shows "if \<exists>q\<in>set fs. shares_id q r
     then \<exists>d'. SqliteFile_save L r d = (Inl (ValidationException ''duplicate upload_id or storage_id or id''), d') \<and> content d' = content d
     else \<exists>d'. SqliteFile_save L r d = (Inr (), d')
        \<and> (\<forall>q\<in>set (fs @ [r]). SqliteFile_findById L (file_id q) d' = Inr (success (stored_file q)))
        \<and> SqliteFile_existsUploadId L x d' = Inr (x \<in> uploadId ` set (fs @ [r]))"
proof (cases "\<exists>q\<in>set fs. shares_id q r")
  case True
  then show ?thesis using files_db.file_saved [OF assms(1-4)] by auto
next
  case False
  then obtain d' where d': "SqliteFile_save L r d = (Inr (), d')" "holds_files (fs @ [r]) (content d')"
    using files_db.file_saved [OF assms(1-4)] by auto
  then show ?thesis
    using False files_db.file_found [OF assms(1) d'(2)] files_db.upload_known [OF assms(1) d'(2) assms(5)] by auto
qed

definition stored_record :: "string \<Rightarrow> FileRecord" where
  "stored_record i = \<lparr>file_id = FileId i, owner = UserId ''1'', origName = ''a.pdf'', storageId = i @ ''.bin'', fsize = - 1,
     digest = Digest (replicate 32 200), wrapped = \<lparr>recipientId = UserId ''x'', nonce = replicate 12 1, wbytes = [7], alg = ''y''\<rparr>,
     recipient = UserId ''2'', uploadId = ''u'' @ i, fcreatedAt = - 5\<rparr>"

theorem sqlite_file_roundtrip_witness:
  "let L = ref_sqlite files_schema files_stmts; d = empty_db\<lparr>rcontent := [file_row (stored_record ''1'')]\<rparr>
   in \<exists>d'. SqliteFile_save L (stored_record ''2'') d = (Inr (), d')
        \<and> SqliteFile_findById L (FileId ''1'') d' = Inr (success (stored_file (stored_record ''1'')))
        \<and> SqliteFile_existsUploadId L ''u2'' d' = Inr True"
proof -
  let ?d = "empty_db\<lparr>rcontent := [file_row (stored_record ''1'')]\<rparr>"
  have "holds_files [stored_record ''1''] (rcontent ?d)"
    by (simp add: holds_files_def stored_record_def storable_file_def blob_sized_def plain_text_def)
  moreover have "storable_file (stored_record ''2'')" "plain_text ''u2''" "\<not> shares_id (stored_record ''1'') (stored_record ''2'')"
    by (simp_all add: stored_record_def storable_file_def blob_sized_def plain_text_def shares_id_def)
  ultimately show ?thesis
    using sqlite_file_roundtrip [OF reffiles.files_db_axioms, of ?d "[stored_record ''1'']" "stored_record ''2''" "''u2''"]
    by (auto simp: empty_db_def stored_record_def)
qed

text \<open>
  The persistent key directory: a 32-byte key is refused, without effect, exactly if the
  user has one already; otherwise it is stored, and every user's key is the one saved.
\<close>

theorem sqlite_key_roundtrip:
  assumes "keys_db L content saved" "saved d = None" "holds_keys ks (content d)" "plain_text (uid u)" "uid u \<noteq> []" "length k = 32"
    "plain_text now" "plain_text (uid v)" "uid v \<noteq> []"
  shows "if map_of ks (uid u) \<noteq> None
     then \<exists>d'. SqliteKeys_savePubkey L now u k d = (Inl (ValidationException ''duplicate user_id''), d') \<and> content d' = content d
     else \<exists>d'. SqliteKeys_savePubkey L now u k d = (Inr (), d')
        \<and> SqliteKeys_getPubkey L v d' = (case map_of (ks @ [(uid u, k, now)]) (uid v) of
             None \<Rightarrow> Inl (NotFoundException ''pubkey not found'') | Some (k', _) \<Rightarrow> Inr k')
        \<and> SqliteKeys_exists L v d' = Inr (map_of (ks @ [(uid u, k, now)]) (uid v) \<noteq> None)"
proof (cases "map_of ks (uid u) = None")
  case False
  then show ?thesis using keys_db.key_saved [OF assms(1-7)] by auto
next
  case True
  then obtain d' where d': "SqliteKeys_savePubkey L now u k d = (Inr (), d')" "holds_keys (ks @ [(uid u, k, now)]) (content d')"
    using keys_db.key_saved [OF assms(1-7)] by auto
  show ?thesis using True d'(1) keys_db.key_lookup [OF assms(1) d'(2) assms(8,9)] by (simp del: map_of_eq_None_iff)
qed

theorem sqlite_key_roundtrip_witness:
  "\<exists>d'. SqliteKeys_savePubkey (ref_sqlite keys_schema keys_stmts) ''t'' (UserId ''1'') (replicate 32 7) empty_db = (Inr (), d')
     \<and> SqliteKeys_getPubkey (ref_sqlite keys_schema keys_stmts) (UserId ''1'') d' = Inr (replicate 32 7)"
  using sqlite_key_roundtrip [OF refkeys.keys_db_axioms, of empty_db "[]" "UserId ''1''" "replicate 32 7" "''t''" "UserId ''1''"]
  by (auto simp: empty_db_def holds_keys_def plain_text_def)

end
