(* ===== verification/EntryPoints.thy ===== *)
theory EntryPoints
  imports TlsTrust ClientApp SqliteFiles
begin

text \<open>
  The two programs around the applications: the command line of \<^verbatim>\<open>server/main.cpp\<close> and
  \<^verbatim>\<open>client/main.cpp\<close>, and the part of \<^verbatim>\<open>ClientApp::run\<close> that connects before the menu starts.
\<close>

section \<open>Command lines\<close>

text \<open>\<open>std::stoi\<close> in base ten; an exception ends the program.\<close>

definition stoi :: "string \<Rightarrow> exn + int" where
  "stoi s =
     (let t = dropWhile is_space s;
          neg = (t \<noteq> [] \<and> hd t = CHR ''-'');
          u = (if t \<noteq> [] \<and> (hd t = CHR ''-'' \<or> hd t = CHR ''+'') then tl t else t);
          ds = takeWhile is_digit u;
          n = (if neg then - int (dec_val ds) else int (dec_val ds))
      in if ds = [] \<or> n < - (2 ^ 31) \<or> 2 ^ 31 \<le> n then Inl (RuntimeError ''stoi'') else Inr n)"

text \<open>The text of \<open>--help\<close>, or the port to listen on.\<close>

fun server_args :: "string list \<Rightarrow> 16 word \<Rightarrow> exn + (string + 16 word)" where
  "server_args [] port = Inr (Inr port)"
| "server_args [a] port = (if a = ''--help'' then Inr (Inl ''sft_server --port 5000'') else server_args [] port)"
| "server_args (a # v # as) port =
     (if a = ''--help'' then Inr (Inl ''sft_server --port 5000'')
      else if a = ''--port'' then bindE (stoi v) (\<lambda>n. server_args as (word_of_int n))
      else server_args (v # as) port)"

definition server_main :: "string list \<Rightarrow> exn + (string + 16 word)" where
  "server_main argv = server_args argv 5000"

fun client_args :: "string list \<Rightarrow> string \<Rightarrow> 16 word \<Rightarrow> exn + (string + string \<times> 16 word)" where
  "client_args [] ip port = Inr (Inr (ip, port))"
| "client_args [a] ip port = (if a = ''--help'' then Inr (Inl ''sft_client --server <ip> --port 5000'') else client_args [] ip port)"
| "client_args (a # v # as) ip port =
     (if a = ''--help'' then Inr (Inl ''sft_client --server <ip> --port 5000'')
      else if a = ''--server'' then client_args as v port
      else if a = ''--port'' then bindE (stoi v) (\<lambda>n. client_args as ip (word_of_int n))
      else client_args (v # as) ip port)"

definition client_main :: "string list \<Rightarrow> exn + (string + string \<times> 16 word)" where
  "client_main argv = client_args argv ''127.0.0.1'' 5000"

section \<open>The client application\<close>

text \<open>The handshake's outcome depends on the trust configuration; the exit code is 1 if it fails.\<close>

definition ClientApp_run ::
  "'x509 x509_lib \<Rightarrow> bytes option \<Rightarrow> bytes option \<Rightarrow> (TrustConfig \<Rightarrow> connect_outcome) \<Rightarrow> string \<Rightarrow> 16 word \<Rightarrow> 'w ITransport
   \<Rightarrow> (('pk, 'dc, 'cc) client_env \<times> command) list \<Rightarrow> ('w Client, int) sx" where
  "ClientApp_run X fopen1 fopen2 handshake ip port T cmds =
     bindS (catchS (bindS (getS (\<lambda>_. AsioTls_connect (handshake (client_trust X fopen1 fopen2)))) (\<lambda>_.
             bindS (printLine (Safe (''Connected to '' @ ip @ '':'' @ to_string (uint port) @ '' with TLS verify_peer''))) (\<lambda>_.
             retS True)))
       (\<lambda>e. bindS (printLine (Error (''TLS authentication failed: '' @ what e))) (\<lambda>_.
            bindS (printLine (Note (formatSafeAuthMessage ''TLS_FAIL'' ''''))) (\<lambda>_. retS False))))
       (\<lambda>connected. if connected then bindS (client_run T cmds) (\<lambda>_. retS 0) else retS 1)"

section \<open>Lemmas\<close>

lemma stoi_to_string:
  assumes "- (2 ^ 31) \<le> n" "n < 2 ^ 31"
  shows "stoi (to_string n) = Inr n"
proof -
  have "stoll (to_string n) = Some n" using assms by (intro stoll_to_string) simp_all
  then show ?thesis using assms unfolding stoll_def stoi_def Let_def by (auto split: if_splits)
qed

text \<open>A port out of range is not refused: it wraps to 16 bits.\<close>

lemma port_wraps: "- (2 ^ 31) \<le> n \<Longrightarrow> n < 2 ^ 31 \<Longrightarrow> server_main [''--port'', to_string n] = Inr (Inr (word_of_int n))"
  by (simp add: server_main_def stoi_to_string bindE_def)

text \<open>A client whose handshake fails sends nothing: its state on the wire is what it was.\<close>

lemma refused_untouched:
  assumes "handshake (client_trust X f1 f2) \<noteq> Connected"
  shows "\<exists>c'. ClientApp_run X f1 f2 handshake ip port T cmds c = (Inr 1, c') \<and> wire c' = wire c \<and> sessionToken c' = sessionToken c"
  using assms
  by (auto simp: ClientApp_run_def AsioTls_connect_def bindS_def catchS_def getS_def printLine_def retS_def split: connect_outcome.split)

end
