(* ===== verification/Sha256.thy ===== *)
theory Sha256
  imports Framing
begin

text \<open>
  The program's own SHA-256 (\<^verbatim>\<open>include/infrastructure/sha256.hpp\<close>), which hashes
  session tokens and chains the audit log: the bit functions on 32-bit words, the padding
  loop, the message schedule, the compression rounds and the hexadecimal output. The
  theory shows that the padding loop stops with the padding of FIPS 180-4 and is
  injective, that the in-place schedule is the recursion of the standard, and the shape
  of the result.
\<close>

section \<open>Definitions\<close>

definition ch :: "u32 \<Rightarrow> u32 \<Rightarrow> u32 \<Rightarrow> u32" where
  "ch x y z = (x AND y) XOR (NOT x AND z)"

definition maj :: "u32 \<Rightarrow> u32 \<Rightarrow> u32 \<Rightarrow> u32" where
  "maj x y z = (x AND y) XOR (x AND z) XOR (y AND z)"

definition rotr :: "u32 \<Rightarrow> nat \<Rightarrow> u32" where
  "rotr x n = drop_bit n x OR push_bit (32 - n) x"

definition bsig0 :: "u32 \<Rightarrow> u32" where
  "bsig0 x = rotr x 2 XOR rotr x 13 XOR rotr x 22"

definition bsig1 :: "u32 \<Rightarrow> u32" where
  "bsig1 x = rotr x 6 XOR rotr x 11 XOR rotr x 25"

definition ssig0 :: "u32 \<Rightarrow> u32" where
  "ssig0 x = rotr x 7 XOR rotr x 18 XOR drop_bit 3 x"

definition ssig1 :: "u32 \<Rightarrow> u32" where
  "ssig1 x = rotr x 17 XOR rotr x 19 XOR drop_bit 10 x"

definition K :: "u32 list" where
  "K = concat [
     [0x428a2f98, 0x71374491, 0xb5c0fbcf, 0xe9b5dba5, 0x3956c25b, 0x59f111f1, 0x923f82a4, 0xab1c5ed5],
     [0xd807aa98, 0x12835b01, 0x243185be, 0x550c7dc3, 0x72be5d74, 0x80deb1fe, 0x9bdc06a7, 0xc19bf174],
     [0xe49b69c1, 0xefbe4786, 0x0fc19dc6, 0x240ca1cc, 0x2de92c6f, 0x4a7484aa, 0x5cb0a9dc, 0x76f988da],
     [0x983e5152, 0xa831c66d, 0xb00327c8, 0xbf597fc7, 0xc6e00bf3, 0xd5a79147, 0x06ca6351, 0x14292967],
     [0x27b70a85, 0x2e1b2138, 0x4d2c6dfc, 0x53380d13, 0x650a7354, 0x766a0abb, 0x81c2c92e, 0x92722c85],
     [0xa2bfe8a1, 0xa81a664b, 0xc24b8b70, 0xc76c51a3, 0xd192e819, 0xd6990624, 0xf40e3585, 0x106aa070],
     [0x19a4c116, 0x1e376c08, 0x2748774c, 0x34b0bcb5, 0x391c0cb3, 0x4ed8aa4a, 0x5b9cca4f, 0x682e6ff3],
     [0x748f82ee, 0x78a5636f, 0x84c87814, 0x8cc70208, 0x90befffa, 0xa4506ceb, 0xbef9a3f7, 0xc67178f2]]"

definition H0 :: "u32 list" where
  "H0 = [0x6a09e667,0xbb67ae85,0x3c6ef372,0xa54ff53a,0x510e527f,0x9b05688c,0x1f83d9ab,0x5be0cd19]"

text \<open>The loop \<open>while((data.size()*8)%512 != 448) data.push_back(0)\<close>.\<close>

function pad_zeros :: "bytes \<Rightarrow> bytes" where
  "pad_zeros data = (if (length data * 8) mod 512 \<noteq> 448 then pad_zeros (data @ [0]) else data)"
  by pat_completeness auto
termination
proof (relation "measure (\<lambda>data. (120 - length data mod 64) mod 64)")
  fix data :: bytes
  assume ne: "(length data * 8) mod 512 \<noteq> 448"
  define m where "m = length data mod 64"
  have "(length data * 8) mod (64 * 8) = m * 8" unfolding m_def by (rule mod_mult_mult2)
  with ne have m: "m < 64" "m \<noteq> 56" by (auto simp: m_def)
  have s: "length (data @ [0]) mod 64 = (if m = 63 then 0 else m + 1)"
    by (simp add: m_def mod_Suc)
  have "(120 - (if m = 63 then 0 else m + 1)) mod 64 < (120 - m) mod 64"
  proof (cases "m < 56")
    case True
    then show ?thesis using le_mod_geq [of 64 "120 - m"] le_mod_geq [of 64 "120 - (m + 1)"] by simp
  next
    case False
    with m show ?thesis by (cases "m = 63") auto
  qed
  with s show "(data @ [0], data) \<in> measure (\<lambda>data. (120 - length data mod 64) mod 64)"
    by (simp add: m_def)
qed simp

declare pad_zeros.simps [simp del]

definition pad :: "bytes \<Rightarrow> bytes" where
  "pad msg =
     (let bitlen = word_of_nat (length msg) * 8 :: u64
      in pad_zeros (msg @ [0x80]) @ map (\<lambda>i. ucast (drop_bit (i * 8) bitlen AND 0xFF)) [7, 6, 5, 4, 3, 2, 1, 0])"

definition schedule :: "bytes \<Rightarrow> u32 list" where
  "schedule block =
     foldl (\<lambda>w i. w @ [ssig1 (w ! (i - 2)) + w ! (i - 7) + ssig0 (w ! (i - 15)) + w ! (i - 16)])
       (map (\<lambda>i. get32be block (i * 4)) [0..<16]) [16..<64]"

type_synonym regs = "u32 \<times> u32 \<times> u32 \<times> u32 \<times> u32 \<times> u32 \<times> u32 \<times> u32"

definition round1 :: "u32 list \<Rightarrow> regs \<Rightarrow> nat \<Rightarrow> regs" where
  "round1 w r i = (case r of (a, b, c, d, e, f, g, hh) \<Rightarrow>
     let t1 = hh + bsig1 e + ch e f g + K ! i + w ! i;
         t2 = bsig0 a + maj a b c
     in (t1 + t2, a, b, c, d + t1, e, f, g))"

definition compress :: "u32 list \<Rightarrow> bytes \<Rightarrow> u32 list" where
  "compress h block =
     (case foldl (round1 (schedule block)) (h!0, h!1, h!2, h!3, h!4, h!5, h!6, h!7) [0..<64] of
        (a, b, c, d, e, f, g, hh) \<Rightarrow>
          [h!0 + a, h!1 + b, h!2 + c, h!3 + d, h!4 + e, h!5 + f, h!6 + g, h!7 + hh])"

function chunks_loop :: "u32 list \<Rightarrow> bytes \<Rightarrow> u32 list" where
  "chunks_loop h data = (if data = [] then h else chunks_loop (compress h (take 64 data)) (drop 64 data))"
  by pat_completeness auto
termination
  by (relation "measure (\<lambda>(h, data). length data)") auto

declare chunks_loop.simps [simp del]

definition hash_bytes :: "string \<Rightarrow> bytes" where
  "hash_bytes msg =
     (let h = chunks_loop H0 (pad (bytes_of_string msg))
      in concat (map (\<lambda>i. put32be [] (h ! i)) [0..<8]))"

definition sha256_hex :: "string \<Rightarrow> string" where
  "sha256_hex s = hex_string (hash_bytes s)"

definition sha256_hex_bytes :: "bytes \<Rightarrow> string" where
  "sha256_hex_bytes v = sha256_hex (string_of_bytes v)"

section \<open>Lemmas\<close>

lemma mod64_cases:
  assumes "(m::nat) < 64" "k < 64"
  shows "(m + k) mod 64 = (if m + k < 64 then m + k else m + k - 64)"
  using assms by (simp add: le_mod_geq)

lemma mod64_shift: "((n::nat) + 8) mod 64 = 0 \<longleftrightarrow> n mod 64 = 56"
proof -
  have m: "n mod 64 < 64" by simp
  have "(n + 8) mod 64 = (n mod 64 + 8) mod 64" by (rule mod_add_left_eq [symmetric])
  also have "\<dots> = (if n mod 64 + 8 < 64 then n mod 64 + 8 else n mod 64 + 8 - 64)"
    by (rule mod64_cases [OF m]) simp
  finally show ?thesis using m by (auto split: if_splits)
qed

lemma mod64_unique:
  assumes "(n + j) mod 64 = (n + k) mod 64" "j < 64" "k < (64::nat)"
  shows "j = k"
proof -
  have m: "n mod 64 < 64" by simp
  have "(n mod 64 + j) mod 64 = (n mod 64 + k) mod 64"
    using assms(1) by (simp only: mod_add_left_eq)
  then show ?thesis using m assms(2,3) by (auto simp only: mod64_cases [OF m] split: if_splits)
qed

lemma pad_zeros_spec:
  "\<exists>k<64. pad_zeros data = data @ replicate k 0 \<and> (length data + k) mod 64 = 56"
proof (induction data rule: pad_zeros.induct)
  case (1 data)
  have m8: "(length data * 8) mod 512 = length data mod 64 * 8"
    using mod_mult_mult2 [of "length data" 8 64] by simp
  show ?case
  proof (cases "(length data * 8) mod 512 \<noteq> 448")
    case False
    then have "pad_zeros data = data @ replicate 0 0" "(length data + 0) mod 64 = 56"
      using m8 by (simp_all add: pad_zeros.simps [of data])
    then show ?thesis by (intro exI [of _ 0]) simp
  next
    case True
    then obtain k where k: "k < 64" "pad_zeros (data @ [0]) = (data @ [0]) @ replicate k 0"
      "(length (data @ [0]) + k) mod 64 = 56"
      using "1.IH" by blast
    have "k \<noteq> 63"
    proof
      assume "k = 63"
      with k(3) have "(length data + 64) mod 64 = 56" by simp
      with True m8 show False by simp
    qed
    moreover have "pad_zeros data = data @ replicate (Suc k) 0"
      using True k(2) by (simp add: pad_zeros.simps [of data])
    ultimately show ?thesis using k by (intro exI [of _ "Suc k"]) simp
  qed
qed

lemma pad_eq:
  obtains k where "k < 64" "(length msg + 1 + k) mod 64 = 56"
    "pad msg = msg @ [0x80] @ replicate k 0 @ put64be [] (word_of_nat (length msg) * 8)"
proof -
  obtain k where "k < 64" "pad_zeros (msg @ [0x80]) = (msg @ [0x80]) @ replicate k 0"
    "(length (msg @ [0x80]) + k) mod 64 = 56"
    using pad_zeros_spec by blast
  then show thesis by (intro that [of k]) (simp_all add: pad_def put64be_def Let_def)
qed

lemma length_compress [simp]: "length (compress h b) = 8"
  by (simp add: compress_def split: prod.split)

lemma length_chunks_loop: "length h = 8 \<Longrightarrow> length (chunks_loop h data) = 8"
proof (induction h data rule: chunks_loop.induct)
  case (1 h data)
  then show ?case by (subst chunks_loop.simps) simp
qed

lemma length_hash_bytes [simp]: "length (hash_bytes s) = 32"
  by (simp add: hash_bytes_def Let_def length_concat comp_def sum_list_triv)

lemma length_sha256_hex [simp]: "length (sha256_hex s) = 64"
  by (simp add: sha256_hex_def)

lemma sha256_hex_inj: "sha256_hex s = sha256_hex t \<longleftrightarrow> hash_bytes s = hash_bytes t"
  using hex_string_inj [of "hash_bytes s" "hash_bytes t"] by (auto simp: sha256_hex_def)

lemma rotr_word_rotr:
  assumes "0 < n" "n < 32"
  shows "rotr x n = word_rotr n x"
proof (rule bit_word_eqI)
  fix i assume "i < LENGTH(32)"
  then have i: "i < 32" by simp
  show "bit (rotr x n) i = bit (word_rotr n x) i"
  proof (cases "i + n < 32")
    case True
    then have "\<not> 32 - n \<le> i" by simp
    with True assms i show ?thesis by (simp add: rotr_def bit_simps add.commute)
  next
    case False
    then have "(i + n) mod 32 = i + n - 32" using assms i by (simp add: mod_if)
    moreover have "i - (32 - n) = i + n - 32" using False assms by simp
    moreover have "\<not> bit x (n + i)" using False bit_imp_le_length [of x "n + i"] by auto
    moreover have "32 - n \<le> i" using False by simp
    ultimately show ?thesis using False assms i by (simp add: rotr_def bit_simps)
  qed
qed

text \<open>The message schedule of FIPS 180-4, 6.2.2, as the recursion the standard gives.\<close>

fun W :: "bytes \<Rightarrow> nat \<Rightarrow> u32" where
  "W block t = (if t < 16 then get32be block (t * 4)
     else ssig1 (W block (t - 2)) + W block (t - 7) + ssig0 (W block (t - 15)) + W block (t - 16))"

declare W.simps [simp del]

lemma schedule_prefix:
  "n \<le> 48 \<Longrightarrow>
   foldl (\<lambda>w i. w @ [ssig1 (w ! (i - 2)) + w ! (i - 7) + ssig0 (w ! (i - 15)) + w ! (i - 16)])
       (map (\<lambda>i. get32be block (i * 4)) [0..<16]) [16..<16 + n] = map (W block) [0..<16 + n]"
proof (induction n)
  case 0
  show ?case by (simp add: W.simps)
next
  case (Suc n)
  have up: "[k..<16 + Suc n] = [k..<16 + n] @ [16 + n]" if "k \<le> 16" for k
    using that by (simp only: add_Suc_right upt_Suc) simp
  let ?L = "map (W block) [0..<16 + n]"
  let ?f = "\<lambda>w i. w @ [ssig1 (w ! (i - 2)) + w ! (i - 7) + ssig0 (w ! (i - 15)) + w ! (i - 16)]"
  have nth: "?L ! (16 + n - k) = W block (16 + n - k)" if "0 < k" for k
    using that by (subst nth_map) auto
  have step: "W block (16 + n) = ssig1 (W block (16 + n - 2)) + W block (16 + n - 7)
      + ssig0 (W block (16 + n - 15)) + W block (16 + n - 16)"
    by (subst W.simps) (simp only: not_add_less1 if_False)
  have "foldl ?f (map (\<lambda>i. get32be block (i * 4)) [0..<16]) [16..<16 + Suc n] = ?f ?L (16 + n)"
    using Suc by (simp only: up le_refl foldl_append foldl.simps Suc_leD)
  also have "\<dots> = ?L @ [W block (16 + n)]"
    by (simp only: nth zero_less_numeral step)
  also have "\<dots> = map (W block) [0..<16 + Suc n]" by (simp only: up zero_le map_append list.map)
  finally show ?case .
qed

lemma schedule_W: "schedule block = map (W block) [0..<64]"
proof -
  have "16 + 48 = (64 :: nat)" by simp
  then show ?thesis using schedule_prefix [of 48 block] by (simp only: schedule_def le_refl)
qed

section \<open>Properties\<close>

text \<open>
  C40. The padding loop of the hash stops after fewer than 64 steps with the padding of
  FIPS 180-4: one bit, the least number of zeros, and the 64-bit length, filling whole
  64-byte blocks. On messages below \<open>2^61\<close> bytes the padding is injective, so no two
  of them enter the compression rounds as the same blocks.
\<close>

theorem sha256_padding:
  "(\<exists>k<64. pad msg = msg @ [0x80] @ replicate k 0 @ put64be [] (word_of_nat (length msg) * 8)
        \<and> (\<forall>j<k. (length msg + 1 + j + 8) mod 64 \<noteq> 0))
   \<and> length (pad msg) mod 64 = 0
   \<and> (length msg < 2 ^ 61 \<and> length msg' < 2 ^ 61 \<and> pad msg = pad msg' \<longrightarrow> msg = msg')"
proof -
  obtain k where k: "k < 64" "(length msg + 1 + k) mod 64 = 56"
    "pad msg = msg @ [0x80] @ replicate k 0 @ put64be [] (word_of_nat (length msg) * 8)"
    by (rule pad_eq)
  have least: "(length msg + 1 + j + 8) mod 64 \<noteq> 0" if "j < k" for j
    using k mod64_shift [of "length msg + 1 + j"] mod64_unique [of "length msg + 1" j k] that by auto
  have "(length msg + 1 + k + 8) mod 64 = 0" using k(2) mod64_shift by blast
  then have blocks: "length (pad msg) mod 64 = 0" using k(3) by (simp add: ac_simps)
  have "msg = msg'" if "length msg < 2 ^ 61" "length msg' < 2 ^ 61" "pad msg = pad msg'"
  proof -
    obtain k' where k': "pad msg' = msg' @ [0x80] @ replicate k' 0 @ put64be [] (word_of_nat (length msg') * 8)"
      by (rule pad_eq)
    have "put64be [] (word_of_nat (length msg) * 8) = put64be [] (word_of_nat (length msg') * 8)"
      using arg_cong [OF that(3), of "\<lambda>x. drop (length x - 8) x"] by (simp add: k(3) k')
    then have "word_of_nat (length msg) * 8 = (word_of_nat (length msg') * 8 :: u64)"
      by (metis append_Nil2 get64be_put64be)
    then have "word_of_nat (length msg * 8) = (word_of_nat (length msg' * 8) :: u64)" by simp
    then have "unat (word_of_nat (length msg * 8) :: u64) = unat (word_of_nat (length msg' * 8) :: u64)"
      by (rule arg_cong)
    then have "length msg = length msg'"
      using that(1,2) by (simp add: unat_word_of_nat_less del: of_nat_mult)
    then show ?thesis using that(3) by (simp add: k(3) k')
  qed
  with k least blocks show ?thesis by blast
qed

theorem sha256_padding_witness:
  "pad [1] \<noteq> pad [2] \<and> length (pad [1]) mod 64 = 0"
  using sha256_padding [of "[1]" "[2]"] by force

end
