(* ===== verification/Sessions.thy ===== *)
theory Sessions
  imports Domain Sha256 "HOL-Library.AList"
begin

text \<open>
  The session store port (\<^verbatim>\<open>include/ports/session_store.hpp\<close>), its laws as the locale
  \<open>session_store\<close>, and the in-memory store (\<^verbatim>\<open>src/infrastructure/memory_session_store.cpp\<close>),
  which keeps sessions under the SHA-256 of their token. Two tokens with one hash share
  one entry; the laws say so instead of assuming that it cannot happen.
\<close>

section \<open>The port\<close>

record 's ISessionStore =
  createForUser :: "random_device \<Rightarrow> UserId \<Rightarrow> int \<Rightarrow> ('s, SessionId) sx"
  findByToken :: "SessionId \<Rightarrow> 's \<Rightarrow> Session Result"
  invalidate :: "SessionId \<Rightarrow> ('s, bool) sx"
  invalidateAllForUser :: "UserId \<Rightarrow> ('s, nat) sx"
  isValid :: "SessionId \<Rightarrow> int \<Rightarrow> 's \<Rightarrow> bool"
  userFor :: "SessionId \<Rightarrow> 's \<Rightarrow> exn + UserId"

section \<open>The in-memory store\<close>

record MemorySessionStore =
  byHash :: "(string \<times> Session) list"
  userByHash :: "(string \<times> string) list"

definition emptyMemorySessionStore :: MemorySessionStore where
  "emptyMemorySessionStore = \<lparr>byHash = [], userByHash = []\<rparr>"

definition hashToken :: "string \<Rightarrow> string" where
  "hashToken t = sha256_hex t"

definition session_ms :: int where
  "session_ms = 3600 * 1000"

definition MemSess_createForUser :: "random_device \<Rightarrow> UserId \<Rightarrow> int \<Rightarrow> (MemorySessionStore, SessionId) sx" where
  "MemSess_createForUser rd u now s =
     (let buf = map (rd_byte rd) [0..<32];
          raw = concat (map hex_byte buf);
          token = ''sess_'' @ raw;
          h = hashToken token
      in case mkSession (SessionId token) u now (now + session_ms) False of
           Inl e \<Rightarrow> (Inl e, s)
         | Inr x \<Rightarrow> (Inr (SessionId token),
                     s\<lparr>byHash := AList.update h x (byHash s),
                       userByHash := AList.update h (uid u) (userByHash s)\<rparr>))"

definition MemSess_findByToken :: "SessionId \<Rightarrow> MemorySessionStore \<Rightarrow> Session Result" where
  "MemSess_findByToken t s =
     (let h = hashToken (sid t)
      in case map_of (byHash s) h of None \<Rightarrow> failure ''not found'' | Some x \<Rightarrow> success x)"

definition MemSess_invalidate :: "SessionId \<Rightarrow> (MemorySessionStore, bool) sx" where
  "MemSess_invalidate t s =
     (let h = hashToken (sid t)
      in case map_of (byHash s) h of
           None \<Rightarrow> (Inr False, s)
         | Some x \<Rightarrow> (Inr True, s\<lparr>byHash := AList.update h (x\<lparr>revoked := True\<rparr>) (byHash s)\<rparr>))"

text \<open>The loop over the entries, with its counter.\<close>

primrec revoke_loop :: "UserId \<Rightarrow> (string \<times> Session) list \<Rightarrow> nat \<Rightarrow> nat \<times> (string \<times> Session) list" where
  "revoke_loop u [] n = (n, [])"
| "revoke_loop u (p # ps) n =
     (case p of (h, s) \<Rightarrow>
        if userId s = u \<and> \<not> revoked s
        then (case revoke_loop u ps (n + 1) of (m, qs) \<Rightarrow> (m, (h, s\<lparr>revoked := True\<rparr>) # qs))
        else (case revoke_loop u ps n of (m, qs) \<Rightarrow> (m, (h, s) # qs)))"

definition MemSess_invalidateAllForUser :: "UserId \<Rightarrow> (MemorySessionStore, nat) sx" where
  "MemSess_invalidateAllForUser u s =
     (case revoke_loop u (byHash s) 0 of (n, ps) \<Rightarrow> (Inr n, s\<lparr>byHash := ps\<rparr>))"

definition MemSess_isValid :: "SessionId \<Rightarrow> int \<Rightarrow> MemorySessionStore \<Rightarrow> bool" where
  "MemSess_isValid t now s =
     (case got (MemSess_findByToken t s) of None \<Rightarrow> False | Some x \<Rightarrow> session_isValid x now)"

definition MemSess_userFor :: "SessionId \<Rightarrow> MemorySessionStore \<Rightarrow> exn + UserId" where
  "MemSess_userFor t s =
     (case got (MemSess_findByToken t s) of
        None \<Rightarrow> Inl (AuthException ''Login failed'')
      | Some x \<Rightarrow> Inr (userId x))"

definition memory_sessions :: "MemorySessionStore ISessionStore" where
  "memory_sessions =
     \<lparr>createForUser = MemSess_createForUser, findByToken = MemSess_findByToken,
      invalidate = MemSess_invalidate, invalidateAllForUser = MemSess_invalidateAllForUser,
      isValid = MemSess_isValid, userFor = MemSess_userFor\<rparr>"

section \<open>What the port promises\<close>

definition revoke :: "Session \<Rightarrow> Session" where
  "revoke x = x\<lparr>revoked := True\<rparr>"

definition new_session :: "SessionId \<Rightarrow> UserId \<Rightarrow> int \<Rightarrow> Session" where
  "new_session t u now =
     \<lparr>session_id = t, userId = u, createdAt = now, expiresAt = now + session_ms, revoked = False\<rparr>"

lemma revoke_fields [simp]: "userId (revoke x) = userId x" "revoked (revoke x)" "\<not> session_isValid (revoke x) now"
  "createdAt (revoke x) = createdAt x" "expiresAt (revoke x) = expiresAt x" "session_id (revoke x) = session_id x"
  by (simp_all add: revoke_def session_isValid_def)

lemma new_session_fields [simp]: "userId (new_session t u now) = u" "\<not> revoked (new_session t u now)"
  "session_id (new_session t u now) = t" "createdAt (new_session t u now) = now"
  "expiresAt (new_session t u now) = now + session_ms"
  "session_isValid (new_session t u now) x \<longleftrightarrow> now \<le> x \<and> x < now + session_ms"
  by (auto simp: new_session_def session_isValid_def)

locale session_store =
  fixes S :: "'s ISessionStore"
    and sess :: "'s \<Rightarrow> SessionId \<Rightarrow> Session option"
  assumes findByToken: "got (findByToken S t s) = sess s t"
    and isValid: "isValid S t now s \<longleftrightarrow> (case sess s t of None \<Rightarrow> False | Some x \<Rightarrow> session_isValid x now)"
    and userFor: "userFor S t s = (case sess s t of None \<Rightarrow> Inl (AuthException ''Login failed'') | Some x \<Rightarrow> Inr (userId x))"
    and create: "\<exists>s'. createForUser S rd u now s = (Inr (generateSessionId rd), s')
       \<and> sess s' (generateSessionId rd) = Some (new_session (generateSessionId rd) u now)
       \<and> (\<forall>t. sess s' t = sess s t \<or> sess s' t = Some (new_session (generateSessionId rd) u now))"
    and invalidate_hit: "sess s t = Some x \<Longrightarrow> \<exists>s'. invalidate S t s = (Inr True, s') \<and> sess s' t = Some (revoke x)
       \<and> (\<forall>t'. sess s' t' = sess s t' \<or> sess s' t' = map_option revoke (sess s t'))"
    and invalidate_miss: "sess s t = None \<Longrightarrow> invalidate S t s = (Inr False, s)"
    and invalidateAll: "\<exists>n s'. invalidateAllForUser S u s = (Inr n, s')
       \<and> (\<forall>t. sess s' t = map_option (\<lambda>x. if userId x = u then revoke x else x) (sess s t))"
begin

lemma isValid_iff: "isValid S t now s \<longleftrightarrow> (\<exists>x. sess s t = Some x \<and> session_isValid x now)"
  by (simp add: isValid split: option.split)

lemma invalidate_revokes:
  "\<exists>b s'. invalidate S t s = (Inr b, s') \<and> \<not> isValid S t now s' \<and> (b \<longleftrightarrow> sess s t \<noteq> None)
     \<and> (\<forall>t' x. isValid S t' x s' \<longrightarrow> isValid S t' x s)"
proof (cases "sess s t")
  case None
  then have "invalidate S t s = (Inr False, s)" by (rule invalidate_miss)
  with None show ?thesis by (intro exI [of _ False] exI [of _ s]) (simp add: isValid)
next
  case (Some x)
  then obtain s' where s': "invalidate S t s = (Inr True, s')" "sess s' t = Some (revoke x)"
    "\<forall>t'. sess s' t' = sess s t' \<or> sess s' t' = map_option revoke (sess s t')"
    using invalidate_hit by blast
  have "isValid S t' n s" if "isValid S t' n s'" for t' n
    using that s'(3) [rule_format, of t'] by (auto simp: isValid_iff)
  then show ?thesis using s' Some by (auto simp: isValid_iff)
qed

lemma invalidateAll_revokes:
  "\<exists>n s'. invalidateAllForUser S u s = (Inr n, s')
     \<and> (\<forall>t now. isValid S t now s' \<longleftrightarrow> isValid S t now s \<and> userFor S t s \<noteq> Inr u)"
proof -
  obtain n s' where s': "invalidateAllForUser S u s = (Inr n, s')"
    "\<forall>t. sess s' t = map_option (\<lambda>x. if userId x = u then revoke x else x) (sess s t)"
    using invalidateAll by blast
  have "isValid S t now s' \<longleftrightarrow> isValid S t now s \<and> userFor S t s \<noteq> Inr u" for t now
    using s'(2) [rule_format, of t] by (cases "sess s t") (auto simp: isValid_iff userFor)
  with s' show ?thesis by blast
qed

lemma create_valid:
  "\<exists>s'. createForUser S rd u now s = (Inr (generateSessionId rd), s')
     \<and> (\<forall>x. isValid S (generateSessionId rd) x s' \<longleftrightarrow> now \<le> x \<and> x < now + session_ms)
     \<and> userFor S (generateSessionId rd) s' = Inr u"
proof -
  obtain s' where "createForUser S rd u now s = (Inr (generateSessionId rd), s')"
    "sess s' (generateSessionId rd) = Some (new_session (generateSessionId rd) u now)"
    using create by blast
  then show ?thesis by (auto simp: isValid_iff userFor)
qed

end

section \<open>The in-memory store keeps the promise\<close>

definition mem_sess :: "MemorySessionStore \<Rightarrow> SessionId \<Rightarrow> Session option" where
  "mem_sess s t = map_of (byHash s) (hashToken (sid t))"

lemma MemSess_token: "''sess_'' @ concat (map hex_byte (map (rd_byte rd) [0..<32])) = sid (generateSessionId rd)"
  by (simp add: generateSessionId_def randomHex_def comp_def)

lemma MemSess_findByToken_sess [simp]: "got (MemSess_findByToken t s) = mem_sess s t"
  by (simp add: MemSess_findByToken_def mem_sess_def Let_def split: option.split)

lemma MemSess_createForUser_eq:
  "MemSess_createForUser rd u now s =
     (let t = generateSessionId rd; h = hashToken (sid t)
      in (Inr t, s\<lparr>byHash := AList.update h (new_session t u now) (byHash s),
                   userByHash := AList.update h (uid u) (userByHash s)\<rparr>))"
  unfolding MemSess_createForUser_def MemSess_token Let_def
  by (simp add: mkSession_def new_session_def session_ms_def)

lemma revoke_loop_eq:
  "revoke_loop u ps n =
     (n + length (filter (\<lambda>(h, s). userId s = u \<and> \<not> revoked s) ps),
      map (\<lambda>(h, s). (h, if userId s = u then revoke s else s)) ps)"
  by (induction ps arbitrary: n) (auto simp: revoke_def split: prod.split)

lemma map_of_map_snd: "map_of (map (\<lambda>(h, s). (h, f s)) ps) k = map_option f (map_of ps k)"
  by (induction ps) auto

interpretation memsess: session_store memory_sessions mem_sess
proof (unfold_locales, goal_cases)
  case 1 show ?case by (simp add: memory_sessions_def)
next
  case 2 show ?case by (simp add: memory_sessions_def MemSess_isValid_def)
next
  case 3 show ?case by (simp add: memory_sessions_def MemSess_userFor_def)
next
  case 4 show ?case
    by (simp add: memory_sessions_def MemSess_createForUser_eq mem_sess_def Let_def update_conv')
next
  case 5 then show ?case
    by (auto simp: memory_sessions_def MemSess_invalidate_def mem_sess_def Let_def update_conv' revoke_def)
next
  case 6 then show ?case by (simp add: memory_sessions_def MemSess_invalidate_def mem_sess_def Let_def)
next
  case 7 show ?case
    by (simp add: memory_sessions_def MemSess_invalidateAllForUser_def revoke_loop_eq mem_sess_def map_of_map_snd)
qed

section \<open>Properties\<close>

text \<open>
  A session created for a user is found under the returned token (the \<open>sess_\<close>
  prefix and 64 hexadecimal digits of all 32 random bytes), belongs to that user, and is
  valid exactly from its creation until one hour later.
\<close>

theorem session_created:
  "\<exists>s'. MemSess_createForUser rd u now s = (Inr (generateSessionId rd), s')
     \<and> MemSess_userFor (generateSessionId rd) s' = Inr u
     \<and> (\<forall>x. MemSess_isValid (generateSessionId rd) x s' \<longleftrightarrow> now \<le> x \<and> x < now + 3600000)"
  using memsess.create_valid [of rd u now s] by (simp add: memory_sessions_def session_ms_def) blast

lemma MemSess_isValid_sess: "MemSess_isValid t now s \<longleftrightarrow> (\<exists>x. mem_sess s t = Some x \<and> session_isValid x now)"
  by (simp add: MemSess_isValid_def split: option.split)

text \<open>
  Revocation is permanent and exact: after \<open>invalidate\<close> a token is never valid again
  and only tokens with the same SHA-256 are affected; after \<open>invalidateAllForUser\<close> the
  valid tokens are those that were valid and belong to other users, and the number returned
  is the number of sessions revoked by the call.
\<close>

theorem session_revoked:
  "(\<exists>b s'. MemSess_invalidate t s = (Inr b, s') \<and> (b \<longleftrightarrow> ok (MemSess_findByToken t s))
      \<and> (\<forall>t' x. MemSess_isValid t' x s' \<longleftrightarrow> MemSess_isValid t' x s \<and> hashToken (sid t') \<noteq> hashToken (sid t)))
   \<and> (\<exists>s'. MemSess_invalidateAllForUser u s
              = (Inr (length (filter (\<lambda>(h, x). userId x = u \<and> \<not> revoked x) (byHash s))), s')
      \<and> (\<forall>t' x. MemSess_isValid t' x s' \<longleftrightarrow> MemSess_isValid t' x s \<and> MemSess_userFor t' s \<noteq> Inr u))"
proof
  show "\<exists>b s'. MemSess_invalidate t s = (Inr b, s') \<and> (b \<longleftrightarrow> ok (MemSess_findByToken t s))
      \<and> (\<forall>t' x. MemSess_isValid t' x s' \<longleftrightarrow> MemSess_isValid t' x s \<and> hashToken (sid t') \<noteq> hashToken (sid t))"
    by (cases "map_of (byHash s) (hashToken (sid t))")
       (auto simp: MemSess_invalidate_def MemSess_findByToken_def MemSess_isValid_sess mem_sess_def Let_def
         update_conv' session_isValid_def)
  show "\<exists>s'. MemSess_invalidateAllForUser u s
              = (Inr (length (filter (\<lambda>(h, x). userId x = u \<and> \<not> revoked x) (byHash s))), s')
      \<and> (\<forall>t' x. MemSess_isValid t' x s' \<longleftrightarrow> MemSess_isValid t' x s \<and> MemSess_userFor t' s \<noteq> Inr u)"
    using memsess.invalidateAll_revokes [of u s]
    by (auto simp: memory_sessions_def MemSess_invalidateAllForUser_def revoke_loop_eq)
qed

end
