(* ===== verification/AuditLog.thy ===== *)
theory AuditLog
  imports Domain Sha256
begin

text \<open>
  The audit port (\<^verbatim>\<open>include/ports/audit.hpp\<close>) and its two implementations: the vector of
  \<^verbatim>\<open>vector_audit.hpp\<close> and the hash-chained file of
  \<^verbatim>\<open>src/infrastructure/hash_chain_file_audit.cpp\<close>. The file is its text (\<^const>\<open>None\<close>
  when it does not exist); \<open>record\<close> takes from its environment the formatted time and
  how much of the appended line reached the file, which the code does not check. Events whose text
  needs no JSON escape are \<open>clean\<close>: on them the chain is shown to verify, to be
  readable again and to survive a restart; what a character that needs an escape does is
  stated separately.
\<close>

record 'a IAuditLogger =
  record_event :: "AuditEvent \<Rightarrow> ('a, unit) sx"
  all_events :: "'a \<Rightarrow> AuditEvent list"

section \<open>The vector\<close>

record VectorAudit =
  vlog :: "AuditEvent list"

definition Vector_record :: "AuditEvent \<Rightarrow> (VectorAudit, unit) sx" where
  "Vector_record e a =
     (let n = length (vlog a);
          e = e\<lparr>seq := word_of_nat n,
                prevHash := (if vlog a = [] then ''GENESIS'' else msgHash (last (vlog a))),
                msgHash := ''h'' @ dec_string n\<rparr>
      in (Inr (), a\<lparr>vlog := vlog a @ [e]\<rparr>))"

definition Vector_all :: "VectorAudit \<Rightarrow> AuditEvent list" where
  "Vector_all a = vlog a"

definition vector_audit :: "VectorAudit IAuditLogger" where
  "vector_audit = \<lparr>record_event = Vector_record, all_events = Vector_all\<rparr>"

section \<open>The hash-chained file\<close>

definition jsonEscape_char :: "char \<Rightarrow> string" where
  "jsonEscape_char c =
     (if c = CHR 0x22 then [CHR 0x5C, CHR 0x22]
      else if c = CHR 0x5C then [CHR 0x5C, CHR 0x5C]
      else if c = CHR 0x0A then [CHR 0x5C, CHR ''n'']
      else if c = CHR 0x0D then [CHR 0x5C, CHR ''r'']
      else if c = CHR 0x09 then [CHR 0x5C, CHR ''t'']
      else if (of_char c :: nat) < 0x20 then [CHR 0x5C, CHR ''u'', CHR ''0'', CHR ''0''] @ hex_byte (byte_of_char c)
      else [c])"

definition jsonEscape :: "string \<Rightarrow> string" where
  "jsonEscape s = concat (map jsonEscape_char s)"

text \<open>A quoted key with its colon, and a quoted and escaped value.\<close>

definition jkey :: "string \<Rightarrow> string" where
  "jkey k = [CHR 0x22] @ k @ [CHR 0x22, CHR '':'']"

definition jstr :: "string \<Rightarrow> string" where
  "jstr s = [CHR 0x22] @ jsonEscape s @ [CHR 0x22]"

definition canonical :: "AuditEvent \<Rightarrow> string" where
  "canonical e =
     ''{'' @ jkey ''seq'' @ dec_string (unat (seq e))
     @ '','' @ jkey ''ts'' @ jstr (ts e)
     @ '','' @ jkey ''actor'' @ jstr (actor e)
     @ '','' @ jkey ''action'' @ jstr (action e)
     @ '','' @ jkey ''fileId'' @ jstr (efileId e)
     @ '','' @ jkey ''cipherHash'' @ jstr (cipherHash e)
     @ '','' @ jkey ''prevHash'' @ jstr (prevHash e)
     @ ''}''"

definition logLine :: "AuditEvent \<Rightarrow> string" where
  "logLine e =
     ''{'' @ jkey ''seq'' @ dec_string (unat (seq e))
     @ '','' @ jkey ''ts'' @ jstr (ts e)
     @ '','' @ jkey ''actor'' @ jstr (actor e)
     @ '','' @ jkey ''action'' @ jstr (action e)
     @ '','' @ jkey ''fileId'' @ jstr (efileId e)
     @ '','' @ jkey ''cipherHash'' @ jstr (cipherHash e)
     @ '','' @ jkey ''prevHash'' @ jstr (prevHash e)
     @ '','' @ jkey ''msgHash'' @ [CHR 0x22] @ msgHash e @ [CHR 0x22]
     @ ''}''"

text \<open>\<open>std::getline\<close> until it fails: the lines of a text, without an empty one after the last newline.\<close>

function getlines :: "string \<Rightarrow> string list" where
  "getlines s =
     (if s = [] then []
      else takeWhile (\<lambda>c. c \<noteq> CHR 0x0A) s # getlines (tl (dropWhile (\<lambda>c. c \<noteq> CHR 0x0A) s)))"
  by pat_completeness auto
termination
proof (relation "measure length", simp, simp)
  fix s :: string assume "s \<noteq> []"
  then show "length (dropWhile (\<lambda>c. c \<noteq> CHR 0x0A) s) - Suc 0 < length s"
    using length_dropWhile_le [of "\<lambda>c. c \<noteq> CHR 0x0A" s] by (cases s) (auto simp del: dropWhile.simps)
qed

declare getlines.simps [simp del]

text \<open>
  The closing quote of a value: the first quote that no backslash precedes. A quote at
  index \<open>i\<close> has been found, so \<open>i - 1\<close> is an index of the line too.
\<close>

lemma str_find_bounds: "str_find s pat p = Some i \<Longrightarrow> p \<le> i \<and> p \<le> length s"
  by (auto simp: str_find_def split: if_splits)

function close_quote :: "string \<Rightarrow> nat option \<Rightarrow> nat option" where
  "close_quote line None = None"
| "close_quote line (Some q) =
     (if line ! (q - 1) = CHR 0x5C then close_quote line (str_find line [CHR 0x22] (q + 1)) else Some q)"
  by pat_completeness auto
termination
proof (relation "measure (\<lambda>(line, q). case q of None \<Rightarrow> 0 | Some i \<Rightarrow> Suc (Suc (length line) - i))", simp)
  fix line :: string and q
  show "((line, str_find line [CHR 0x22] (q + 1)), line, Some q)
      \<in> measure (\<lambda>(line, q). case q of None \<Rightarrow> 0 | Some i \<Rightarrow> Suc (Suc (length line) - i))"
    using str_find_bounds [of line "[CHR 0x22]" "q + 1"]
    by (cases "str_find line [CHR 0x22] (q + 1)") fastforce+
qed

definition getBare :: "string \<Rightarrow> nat \<Rightarrow> string" where
  "getBare line p =
     str_slice line p (case str_find line '','' p of None \<Rightarrow> str_find line ''}'' p | Some q \<Rightarrow> Some q)"

definition getField :: "string \<Rightarrow> string \<Rightarrow> string" where
  "getField key line =
     (case str_find line (jkey key) 0 of
        None \<Rightarrow> []
      | Some p0 \<Rightarrow>
          let p = p0 + length (jkey key)
          in if p < length line \<and> line ! p = CHR 0x22
             then let p = p + 1 in str_slice line p (close_quote line (str_find line [CHR 0x22] p))
             else getBare line p)"

text \<open>The constructor's own reader, which stops at the first quote.\<close>

definition getFieldFirst :: "string \<Rightarrow> string \<Rightarrow> string" where
  "getFieldFirst key line =
     (case str_find line (jkey key) 0 of
        None \<Rightarrow> []
      | Some p0 \<Rightarrow>
          let p = p0 + length (jkey key)
          in if p < length line \<and> line ! p = CHR 0x22
             then let p = p + 1 in str_slice line p (str_find line [CHR 0x22] p)
             else getBare line p)"

definition seq_of :: "string \<Rightarrow> u64" where
  "seq_of s = (case stoull s of None \<Rightarrow> 0 | Some n \<Rightarrow> n)"

record HashChainFileAuditLogger =
  logFile :: "string option"
  lastHash :: string
  lastSeq :: u64

text \<open>The event a line is read as by \<open>verify\<close>, with the hash of the line before it.\<close>

definition read_event :: "string \<Rightarrow> string \<Rightarrow> AuditEvent" where
  "read_event prev line =
     \<lparr>seq = seq_of (getField ''seq'' line), ts = getField ''ts'' line, actor = getField ''actor'' line,
      action = getField ''action'' line, efileId = getField ''fileId'' line,
      cipherHash = getField ''cipherHash'' line, prevHash = prev, msgHash = ''''\<rparr>"

fun verify_lines :: "string \<Rightarrow> u64 \<Rightarrow> string list \<Rightarrow> bool" where
  "verify_lines prev expectedSeq [] = True"
| "verify_lines prev expectedSeq (line # rest) =
     (if line = [] then verify_lines prev expectedSeq rest
      else let e = read_event prev line; storedHash = getField ''msgHash'' line
           in if seq e \<noteq> expectedSeq then False
              else if getField ''prevHash'' line \<noteq> prev then False
              else if sha256_hex (canonical e) \<noteq> storedHash then False
              else verify_lines storedHash (expectedSeq + 1) rest)"

definition verify :: "HashChainFileAuditLogger \<Rightarrow> bool" where
  "verify a = (case logFile a of None \<Rightarrow> True | Some s \<Rightarrow> verify_lines ''GENESIS'' 1 (getlines s))"

definition HashChain_open :: "string option \<Rightarrow> HashChainFileAuditLogger" where
  "HashChain_open f =
     (let a = \<lparr>logFile = f, lastHash = ''GENESIS'', lastSeq = 0\<rparr>
      in case f of
           None \<Rightarrow> a
         | Some s \<Rightarrow>
             if getlines s = [] then a
             else if \<not> verify a then a\<lparr>lastHash := ''CORRUPTED''\<rparr>
             else let lastLine = last (getlines s);
                      h = getFieldFirst ''msgHash'' lastLine
                  in a\<lparr>lastHash := (if h = [] then ''GENESIS'' else h),
                       lastSeq := seq_of (getFieldFirst ''seq'' lastLine)\<rparr>)"

text \<open>
  What becomes of the line \<open>record\<close> appends, which the code does not check: the file does not
  open, the line is cut short (a full disk), or it is written.
\<close>

datatype append = NotOpened | CutAt nat | Appended

fun append_line :: "append \<Rightarrow> string \<Rightarrow> string option \<Rightarrow> string option" where
  "append_line NotOpened line f = f"
| "append_line (CutAt n) line f = Some ((case f of None \<Rightarrow> [] | Some s \<Rightarrow> s) @ take n line)"
| "append_line Appended line f = Some ((case f of None \<Rightarrow> [] | Some s \<Rightarrow> s) @ line)"

definition HashChain_record :: "string \<Rightarrow> append \<Rightarrow> AuditEvent \<Rightarrow> (HashChainFileAuditLogger, unit) sx" where
  "HashChain_record nowText ap e a =
     (if lastHash a = ''CORRUPTED'' then (Inl (RuntimeError (''audit chain corrupted '' @ [CHR 0xE2, CHR 0x80, CHR 0x94] @ '' refuse to append'')), a)
      else if \<not> verify a then (Inl (RuntimeError ''audit chain verification failed before append''), a)
      else let n = lastSeq a + 1;
               e = e\<lparr>prevHash := lastHash a, seq := n, ts := (if ts e = [] then nowText else ts e)\<rparr>;
               e = e\<lparr>msgHash := sha256_hex (canonical e)\<rparr>
           in (Inr (), a\<lparr>logFile := append_line ap (logLine e @ [CHR 0x0A]) (logFile a),
                         lastHash := msgHash e, lastSeq := n\<rparr>))"

definition HashChain_all :: "HashChainFileAuditLogger \<Rightarrow> AuditEvent list" where
  "HashChain_all a =
     map (\<lambda>line. \<lparr>seq = seq_of (getField ''seq'' line), ts = getField ''ts'' line,
                   actor = getField ''actor'' line, action = getField ''action'' line,
                   efileId = getField ''fileId'' line, cipherHash = '''',
                   prevHash = getField ''prevHash'' line, msgHash = getField ''msgHash'' line\<rparr>)
         (case logFile a of None \<Rightarrow> [] | Some s \<Rightarrow> getlines s)"

definition hash_chain_audit :: "string \<Rightarrow> append \<Rightarrow> HashChainFileAuditLogger IAuditLogger" where
  "hash_chain_audit nowText ap =
     \<lparr>record_event = HashChain_record nowText ap, all_events = HashChain_all\<rparr>"

section \<open>Text that needs no escape\<close>

definition clean :: "string \<Rightarrow> bool" where
  "clean s \<longleftrightarrow> list_all (\<lambda>c. c \<noteq> CHR 0x22 \<and> c \<noteq> CHR 0x5C \<and> 0x20 \<le> (of_char c :: nat)) s"

text \<open>An event in the form \<open>record\<close> writes: all its text clean.\<close>

definition clean_event :: "AuditEvent \<Rightarrow> bool" where
  "clean_event e \<longleftrightarrow> clean (ts e) \<and> clean (actor e) \<and> clean (action e) \<and> clean (efileId e)
     \<and> clean (cipherHash e) \<and> clean (prevHash e) \<and> clean (msgHash e)"

text \<open>A chain of events from a given hash and sequence number on.\<close>

fun linked :: "string \<Rightarrow> u64 \<Rightarrow> AuditEvent list \<Rightarrow> bool" where
  "linked p n [] = True"
| "linked p n (e # es) \<longleftrightarrow> seq e = n \<and> prevHash e = p \<and> clean_event e
     \<and> msgHash e = sha256_hex (canonical e) \<and> linked (msgHash e) (n + 1) es"

definition log_text :: "AuditEvent list \<Rightarrow> string" where
  "log_text es = concat (map (\<lambda>e. logLine e @ [CHR 0x0A]) es)"

definition tail_hash :: "AuditEvent list \<Rightarrow> string" where
  "tail_hash es = (if es = [] then ''GENESIS'' else msgHash (last es))"

text \<open>The states of a logger whose file holds exactly the chain \<open>es\<close>.\<close>

definition holds_chain :: "AuditEvent list \<Rightarrow> HashChainFileAuditLogger \<Rightarrow> bool" where
  "holds_chain es a \<longleftrightarrow> linked ''GENESIS'' 1 es \<and> lastHash a = tail_hash es
     \<and> lastSeq a = word_of_nat (length es)
     \<and> (case logFile a of None \<Rightarrow> es = [] | Some s \<Rightarrow> s = log_text es)"

lemma clean_Nil [simp]: "clean []" and clean_append [simp]: "clean (s @ t) \<longleftrightarrow> clean s \<and> clean t"
  by (simp_all add: clean_def)

lemma jsonEscape_clean [simp]: "clean s \<Longrightarrow> jsonEscape s = s"
  by (induction s) (auto simp: clean_def jsonEscape_def jsonEscape_char_def)

lemma clean_elem: "clean s \<Longrightarrow> c \<in> set s \<Longrightarrow> clean [c]"
  by (simp add: clean_def list_all_iff)

lemma not_clean [simp]: "\<not> clean [CHR 0x22]" "\<not> clean [CHR 0x5C]" "\<not> clean [CHR 0x0A]"
  by (simp_all add: clean_def)

lemma clean_no_quote: "clean s \<Longrightarrow> CHR 0x22 \<notin> set s"
  and clean_no_backslash: "clean s \<Longrightarrow> CHR 0x5C \<notin> set s"
  and clean_no_newline: "clean s \<Longrightarrow> CHR 0x0A \<notin> set s"
  using clean_elem not_clean by blast+

lemma clean_digits: "(\<And>c. c \<in> set s \<Longrightarrow> is_digit c) \<Longrightarrow> clean s"
proof -
  assume d: "\<And>c. c \<in> set s \<Longrightarrow> is_digit c"
  have "clean [c]" if "is_digit c" for c using that by (auto simp: clean_def is_digit_def)
  with d show "clean s" by (simp add: clean_def list_all_iff)
qed

lemma clean_dec_string [simp]: "clean (dec_string n)"
  by (rule clean_digits) (rule dec_string_digits)

lemma clean_hex_digit: "n < 16 \<Longrightarrow> clean [hex_digit n]"
proof -
  assume "n < 16"
  then have v: "hex_val (hex_digit n) = Some n" by (rule hex_val_digit)
  have "hex_val (CHR 0x22) = None" "hex_val (CHR 0x5C) = None" by (simp_all add: hex_val_def)
  with v have "hex_digit n \<noteq> CHR 0x22" "hex_digit n \<noteq> CHR 0x5C" by auto
  moreover have "0x20 \<le> (of_char (hex_digit n) :: nat)" using \<open>n < 16\<close> by (simp add: hex_digit_def)
  ultimately show "clean [hex_digit n]" by (simp add: clean_def)
qed

lemma clean_hex_string [simp]: "clean (hex_string bs)"
proof -
  have "clean [c]" if "c \<in> set (hex_string bs)" for c
    using set_hex_string [OF that] clean_hex_digit by auto
  then show ?thesis by (simp add: clean_def list_all_iff)
qed

lemma clean_sha256_hex [simp]: "clean (sha256_hex s)"
  by (simp add: sha256_hex_def)

lemma clean_genesis [simp]: "clean ''GENESIS''"
  by (simp add: clean_def)

section \<open>Reading a line back\<close>

text \<open>The quoted fields of a line, as the list of their keys and values.\<close>

definition jfields :: "(string \<times> string) list \<Rightarrow> string" where
  "jfields kvs = concat (map (\<lambda>(k, v). '','' @ jkey k @ [CHR 0x22] @ v @ [CHR 0x22]) kvs)"

definition event_fields_list :: "AuditEvent \<Rightarrow> (string \<times> string) list" where
  "event_fields_list e =
     [(''ts'', jsonEscape (ts e)), (''actor'', jsonEscape (actor e)), (''action'', jsonEscape (action e)),
      (''fileId'', jsonEscape (efileId e)), (''cipherHash'', jsonEscape (cipherHash e)),
      (''prevHash'', jsonEscape (prevHash e)), (''msgHash'', msgHash e)]"

text \<open>Values the reader delimits correctly: no quote inside and no backslash at the end.\<close>

definition delimited :: "string \<Rightarrow> bool" where
  "delimited v \<longleftrightarrow> CHR 0x22 \<notin> set v \<and> (v = [] \<or> last v \<noteq> CHR 0x5C)"

definition plain_key :: "string \<Rightarrow> bool" where
  "plain_key k \<longleftrightarrow> k \<noteq> [] \<and> list_all (\<lambda>c. c \<notin> {CHR 0x22, CHR '':'', CHR '','', CHR ''}''}) k"

lemma clean_delimited: "clean v \<Longrightarrow> delimited v"
  using clean_no_quote clean_no_backslash last_in_set by (fastforce simp: delimited_def)

lemma logLine_fields:
  "logLine e = ''{'' @ jkey ''seq'' @ dec_string (unat (seq e)) @ jfields (event_fields_list e) @ ''}''"
  by (simp add: logLine_def jfields_def event_fields_list_def jstr_def)

lemma quote_split:
  "CHR 0x22 \<notin> set k \<Longrightarrow> CHR 0x22 \<notin> set v \<Longrightarrow> prefix (k @ [CHR 0x22] @ x) (v @ [CHR 0x22] @ y)
     \<longleftrightarrow> k = v \<and> prefix x y"
proof (induction k arbitrary: v)
  case Nil then show ?case by (cases v) auto
next
  case (Cons a k) then show ?case by (cases v) auto
qed

lemma find_quote_miss:
  "\<not> prefix p t \<Longrightarrow> find_sub (CHR 0x22 # p) (CHR 0x22 # t) = map_option Suc (find_sub (CHR 0x22 # p) t)"
  by simp

lemma find_value_skip:
  assumes "plain_key k" "CHR 0x22 \<notin> set v" "r \<noteq> []" "hd r \<in> {CHR '','', CHR ''}''}"
  shows "find_sub (jkey k) ([CHR 0x22] @ v @ [CHR 0x22] @ r)
     = map_option ((+) (length v + 2)) (find_sub (jkey k) r)"
proof -
  obtain c k' where k: "k = c # k'" "c \<noteq> CHR '',''" "c \<noteq> CHR ''}''" using assms(1)
    by (cases k) (auto simp: plain_key_def)
  have kq: "CHR 0x22 \<notin> set k" using assms(1) by (auto simp: plain_key_def list_all_iff)
  have "prefix (k @ [CHR 0x22] @ '':'') (v @ [CHR 0x22] @ r) \<longleftrightarrow> k = v \<and> prefix '':'' r"
    by (rule quote_split [OF kq assms(2)])
  then have "\<not> prefix (k @ [CHR 0x22] @ '':'') (v @ [CHR 0x22] @ r)"
    using assms(3,4) by (cases r) auto
  then have "find_sub (jkey k) ([CHR 0x22] @ v @ [CHR 0x22] @ r)
      = map_option Suc (find_sub (jkey k) (v @ CHR 0x22 # r))"
    by (simp add: jkey_def)
  also have "find_sub (jkey k) (v @ CHR 0x22 # r) = map_option ((+) (length v)) (find_sub (jkey k) (CHR 0x22 # r))"
    using assms(2) by (simp add: jkey_def find_sub_skip del: find_sub.simps)
  also have "find_sub (jkey k) (CHR 0x22 # r) = map_option Suc (find_sub (jkey k) r)"
    using k assms(3,4) by (cases r) (auto simp: jkey_def)
  finally show ?thesis by (cases "find_sub (jkey k) r") (simp_all del: find_sub.simps)
qed

lemma find_key_skip:
  assumes "plain_key k" "plain_key k'" "k \<noteq> k'" "r \<noteq> []"
  shows "find_sub (jkey k) (jkey k' @ r) = map_option ((+) (length (jkey k'))) (find_sub (jkey k) r)"
proof -
  obtain c k2 where k: "k = c # k2" "c \<noteq> CHR '':''" using assms(1)
    by (cases k) (auto simp: plain_key_def)
  have q: "CHR 0x22 \<notin> set k" "CHR 0x22 \<notin> set k'" using assms(1,2) by (auto simp: plain_key_def list_all_iff)
  have "\<not> prefix (k @ [CHR 0x22] @ '':'') (k' @ [CHR 0x22] @ CHR '':'' # r)"
    using q assms(3) by (simp only: quote_split simp_thms)
  then have "find_sub (jkey k) (jkey k' @ r) = map_option Suc (find_sub (jkey k) (k' @ CHR 0x22 # CHR '':'' # r))"
    by (simp add: jkey_def)
  also have "find_sub (jkey k) (k' @ CHR 0x22 # CHR '':'' # r)
      = map_option ((+) (length k')) (find_sub (jkey k) (CHR 0x22 # CHR '':'' # r))"
    using q by (simp add: jkey_def find_sub_skip del: find_sub.simps)
  also have "find_sub (jkey k) (CHR 0x22 # CHR '':'' # r) = map_option ((+) 2) (find_sub (jkey k) r)"
    using k by (auto simp: jkey_def option.map_comp comp_def intro!: arg_cong [where f = "\<lambda>g. map_option g x" for x])
  finally show ?thesis by (cases "find_sub (jkey k) r") (simp_all add: jkey_def [of k'] del: find_sub.simps)
qed

lemma find_key_here: "find_sub (jkey k) (jkey k @ r) = Some 0"
  by (rule find_sub_hit) simp

lemma find_comma: "plain_key k \<Longrightarrow> find_sub (jkey k) (CHR '','' # r) = map_option Suc (find_sub (jkey k) r)"
  by (simp add: jkey_def)

lemma jfields_simps [simp]:
  "jfields [] = []" "jfields ((k, v) # kvs) = CHR '','' # jkey k @ [CHR 0x22] @ v @ [CHR 0x22] @ jfields kvs"
  by (simp_all add: jfields_def)

lemma jfields_tail: "jfields kvs @ ''}'' \<noteq> [] \<and> hd (jfields kvs @ ''}'') \<in> {CHR '','', CHR ''}''}"
proof (cases kvs)
  case (Cons p q) then show ?thesis by (cases p) simp
qed simp

lemma find_in_fields:
  assumes "list_all (\<lambda>(k, v). plain_key k \<and> delimited v) kvs" "map_of kvs k = Some v" "plain_key k"
  shows "\<exists>pre post. jfields kvs @ ''}'' = pre @ jkey k @ [CHR 0x22] @ v @ [CHR 0x22] @ post
     \<and> find_sub (jkey k) (jfields kvs @ ''}'') = Some (length pre)"
  using assms
proof (induction kvs)
  case (Cons p kvs)
  obtain k' v' where p: "p = (k', v')" by (cases p)
  show ?case
  proof (cases "k' = k")
    case True
    with Cons.prems p have "v' = v" by simp
    with p True Cons.prems(3) show ?thesis
      by (intro exI [of _ "'',''"] exI [of _ "jfields kvs @ ''}''"]) (simp add: find_comma find_key_here del: find_sub.simps)
  next
    case False
    then have "map_of kvs k = Some v" "list_all (\<lambda>(k, v). plain_key k \<and> delimited v) kvs" using Cons.prems p by auto
    from Cons.IH [OF this(2,1) Cons.prems(3)] obtain pre post where
      ih: "jfields kvs @ ''}'' = pre @ jkey k @ [CHR 0x22] @ v @ [CHR 0x22] @ post"
      "find_sub (jkey k) (jfields kvs @ ''}'') = Some (length pre)" by blast
    have v': "CHR 0x22 \<notin> set v'" "plain_key k'" using Cons.prems(1) p by (auto simp: delimited_def)
    let ?pre = "CHR '','' # jkey k' @ [CHR 0x22] @ v' @ [CHR 0x22]"
    have "jfields (p # kvs) @ ''}'' = CHR '','' # jkey k' @ ([CHR 0x22] @ v' @ [CHR 0x22] @ (jfields kvs @ ''}''))"
      using p by simp
    moreover have "find_sub (jkey k) (CHR '','' # jkey k' @ ([CHR 0x22] @ v' @ [CHR 0x22] @ (jfields kvs @ ''}'')))
       = Some (length (?pre @ pre))"
      unfolding find_comma [OF Cons.prems(3)]
      by (subst find_key_skip, use v' False Cons.prems(3) in \<open>simp_all del: find_sub.simps\<close>)
         (use find_value_skip [OF Cons.prems(3) v'(1), of "jfields kvs @ ''}''"] jfields_tail [of kvs] ih(2)
          in \<open>simp del: find_sub.simps\<close>)
    ultimately show ?thesis using ih(1)
      by (intro exI [of _ "?pre @ pre"] exI [of _ post]) (simp del: find_sub.simps)
  qed
qed simp

lemma str_find_at:
  "p = length u \<Longrightarrow> c \<notin> set w \<Longrightarrow> str_find (u @ w @ c # r) [c] p = Some (length u + length w)"
  using find_sub_skip [of c w "[]" "c # r"] by (simp add: str_find_def)

lemma getField_quoted:
  assumes line: "line = pre @ jkey k @ [CHR 0x22] @ v @ [CHR 0x22] @ post"
    and hit: "find_sub (jkey k) line = Some (length pre)" and v: "delimited v"
  shows "getField k line = v \<and> getFieldFirst k line = v"
proof -
  let ?u = "pre @ jkey k @ [CHR 0x22]"
  have line': "line = ?u @ v @ CHR 0x22 # post" using line by simp
  have p: "str_find line (jkey k) 0 = Some (length pre)" using hit by (simp add: str_find_def option.map_ident)
  have q: "str_find line [CHR 0x22] (length ?u) = Some (length ?u + length v)"
    unfolding line' by (rule str_find_at) (use v in \<open>auto simp: delimited_def\<close>)
  have before: "line ! (length ?u + length v - 1) \<noteq> CHR 0x5C"
  proof (cases v rule: rev_cases)
    case Nil
    then show ?thesis using line' by (simp add: nth_append)
  next
    case (snoc w c)
    then have "line ! (length ?u + length v - 1) = c" using line' by (simp add: nth_append)
    moreover have "c \<noteq> CHR 0x5C" using v snoc by (simp add: delimited_def)
    ultimately show ?thesis by simp
  qed
  have first: "line ! (length pre + length (jkey k)) = CHR 0x22 \<and> length pre + length (jkey k) < length line"
    using line by (simp add: nth_append)
  have slice: "str_slice line (length ?u) (Some (length ?u + length v)) = v"
    unfolding line' by (subst str_slice_mid) simp_all
  have off: "length pre + length (jkey k) + 1 = length ?u" by simp
  show ?thesis
    unfolding getField_def getFieldFirst_def p option.case Let_def off q
    using first before slice by simp
qed

lemma find_seq: "find_sub (jkey ''seq'') (''{'' @ jkey ''seq'' @ r) = Some 1"
  using find_key_here [of "''seq''" r] by (simp add: jkey_def)

lemma seq_field:
  assumes "jf = jfields kvs @ ''}''" "jf = CHR '','' # r"
  shows "getField ''seq'' (''{'' @ jkey ''seq'' @ dec_string n @ jf) = dec_string n
     \<and> getFieldFirst ''seq'' (''{'' @ jkey ''seq'' @ dec_string n @ jf) = dec_string n"
proof -
  let ?u = "''{'' @ jkey ''seq''"
  let ?l = "?u @ dec_string n @ jf"
  have p: "str_find ?l (jkey ''seq'') 0 = Some 1"
    using find_seq [of "dec_string n @ jf"] by (simp add: str_find_def option.map_ident del: find_sub.simps)
  have nc: "CHR '','' \<notin> set (dec_string n)"
    using dec_string_digits [of "CHR '',''" n] by (auto simp: is_digit_def)
  have q: "str_find ?l '','' (length ?u) = Some (length ?u + length (dec_string n))"
    unfolding assms(2) by (rule str_find_at [OF refl nc])
  have slice: "str_slice ?l (length ?u) (Some (length ?u + length (dec_string n))) = dec_string n"
    by (subst str_slice_mid) simp_all
  have "hd (dec_string n) \<in> set (dec_string n)" by simp
  then have "is_digit (hd (dec_string n))" by (rule dec_string_digits)
  then have nq: "?l ! length ?u \<noteq> CHR 0x22"
    by (cases "dec_string n") (auto simp: nth_append is_digit_def)
  have off: "1 + length (jkey ''seq'') = length ?u" by simp
  have "getBare ?l (length ?u) = dec_string n" unfolding getBare_def q option.case by (rule slice)
  moreover obtain l where l: "?l = l" "''{'' @ jkey ''seq'' @ dec_string n @ jf = l" by simp
  ultimately show ?thesis
    using p nq off unfolding l getField_def getFieldFirst_def by simp
qed

lemma logLine_field:
  assumes "list_all (\<lambda>(k, v). delimited v) (event_fields_list e)" "map_of (event_fields_list e) k = Some v"
  shows "getField k (logLine e) = v \<and> getFieldFirst k (logLine e) = v"
proof -
  let ?kvs = "event_fields_list e"
  have all: "list_all (\<lambda>(k, v). plain_key k \<and> delimited v) ?kvs"
    using assms(1) by (simp add: event_fields_list_def plain_key_def)
  have kv: "(k, v) \<in> set ?kvs" using assms(2) by (rule map_of_SomeD)
  then have k: "plain_key k" "delimited v" using all by (auto simp: list_all_iff)
  have ks: "k \<noteq> ''seq''" using kv by (auto simp: event_fields_list_def)
  obtain pre post where f: "jfields ?kvs @ ''}'' = pre @ jkey k @ [CHR 0x22] @ v @ [CHR 0x22] @ post"
    "find_sub (jkey k) (jfields ?kvs @ ''}'') = Some (length pre)"
    using find_in_fields [OF all assms(2) k(1)] by blast
  let ?d = "dec_string (unat (seq e))"
  let ?pre = "''{'' @ jkey ''seq'' @ ?d @ pre"
  have line: "logLine e = ?pre @ jkey k @ [CHR 0x22] @ v @ [CHR 0x22] @ post"
    using logLine_fields [of e] f(1) by simp
  have "find_sub (jkey k) (''{'' @ jkey ''seq'' @ ?d @ jfields ?kvs @ ''}'')
      = map_option Suc (find_sub (jkey k) (jkey ''seq'' @ ?d @ jfields ?kvs @ ''}''))"
    by (simp add: jkey_def)
  also have "find_sub (jkey k) (jkey ''seq'' @ ?d @ jfields ?kvs @ ''}'')
      = map_option ((+) (length (jkey ''seq''))) (find_sub (jkey k) (?d @ jfields ?kvs @ ''}''))"
    using k(1) ks by (intro find_key_skip) (simp_all add: plain_key_def)
  also have "find_sub (jkey k) (?d @ jfields ?kvs @ ''}'') = Some (length ?d + length pre)"
    using clean_no_quote [OF clean_dec_string] f(2) by (simp add: jkey_def find_sub_skip del: find_sub.simps)
  finally have "find_sub (jkey k) (logLine e) = Some (length ?pre)"
    using logLine_fields [of e] by (simp del: find_sub.simps)
  from getField_quoted [OF line this k(2)] show ?thesis .
qed

lemma logLine_seq:
  "getField ''seq'' (logLine e) = dec_string (unat (seq e))
     \<and> getFieldFirst ''seq'' (logLine e) = dec_string (unat (seq e))"
  unfolding logLine_fields append_assoc
  by (rule seq_field [OF refl]) (simp add: event_fields_list_def)

lemma seq_of_dec [simp]: "seq_of (dec_string (unat n)) = n"
proof -
  have "unat n < 2 ^ 64" using unsigned_less [of n, where ?'a = nat] by simp
  from stoull_dec_string [OF this] show ?thesis by (simp add: seq_of_def)
qed

lemma logLine_read_escaped:
  assumes "list_all (\<lambda>(k, v). delimited v) (event_fields_list e)"
  shows "read_event p (logLine e) = \<lparr>seq = seq e, ts = jsonEscape (ts e), actor = jsonEscape (actor e),
      action = jsonEscape (action e), efileId = jsonEscape (efileId e), cipherHash = jsonEscape (cipherHash e),
      prevHash = p, msgHash = ''''\<rparr>"
    and "getField ''prevHash'' (logLine e) = jsonEscape (prevHash e)"
    and "getField ''msgHash'' (logLine e) = msgHash e" "getFieldFirst ''msgHash'' (logLine e) = msgHash e"
    and "seq_of (getFieldFirst ''seq'' (logLine e)) = seq e"
  using logLine_seq [of e] logLine_field [OF assms, of "''ts''"] logLine_field [OF assms, of "''actor''"]
    logLine_field [OF assms, of "''action''"] logLine_field [OF assms, of "''fileId''"]
    logLine_field [OF assms, of "''cipherHash''"] logLine_field [OF assms, of "''prevHash''"]
    logLine_field [OF assms, of "''msgHash''"]
  by (simp_all add: read_event_def event_fields_list_def)

lemma clean_event_delimited: "clean_event e \<Longrightarrow> list_all (\<lambda>(k, v). delimited v) (event_fields_list e)"
  by (simp add: event_fields_list_def clean_event_def clean_delimited)

lemma logLine_read:
  assumes "clean_event e"
  shows "read_event p (logLine e) = e\<lparr>prevHash := p, msgHash := ''''\<rparr>"
    and "getField ''prevHash'' (logLine e) = prevHash e"
    and "getField ''msgHash'' (logLine e) = msgHash e" "getFieldFirst ''msgHash'' (logLine e) = msgHash e"
    and "seq_of (getFieldFirst ''seq'' (logLine e)) = seq e"
  using logLine_read_escaped [OF clean_event_delimited [OF assms]] assms by (simp_all add: clean_event_def)

lemma canonical_msgHash [simp]: "canonical (e\<lparr>msgHash := h\<rparr>) = canonical e"
  by (simp add: canonical_def)

lemma logLine_no_newline: "clean_event e \<Longrightarrow> CHR 0x0A \<notin> set (logLine e) \<and> logLine e \<noteq> []"
  using clean_no_newline [OF clean_dec_string, of "unat (seq e)"]
  by (auto simp: logLine_def jstr_def jkey_def clean_event_def dest: clean_no_newline)

lemma getlines_append_line:
  assumes "CHR 0x0A \<notin> set l"
  shows "getlines (l @ CHR 0x0A # s) = l # getlines s"
proof -
  have "takeWhile (\<lambda>c. c \<noteq> CHR 0x0A) (l @ CHR 0x0A # s) = l"
    "dropWhile (\<lambda>c. c \<noteq> CHR 0x0A) (l @ CHR 0x0A # s) = CHR 0x0A # s"
    using assms by (induction l) auto
  then show ?thesis by (subst getlines.simps) simp
qed

lemma getlines_Nil [simp]: "getlines [] = []"
  by (simp add: getlines.simps)

lemma linked_clean: "linked p n es \<Longrightarrow> e \<in> set es \<Longrightarrow> clean_event e"
  by (induction es arbitrary: p n) auto

lemma getlines_log_text:
  "(\<And>e. e \<in> set es \<Longrightarrow> clean_event e) \<Longrightarrow> getlines (log_text es) = map logLine es"
  by (induction es) (simp_all add: log_text_def getlines_append_line logLine_no_newline)

lemma verify_linked: "linked p n es \<Longrightarrow> verify_lines p n (map logLine es)"
  by (induction es arbitrary: p n) (auto simp: Let_def logLine_read logLine_no_newline)

lemma linked_append:
  "linked p n (es @ [e]) \<longleftrightarrow> linked p n es \<and> linked (if es = [] then p else msgHash (last es)) (n + word_of_nat (length es)) [e]"
  by (induction es arbitrary: p n) (auto simp: ac_simps)

lemma holds_chain_verify: "holds_chain es a \<Longrightarrow> verify a"
  by (auto simp: holds_chain_def verify_def verify_linked getlines_log_text linked_clean split: option.splits)

lemma not_corrupted: "linked ''GENESIS'' 1 es \<Longrightarrow> tail_hash es \<noteq> ''CORRUPTED''"
proof (cases es rule: rev_cases)
  case (snoc fs e)
  assume "linked ''GENESIS'' 1 es"
  with snoc have "msgHash e = sha256_hex (canonical e)" by (simp add: linked_append)
  then have "length (msgHash e) = 64" by simp
  with snoc show ?thesis by (auto simp: tail_hash_def)
qed (simp add: tail_hash_def)

lemma clean_tail_hash: "linked ''GENESIS'' 1 es \<Longrightarrow> clean (tail_hash es)"
  by (cases es rule: rev_cases) (auto simp: tail_hash_def linked_append)

text \<open>The event that is written for \<open>e\<close> after the chain \<open>es\<close>.\<close>

definition chained :: "string \<Rightarrow> AuditEvent list \<Rightarrow> AuditEvent \<Rightarrow> AuditEvent" where
  "chained nowText es e =
     (let e = e\<lparr>prevHash := tail_hash es, seq := word_of_nat (length es) + 1,
                ts := (if ts e = [] then nowText else ts e)\<rparr>
      in e\<lparr>msgHash := sha256_hex (canonical e)\<rparr>)"

definition recordable :: "AuditEvent \<Rightarrow> bool" where
  "recordable e \<longleftrightarrow> clean (ts e) \<and> clean (actor e) \<and> clean (action e) \<and> clean (efileId e) \<and> clean (cipherHash e)"

lemma linked_chained:
  assumes "linked ''GENESIS'' 1 es" "recordable e" "clean nowText"
  shows "linked ''GENESIS'' 1 (es @ [chained nowText es e])"
  using assms clean_tail_hash [OF assms(1)]
  by (auto simp: linked_append chained_def Let_def tail_hash_def clean_event_def recordable_def add.commute)

lemma HashChain_record_ok:
  assumes "holds_chain es a" "recordable e" "clean nowText"
  shows "\<exists>a'. HashChain_record nowText Appended e a = (Inr (), a') \<and> holds_chain (es @ [chained nowText es e]) a'"
  using assms holds_chain_verify [OF assms(1)] not_corrupted [of es] linked_chained [of es e nowText]
  by (auto simp: HashChain_record_def Let_def holds_chain_def chained_def tail_hash_def log_text_def
      split: option.splits)

section \<open>The canonical form loses nothing\<close>

lemma escape_char_not_quote: "jsonEscape_char c @ x \<noteq> CHR 0x22 # y"
  by (auto simp: jsonEscape_char_def)

text \<open>The first character behind an escaped text, and the rest: an inverse of \<open>jsonEscape\<close>.\<close>

definition unescape1 :: "string \<Rightarrow> char \<times> string" where
  "unescape1 s =
     (if hd s \<noteq> CHR 0x5C then (hd s, tl s)
      else if s ! 1 = CHR 0x22 \<or> s ! 1 = CHR 0x5C then (s ! 1, drop 2 s)
      else if s ! 1 = CHR ''n'' then (CHR 0x0A, drop 2 s)
      else if s ! 1 = CHR ''r'' then (CHR 0x0D, drop 2 s)
      else if s ! 1 = CHR ''t'' then (CHR 0x09, drop 2 s)
      else (char_of (16 * the (hex_val (s ! 4)) + the (hex_val (s ! 5))), drop 6 s))"

lemma unescape1_hex:
  "unescape1 ([CHR 0x5C, CHR ''u'', CHR ''0'', CHR ''0''] @ hex_byte (byte_of_char c) @ x) = (c, x)"
proof -
  have "unescape1 ([CHR 0x5C, CHR ''u'', CHR ''0'', CHR ''0''] @ hex_byte b @ x) = (char_of (unat b), x)" for b
  proof -
    have "16 * (unat b div 16) + unat b mod 16 = unat b" by simp
    moreover have "hex_val (hex_digit (unat b div 16)) = Some (unat b div 16)"
      "hex_val (hex_digit (unat b mod 16)) = Some (unat b mod 16)" by (simp_all add: hex_val_digit)
    ultimately show ?thesis by (simp only: unescape1_def hex_byte_def append.simps list.sel) simp
  qed
  then show ?thesis using char_of_byte_inverse [of c] by (simp only: char_of_byte_def)
qed

lemma unescape1_escape: "unescape1 (jsonEscape_char c @ x) = (c, x)"
proof -
  consider "c = CHR 0x22" | "c = CHR 0x5C" | "c = CHR 0x0A" | "c = CHR 0x0D" | "c = CHR 0x09"
    | (ctl) "c \<notin> {CHR 0x22, CHR 0x5C, CHR 0x0A, CHR 0x0D, CHR 0x09}" "(of_char c :: nat) < 0x20"
    | (plain) "c \<notin> {CHR 0x22, CHR 0x5C, CHR 0x0A, CHR 0x0D, CHR 0x09}" "\<not> (of_char c :: nat) < 0x20"
    by blast
  then show ?thesis
  proof cases
    case ctl
    then have "jsonEscape_char c = [CHR 0x5C, CHR ''u'', CHR ''0'', CHR ''0''] @ hex_byte (byte_of_char c)"
      by (simp only: jsonEscape_char_def insert_iff de_Morgan_disj if_False if_True)
    then show ?thesis using unescape1_hex [of c x] by simp
  next
    case plain
    then have "jsonEscape_char c = [c]"
      by (simp only: jsonEscape_char_def insert_iff de_Morgan_disj if_False)
    with plain show ?thesis by (simp add: unescape1_def)
  qed (simp_all add: jsonEscape_char_def unescape1_def)
qed

lemma escape_char_split: "jsonEscape_char c @ x = jsonEscape_char d @ y \<longleftrightarrow> c = d \<and> x = y"
  by (metis unescape1_escape prod.inject)

lemma jsonEscape_Cons [simp]: "jsonEscape [] = []" "jsonEscape (c # s) = jsonEscape_char c @ jsonEscape s"
  by (simp_all add: jsonEscape_def)

lemma jsonEscape_split: "jsonEscape s @ CHR 0x22 # r = jsonEscape t @ CHR 0x22 # q \<longleftrightarrow> s = t \<and> r = q"
proof (induction s arbitrary: t)
  case Nil
  then show ?case
  proof (cases t)
    case (Cons d u)
    then show ?thesis using escape_char_not_quote [of d "jsonEscape u @ CHR 0x22 # q" r] by auto
  qed simp
next
  case (Cons c s)
  then show ?case
  proof (cases t)
    case Nil
    then show ?thesis using escape_char_not_quote [of c "jsonEscape s @ CHR 0x22 # r" q] by auto
  qed (simp add: escape_char_split)
qed

lemma jstr_split: "jstr s @ r = jstr t @ q \<longleftrightarrow> s = t \<and> r = q" "jstr s = jstr t \<longleftrightarrow> s = t"
  using jsonEscape_split [of s r t q] jsonEscape_split [of s "[]" t "[]"] by (simp_all add: jstr_def)

lemma dec_string_split:
  assumes "dec_string m @ CHR '','' # r = dec_string n @ CHR '','' # q"
  shows "m = n \<and> r = q"
proof -
  have nc: "CHR '','' \<notin> set (dec_string k)" for k
    using dec_string_digits [of "CHR '',''" k] by (auto simp: is_digit_def)
  have tw: "takeWhile (\<lambda>c. c \<noteq> CHR '','') (dec_string k @ CHR '','' # z) = dec_string k" for k z
    using nc [of k] by (simp add: takeWhile_tail takeWhile_append)
  have "dec_string m = dec_string n" using arg_cong [OF assms, of "takeWhile (\<lambda>c. c \<noteq> CHR '','')"] by (simp add: tw)
  then show ?thesis using assms dec_val_string by (metis append_same_eq same_append_eq list.inject)
qed

lemma canonical_inj:
  assumes "canonical e = canonical f"
  shows "e\<lparr>msgHash := ''''\<rparr> = f\<lparr>msgHash := ''''\<rparr>"
proof -
  let ?X = "\<lambda>e. jkey ''ts'' @ jstr (ts e)
     @ '','' @ jkey ''actor'' @ jstr (actor e)
     @ '','' @ jkey ''action'' @ jstr (action e)
     @ '','' @ jkey ''fileId'' @ jstr (efileId e)
     @ '','' @ jkey ''cipherHash'' @ jstr (cipherHash e)
     @ '','' @ jkey ''prevHash'' @ jstr (prevHash e) @ ''}''"
  have "dec_string (unat (seq e)) @ CHR '','' # ?X e = dec_string (unat (seq f)) @ CHR '','' # ?X f"
    using assms by (simp add: canonical_def)
  from dec_string_split [OF this] have "unat (seq e) = unat (seq f)" and r: "?X e = ?X f" by simp_all
  then have "seq e = seq f" by (simp add: word_unat_eq_iff)
  moreover have "ts e = ts f \<and> actor e = actor f \<and> action e = action f \<and> efileId e = efileId f
      \<and> cipherHash e = cipherHash f \<and> prevHash e = prevHash f"
    using r by (simp add: jstr_split)
  ultimately show ?thesis by simp
qed

section \<open>Chains read from a file\<close>

text \<open>The events \<open>verify\<close> reads from the lines of a log, each with the stored hash before it.\<close>

fun events_from :: "string \<Rightarrow> string list \<Rightarrow> AuditEvent list" where
  "events_from prev [] = []"
| "events_from prev (line # rest) = read_event prev line # events_from (getField ''msgHash'' line) rest"

definition end_hash :: "string \<Rightarrow> string list \<Rightarrow> string" where
  "end_hash prev ls = (if ls = [] then prev else getField ''msgHash'' (last ls))"

lemma events_from_append:
  "events_from p (ls @ [l]) = events_from p ls @ [read_event (end_hash p ls) l]"
  by (induction ls arbitrary: p) (auto simp: end_hash_def)

lemma length_events_from [simp]: "length (events_from p ls) = length ls"
  by (induction ls arbitrary: p) auto

lemma verify_lines_append:
  assumes "[] \<notin> set ls" "l \<noteq> []"
  shows "verify_lines p n (ls @ [l]) \<longleftrightarrow> verify_lines p n ls
     \<and> seq (read_event (end_hash p ls) l) = n + word_of_nat (length ls)
     \<and> getField ''prevHash'' l = end_hash p ls
     \<and> getField ''msgHash'' l = sha256_hex (canonical (read_event (end_hash p ls) l))"
  using assms
proof (induction ls arbitrary: p n)
  case Nil
  then show ?case by (auto simp: Let_def end_hash_def)
next
  case (Cons a ls)
  then show ?case by (auto simp: Let_def end_hash_def ac_simps)
qed

lemma chain_collision_or_equal:
  assumes "length ls = length ks" "[] \<notin> set ls" "[] \<notin> set ks" "verify_lines p n ls" "verify_lines p n ks"
    "end_hash p ls = end_hash p ks"
  shows "events_from p ls = events_from p ks
     \<or> (\<exists>i<length ls. canonical (events_from p ls ! i) \<noteq> canonical (events_from p ks ! i)
            \<and> sha256_hex (canonical (events_from p ls ! i)) = sha256_hex (canonical (events_from p ks ! i)))"
  using assms
proof (induction ls arbitrary: ks rule: rev_induct)
  case Nil
  then show ?case by simp
next
  case (snoc l ls)
  then obtain ks' k where ks: "ks = ks' @ [k]" "length ks' = length ls" by (cases ks rule: rev_cases) auto
  let ?e = "read_event (end_hash p ls) l" and ?f = "read_event (end_hash p ks') k"
  have ne: "[] \<notin> set ls" "l \<noteq> []" "[] \<notin> set ks'" "k \<noteq> []" using snoc.prems ks by auto
  note v = snoc.prems(4) [unfolded verify_lines_append [OF ne(1,2)]]
    snoc.prems(5) [unfolded ks(1) verify_lines_append [OF ne(3,4)]]
  have same: "sha256_hex (canonical ?e) = sha256_hex (canonical ?f)"
    using v snoc.prems(6) ks by (simp add: end_hash_def [of p "_ @ _"])
  show ?case
  proof (cases "canonical ?e = canonical ?f")
    case False
    then show ?thesis using same ks
      by (intro disjI2 exI [of _ "length ls"]) (simp add: events_from_append nth_append)
  next
    case True
    then have eq: "?e = ?f" using canonical_inj [OF True] by (simp add: read_event_def)
    then have "end_hash p ls = end_hash p ks'" by (metis AuditEvent.select_convs(7) read_event_def)
    from snoc.IH [OF ks(2) [symmetric] ne(1,3) v(1) [THEN conjunct1] v(2) [THEN conjunct1] this]
    show ?thesis
    proof
      assume "events_from p ls = events_from p ks'"
      then show ?thesis using eq ks(1) by (simp add: events_from_append)
    next
      assume "\<exists>i<length ls. canonical (events_from p ls ! i) \<noteq> canonical (events_from p ks' ! i)
            \<and> sha256_hex (canonical (events_from p ls ! i)) = sha256_hex (canonical (events_from p ks' ! i))"
      then obtain i where "i < length ls" "canonical (events_from p ls ! i) \<noteq> canonical (events_from p ks' ! i)"
        "sha256_hex (canonical (events_from p ls ! i)) = sha256_hex (canonical (events_from p ks' ! i))" by blast
      then show ?thesis using ks
        by (intro disjI2 exI [of _ i]) (simp add: events_from_append nth_append)
    qed
  qed
qed

section \<open>What the port promises\<close>

definition summary :: "AuditEvent \<Rightarrow> string \<times> string \<times> string" where
  "summary e = (actor e, action e, efileId e)"

locale audit_log =
  fixes A :: "'a IAuditLogger" and ready :: "'a \<Rightarrow> bool" and admissible :: "AuditEvent \<Rightarrow> bool"
  assumes record_ok: "ready a \<Longrightarrow> admissible e \<Longrightarrow> \<exists>a'. record_event A e a = (Inr (), a') \<and> ready a'
    \<and> map summary (all_events A a') = map summary (all_events A a) @ [summary e]"
begin

fun record_each :: "AuditEvent list \<Rightarrow> ('a, unit) sx" where
  "record_each [] = retS ()"
| "record_each (e # es) = bindS (record_event A e) (\<lambda>_. record_each es)"

lemma record_each_ok:
  "ready a \<Longrightarrow> list_all admissible es \<Longrightarrow> \<exists>a'. record_each es a = (Inr (), a') \<and> ready a'
    \<and> map summary (all_events A a') = map summary (all_events A a) @ map summary es"
proof (induction es arbitrary: a)
  case Nil
  then show ?case by (simp add: sx_simps)
next
  case (Cons e es)
  then obtain b where b: "record_event A e a = (Inr (), b)" "ready b"
    "map summary (all_events A b) = map summary (all_events A a) @ [summary e]"
    using record_ok [of a e] by auto
  then show ?case using Cons.IH [OF b(2)] Cons.prems by (auto simp: sx_simps)
qed

end

interpretation vector: audit_log vector_audit "\<lambda>_. True" "\<lambda>_. True"
  by unfold_locales (simp add: vector_audit_def Vector_record_def Vector_all_def Let_def summary_def)

lemma HashChain_all_chain:
  assumes "holds_chain es a"
  shows "map summary (HashChain_all a) = map summary es \<and> map seq (HashChain_all a) = map seq es"
proof -
  have c: "clean_event e" if "e \<in> set es" for e using assms that by (auto simp: holds_chain_def linked_clean)
  have "getField ''actor'' (logLine e) = actor e \<and> getField ''action'' (logLine e) = action e
      \<and> getField ''fileId'' (logLine e) = efileId e \<and> seq_of (getField ''seq'' (logLine e)) = seq e"
    if "e \<in> set es" for e
    using arg_cong [OF logLine_read(1) [OF c [OF that], of "''''"], of actor]
      arg_cong [OF logLine_read(1) [OF c [OF that], of "''''"], of action]
      arg_cong [OF logLine_read(1) [OF c [OF that], of "''''"], of efileId]
      arg_cong [OF logLine_read(1) [OF c [OF that], of "''''"], of seq]
    by (simp add: read_event_def)
  moreover have "(case logFile a of None \<Rightarrow> [] | Some s \<Rightarrow> getlines s) = map logLine es"
    using assms c by (auto simp: holds_chain_def getlines_log_text split: option.splits)
  ultimately show ?thesis by (simp add: HashChain_all_def summary_def)
qed

interpretation chain: audit_log "hash_chain_audit nowText Appended" "\<lambda>a. \<exists>es. holds_chain es a"
  "\<lambda>e. recordable e \<and> clean nowText" for nowText
proof (unfold_locales, goal_cases)
  case (1 a e)
  then obtain es a' where a': "holds_chain es a" "HashChain_record nowText Appended e a = (Inr (), a')"
    "holds_chain (es @ [chained nowText es e]) a'"
    using HashChain_record_ok by blast
  moreover have "summary (chained nowText es e) = summary e"
    by (simp add: chained_def summary_def Let_def)
  ultimately show ?case using HashChain_all_chain [OF a'(1)] HashChain_all_chain [OF a'(3)]
    by (auto simp: hash_chain_audit_def)
qed

lemma linked_seq: "linked p n es \<Longrightarrow> map seq es = map (\<lambda>i. n + word_of_nat i) [0..<length es]"
proof (induction es rule: rev_induct)
  case (snoc e es) then show ?case by (simp add: linked_append)
qed simp

lemma linked_last:
  assumes "linked ''GENESIS'' 1 es" "es \<noteq> []"
  shows "seq (last es) = word_of_nat (length es) \<and> length (msgHash (last es)) = 64"
  using assms by (cases es rule: rev_cases) (simp_all add: linked_append)

lemma reopen_chain:
  assumes "holds_chain es a"
  shows "HashChain_open (logFile a) = a"
proof (cases "logFile a")
  case None
  then show ?thesis using assms by (simp add: HashChain_open_def holds_chain_def tail_hash_def)
next
  case (Some s)
  have lk: "linked ''GENESIS'' 1 es" and s: "s = log_text es" using assms Some by (simp_all add: holds_chain_def)
  have lines: "getlines s = map logLine es" using s linked_clean [OF lk] by (simp add: getlines_log_text)
  have v: "verify \<lparr>logFile = Some s, lastHash = h, lastSeq = n\<rparr>" for h n
    using holds_chain_verify [OF assms] Some by (simp add: verify_def)
  show ?thesis
  proof (cases "es = []")
    case True
    then show ?thesis using assms Some lines by (simp add: HashChain_open_def holds_chain_def tail_hash_def)
  next
    case False
    then have "clean_event (last es)" using linked_clean [OF lk] by simp
    then show ?thesis
      using False Some lines v assms linked_last [OF lk False] logLine_read(4,5) [of "last es"]
      by (auto simp: HashChain_open_def holds_chain_def tail_hash_def Let_def last_map)
  qed
qed

section \<open>Events that need an escape\<close>

lemma escape_char_safe:
  assumes "c \<noteq> CHR 0x22" "c \<noteq> CHR 0x5C"
  shows "CHR 0x22 \<notin> set (jsonEscape_char c) \<and> CHR 0x0A \<notin> set (jsonEscape_char c)
     \<and> jsonEscape_char c \<noteq> [] \<and> last (jsonEscape_char c) \<noteq> CHR 0x5C"
proof -
  have h: "clean (hex_byte b)" for b using clean_hex_string [of "[b]"] by simp
  have "last (hex_byte b) \<noteq> CHR 0x5C" for b
    using clean_no_backslash [OF h, of b] by (auto simp: hex_byte_def)
  then show ?thesis using assms clean_no_quote [OF h] clean_no_newline [OF h]
    by (simp add: jsonEscape_char_def hex_byte_def)
qed

lemma escape_delimited:
  "CHR 0x22 \<notin> set s \<Longrightarrow> CHR 0x5C \<notin> set s \<Longrightarrow> delimited (jsonEscape s) \<and> CHR 0x0A \<notin> set (jsonEscape s)"
  by (induction s rule: rev_induct) (auto simp: delimited_def jsonEscape_def escape_char_safe)

lemma escape_longer: "length s \<le> length (jsonEscape s)"
proof (induction s)
  case (Cons c s)
  have "1 \<le> length (jsonEscape_char c)" by (simp add: jsonEscape_char_def)
  with Cons show ?case by simp
qed simp

lemma escape_changes: "\<not> clean s \<Longrightarrow> jsonEscape s \<noteq> s"
proof (induction s)
  case (Cons c s)
  show ?case
  proof (cases "clean [c]")
    case True
    then have "jsonEscape_char c = [c]" by (auto simp: clean_def jsonEscape_char_def)
    moreover have "\<not> clean s" using Cons.prems True clean_append [of "[c]" s] by simp
    ultimately show ?thesis using Cons.IH by simp
  next
    case False
    then have "1 < length (jsonEscape_char c)" by (auto simp: clean_def jsonEscape_char_def)
    then have "length (c # s) < length (jsonEscape (c # s))" using escape_longer [of s] by simp
    then show ?thesis by (metis less_irrefl)
  qed
qed simp

lemma log_text_snoc: "log_text (es @ [e]) = log_text es @ logLine e @ [CHR 0x0A]"
  by (simp add: log_text_def)

lemma getlines_two: "(\<And>e. e \<in> set es \<Longrightarrow> clean_event e) \<Longrightarrow> CHR 0x0A \<notin> set l \<Longrightarrow>
   getlines (log_text es @ l @ [CHR 0x0A]) = map logLine es @ [l]"
  by (induction es) (simp_all add: log_text_def getlines_append_line logLine_no_newline)

lemma end_hash_chain: "linked ''GENESIS'' 1 es \<Longrightarrow> end_hash ''GENESIS'' (map logLine es) = tail_hash es"
  by (auto simp: end_hash_def tail_hash_def last_map linked_clean logLine_read(3))

section \<open>Properties\<close>

text \<open>Recording a list of events, each with the time text of its moment.\<close>

fun record_timed :: "(string \<times> AuditEvent) list \<Rightarrow> (HashChainFileAuditLogger, unit) sx" where
  "record_timed [] = retS ()"
| "record_timed (p # tes) = bindS (HashChain_record (fst p) Appended (snd p)) (\<lambda>_. record_timed tes)"

lemma record_timed_chain:
  assumes "holds_chain es a" "list_all (\<lambda>(t, e). clean t \<and> recordable e) tes"
  shows "\<exists>a' fs. record_timed tes a = (Inr (), a') \<and> holds_chain (es @ fs) a'
     \<and> map summary fs = map (summary \<circ> snd) tes"
  using assms
proof (induction tes arbitrary: es a)
  case Nil
  then show ?case by (intro exI [of _ a] exI [of _ "[]"]) (simp add: sx_simps)
next
  case (Cons p tes)
  obtain t e where p: "p = (t, e)" by (cases p)
  obtain b where b: "HashChain_record t Appended e a = (Inr (), b)" "holds_chain (es @ [chained t es e]) b"
    using HashChain_record_ok [of es a e t] Cons.prems p by auto
  obtain a' fs where f: "record_timed tes b = (Inr (), a')" "holds_chain ((es @ [chained t es e]) @ fs) a'"
    "map summary fs = map (summary \<circ> snd) tes"
    using Cons.IH [OF b(2)] Cons.prems(2) by auto
  have "summary (chained t es e) = summary e" by (simp add: chained_def summary_def Let_def)
  then show ?case using b f p
    by (intro exI [of _ a'] exI [of _ "chained t es e # fs"]) (simp add: sx_simps)
qed

text \<open>
  C27. From an empty log, recording any events whose text needs no JSON escape never
  fails; the resulting file verifies, reads back as exactly those events in order with the
  sequence numbers 1, 2, and so on, and a logger opened on that file after a restart is in
  the same state as the one that wrote it.
\<close>

theorem audit_chain_records:
  assumes "list_all (\<lambda>(t, e). clean t \<and> recordable e) tes"
  shows "\<exists>a. record_timed tes (HashChain_open None) = (Inr (), a) \<and> verify a
     \<and> map summary (HashChain_all a) = map (summary \<circ> snd) tes
     \<and> map seq (HashChain_all a) = map (\<lambda>i. 1 + word_of_nat i) [0..<length tes]
     \<and> HashChain_open (logFile a) = a"
proof -
  have "holds_chain [] (HashChain_open None)" by (simp add: holds_chain_def HashChain_open_def tail_hash_def)
  from record_timed_chain [OF this assms] obtain a fs where a: "record_timed tes (HashChain_open None) = (Inr (), a)"
    "holds_chain fs a" "map summary fs = map (summary \<circ> snd) tes" by auto
  have "length fs = length tes" using arg_cong [OF a(3), of length] by simp
  moreover have "map seq fs = map (\<lambda>i. 1 + word_of_nat i) [0..<length fs]"
    using a(2) by (intro linked_seq) (auto simp: holds_chain_def)
  ultimately show ?thesis
    using a holds_chain_verify [OF a(2)] HashChain_all_chain [OF a(2)] reopen_chain [OF a(2)] by simp
qed

theorem audit_chain_records_witness:
  "\<exists>a. record_timed [(''2024-01-01T00:00:00Z'', event ''alice'' ''LOGIN_OK'' ''''),
                     (''2024-01-01T00:00:05Z'', event '''' ''LOGOUT'' '''')] (HashChain_open None) = (Inr (), a)
     \<and> verify a \<and> map summary (HashChain_all a) = [(''alice'', ''LOGIN_OK'', ''''), ('''', ''LOGOUT'', '''')]"
  using audit_chain_records [of "[(''2024-01-01T00:00:00Z'', event ''alice'' ''LOGIN_OK'' ''''),
                     (''2024-01-01T00:00:05Z'', event '''' ''LOGOUT'' '''')]"]
  by (auto simp: recordable_def clean_def summary_def)

text \<open>
  C28. Tamper evidence: if two logs of equal length, without blank lines, both verify and end in the same
  hash, then every entry reads the same in both (sequence number, time, actor, action,
  file, hashes), or the two logs themselves exhibit a SHA-256 collision: at some position
  two different canonical texts with one hash.
\<close>

theorem audit_tamper_evident:
  assumes "length ls = length ks" "[] \<notin> set ls" "[] \<notin> set ks"
    "verify_lines ''GENESIS'' 1 ls" "verify_lines ''GENESIS'' 1 ks"
    "ls \<noteq> []" "getField ''msgHash'' (last ls) = getField ''msgHash'' (last ks)"
  shows "events_from ''GENESIS'' ls = events_from ''GENESIS'' ks
     \<or> (\<exists>i<length ls.
          canonical (events_from ''GENESIS'' ls ! i) \<noteq> canonical (events_from ''GENESIS'' ks ! i)
          \<and> sha256_hex (canonical (events_from ''GENESIS'' ls ! i))
             = sha256_hex (canonical (events_from ''GENESIS'' ks ! i)))"
proof -
  have "end_hash ''GENESIS'' ls = end_hash ''GENESIS'' ks" using assms by (auto simp: end_hash_def)
  from chain_collision_or_equal [OF assms(1-5) this] show ?thesis .
qed

theorem audit_tamper_evident_witness:
  "events_from ''GENESIS'' [logLine (chained ''t'' [] (event ''bob'' ''LOGIN_FAIL'' ''''))]
     = [(chained ''t'' [] (event ''bob'' ''LOGIN_FAIL'' ''''))\<lparr>msgHash := ''''\<rparr>]
   \<and> verify_lines ''GENESIS'' 1 [logLine (chained ''t'' [] (event ''bob'' ''LOGIN_FAIL'' ''''))]"
proof -
  let ?e = "chained ''t'' [] (event ''bob'' ''LOGIN_FAIL'' '''')"
  have "linked ''GENESIS'' 1 ([] @ [?e])"
    by (rule linked_chained) (simp_all add: recordable_def clean_def)
  then have e: "linked ''GENESIS'' 1 [?e]" by simp
  then have "clean_event ?e" "prevHash ?e = ''GENESIS''" by simp_all
  then have r: "read_event ''GENESIS'' (logLine ?e) = ?e\<lparr>msgHash := ''''\<rparr>" "logLine ?e \<noteq> []"
    using logLine_read(1) [of ?e "''GENESIS''"] logLine_no_newline [of ?e] by (auto simp del: chained_def)
  have v: "verify_lines ''GENESIS'' 1 [logLine ?e]" using verify_linked [OF e] by simp
  have "events_from ''GENESIS'' [logLine ?e] = events_from ''GENESIS'' [logLine ?e]
     \<or> (\<exists>i<length [logLine ?e].
          canonical (events_from ''GENESIS'' [logLine ?e] ! i) \<noteq> canonical (events_from ''GENESIS'' [logLine ?e] ! i)
          \<and> sha256_hex (canonical (events_from ''GENESIS'' [logLine ?e] ! i))
             = sha256_hex (canonical (events_from ''GENESIS'' [logLine ?e] ! i)))"
    by (rule audit_tamper_evident) (use v r(2) in auto)
  with v r show ?thesis by simp
qed

text \<open>
  C29. An actor name with a control character (and no quote or backslash) breaks the log.
  The event is written as \<open>g\<close>, the event with its number, time and link, and hashed as that;
  but \<open>verify\<close> reads the actor in its escaped form and escapes it again, so what it hashes is
  the canonical text of \<open>g\<close> with the escaped actor, a different text. The file verifies
  afterwards exactly if these two texts have one SHA-256, a collision; otherwise every later
  \<open>record\<close> throws and writes nothing.
\<close>

theorem audit_escape_breaks_chain:
  assumes "holds_chain es a" "clean nowText" "recordable (e\<lparr>actor := ''''\<rparr>)"
    "CHR 0x22 \<notin> set (actor e)" "CHR 0x5C \<notin> set (actor e)" "\<not> clean (actor e)"
  shows "let g = chained nowText es e; g' = g\<lparr>actor := jsonEscape (actor e)\<rparr>
     in \<exists>a'. HashChain_record nowText Appended e a = (Inr (), a') \<and> canonical g \<noteq> canonical g'
       \<and> (verify a' \<longleftrightarrow> sha256_hex (canonical g) = sha256_hex (canonical g'))
       \<and> (\<not> verify a' \<longrightarrow> HashChain_record t ap f a' = (Inl (RuntimeError ''audit chain verification failed before append''), a'))"
proof -
  let ?g = "chained nowText es e"
  let ?g' = "?g\<lparr>actor := jsonEscape (actor ?g)\<rparr>"
  have lk: "linked ''GENESIS'' 1 es" using assms(1) by (simp add: holds_chain_def)
  have act: "actor ?g = actor e" by (simp add: chained_def Let_def)
  have esc: "delimited (jsonEscape (actor e))" "CHR 0x0A \<notin> set (jsonEscape (actor e))"
    using escape_delimited [OF assms(4,5)] by simp_all
  have cl: "clean (ts ?g) \<and> clean (action ?g) \<and> clean (efileId ?g) \<and> clean (cipherHash ?g) \<and> clean (prevHash ?g)
      \<and> clean (msgHash ?g)"
    using assms(2,3) clean_tail_hash [OF lk] by (simp add: chained_def Let_def recordable_def)
  have del: "list_all (\<lambda>(k, v). delimited v) (event_fields_list ?g)"
    using cl esc act by (simp add: event_fields_list_def clean_delimited)
  have nl: "CHR 0x0A \<notin> set (logLine ?g)" "logLine ?g \<noteq> []"
    using cl esc act clean_no_newline [OF clean_dec_string]
    by (auto simp: logLine_def jstr_def jkey_def dest: clean_no_newline)
  have diff: "canonical ?g \<noteq> canonical ?g'"
    using arg_cong [OF canonical_inj [of ?g ?g'], of actor] escape_changes [OF assms(6)] act by auto
  obtain a' where a': "HashChain_record nowText Appended e a = (Inr (), a')"
    "logFile a' = Some (log_text es @ logLine ?g @ [CHR 0x0A])" "lastHash a' = msgHash ?g"
    using assms(1) holds_chain_verify [OF assms(1)] not_corrupted [OF lk]
    by (auto simp: HashChain_record_def Let_def holds_chain_def chained_def log_text_def split: option.splits)
  have ne: "[] \<notin> set (map logLine es)" using linked_clean [OF lk] logLine_no_newline by fastforce
  have rd: "read_event (tail_hash es) (logLine ?g) = ?g'\<lparr>msgHash := ''''\<rparr>"
    using logLine_read_escaped(1) [OF del] cl by (simp add: chained_def Let_def)
  have "verify a' \<longleftrightarrow> sha256_hex (canonical ?g) = sha256_hex (canonical ?g')"
    using a'(2) getlines_two [of es "logLine ?g"] linked_clean [OF lk] nl verify_lines_append [OF ne nl(2)]
      verify_linked [OF lk] end_hash_chain [OF lk] rd logLine_read_escaped(2,3) [OF del] cl
    by (simp add: verify_def) (simp add: chained_def Let_def add.commute eq_commute)
  moreover have "length (msgHash ?g) = 64" by (simp add: chained_def Let_def)
  then have "lastHash a' \<noteq> ''CORRUPTED''" using a'(3) by auto
  ultimately show ?thesis using a'(1) diff unfolding Let_def act [symmetric]
    by (intro exI [of _ a']) (simp add: HashChain_record_def)
qed

theorem audit_escape_breaks_chain_witness:
  "let g = chained ''t'' [] (event (''bob'' @ [CHR 0x09]) ''LOGIN_FAIL'' ''''); g' = g\<lparr>actor := ''bob'' @ [CHR 0x5C] @ ''t''\<rparr>
   in \<exists>a'. HashChain_record ''t'' Appended (event (''bob'' @ [CHR 0x09]) ''LOGIN_FAIL'' '''') (HashChain_open None) = (Inr (), a')
     \<and> canonical g \<noteq> canonical g' \<and> (verify a' \<longleftrightarrow> sha256_hex (canonical g) = sha256_hex (canonical g'))
     \<and> (\<not> verify a' \<longrightarrow> HashChain_record ''t'' Appended (event ''eve'' ''LOGIN_OK'' '''') a'
          = (Inl (RuntimeError ''audit chain verification failed before append''), a'))"
proof -
  let ?e = "event (''bob'' @ [CHR 0x09]) ''LOGIN_FAIL'' ''''"
  have "holds_chain [] (HashChain_open None)" by (simp add: holds_chain_def HashChain_open_def tail_hash_def)
  moreover have "jsonEscape (actor ?e) = ''bob'' @ [CHR 0x5C] @ ''t''" by (simp add: jsonEscape_def jsonEscape_char_def)
  ultimately show ?thesis
    using audit_escape_breaks_chain [of "[]" "HashChain_open None" "''t''" ?e "''t''" Appended "event ''eve'' ''LOGIN_OK'' ''''"]
    unfolding Let_def by (simp add: clean_def recordable_def)
qed

end
