(* ===== verification/Hasher.thy ===== *)
theory Hasher
  imports Domain "HOL-Library.AList"
begin

text \<open>
  The password hasher port (\<^verbatim>\<open>include/ports/password_hasher.hpp\<close>) with its law as a
  locale, the table-based hasher of \<^verbatim>\<open>fake_hasher.hpp\<close>, and the wrapper around the
  Argon2 library of \<^verbatim>\<open>argon2_hasher.cpp\<close>, with the library's functions as parameters.
\<close>

record 'h IPasswordHasher =
  hash_password :: "random_device \<Rightarrow> string \<Rightarrow> ('h, string) sx"
  verify_password :: "string \<Rightarrow> string \<Rightarrow> 'h \<Rightarrow> bool"

section \<open>The fake hasher\<close>

record FakeHasher =
  known :: "(string \<times> string) list"
  ctr :: nat

definition FakeHasher_hash :: "random_device \<Rightarrow> string \<Rightarrow> (FakeHasher, string) sx" where
  "FakeHasher_hash rd pw m =
     (let d = sha256stub (pw @ dec_string (ctr m));
          h = ''$fake$'' @ concat (map hex_byte (dbytes d))
      in (Inr h, m\<lparr>known := AList.update h pw (known m), ctr := ctr m + 1\<rparr>))"

definition FakeHasher_verify :: "string \<Rightarrow> string \<Rightarrow> FakeHasher \<Rightarrow> bool" where
  "FakeHasher_verify h pw m = (case map_of (known m) h of None \<Rightarrow> False | Some p \<Rightarrow> p = pw)"

definition fake_hasher :: "FakeHasher IPasswordHasher" where
  "fake_hasher = \<lparr>hash_password = FakeHasher_hash, verify_password = FakeHasher_verify\<rparr>"

section \<open>The Argon2 hasher\<close>

text \<open>
  The library calls: \<open>argon2id_hash_encoded\<close> returns an error code and, when that is
  \<open>ARGON2_OK\<close> (zero), the encoded hash; \<open>argon2id_verify\<close> returns a code.
\<close>

record argon2_lib =
  argon2id_hash_encoded :: "nat \<Rightarrow> nat \<Rightarrow> nat \<Rightarrow> string \<Rightarrow> bytes \<Rightarrow> nat \<Rightarrow> int \<times> string"
  argon2id_verify :: "string \<Rightarrow> string \<Rightarrow> int"
  argon2_error_message :: "int \<Rightarrow> string"

definition Argon2Hasher_hash :: "argon2_lib \<Rightarrow> random_device \<Rightarrow> string \<Rightarrow> (unit, string) sx" where
  "Argon2Hasher_hash lib rd pw m =
     (let salt = map (rd_byte rd) [0..<16]
      in case argon2id_hash_encoded lib 2 19456 1 pw salt 32 of
           (rc, out) \<Rightarrow>
             if rc \<noteq> 0 then (Inl (RuntimeError (argon2_error_message lib rc)), m) else (Inr out, m))"

definition Argon2Hasher_verify :: "argon2_lib \<Rightarrow> string \<Rightarrow> string \<Rightarrow> unit \<Rightarrow> bool" where
  "Argon2Hasher_verify lib enc pw m \<longleftrightarrow> argon2id_verify lib enc pw = 0"

definition argon2_hasher :: "argon2_lib \<Rightarrow> unit IPasswordHasher" where
  "argon2_hasher lib = \<lparr>hash_password = Argon2Hasher_hash lib, verify_password = Argon2Hasher_verify lib\<rparr>"

section \<open>What the port promises\<close>

text \<open>A password verifies against the hash that was just made of it.\<close>

locale password_hasher =
  fixes H :: "'h IPasswordHasher"
  assumes hash_verify: "\<exists>enc h'. hash_password H rd pw h = (Inr enc, h') \<and> verify_password H enc pw h'"

interpretation fake_pw: password_hasher fake_hasher
  by unfold_locales (simp add: fake_hasher_def FakeHasher_hash_def FakeHasher_verify_def Let_def update_conv')

end
