(* ===== verification/AuthService.thy ===== *)
theory AuthService
  imports UserRepo Sessions AuditLog Hasher
begin

text \<open>
  The authentication service (\<^verbatim>\<open>src/application/auth_service.cpp\<close>): registration, login
  with lockout, and logout, over the ports it is constructed with. The clock reading and
  the random devices of a call are its arguments. The theorems are proved once, in the
  locales \<open>auth_core\<close> (whatever the audit log does) and \<open>auth_ports\<close> (when the audit log
  works), from the laws of the ports, and hold for the in-memory ports with any audit log,
  respectively with the vector audit and the hash-chained audit file.
\<close>

section \<open>The service\<close>

record ('r, 'h, 's, 'a) AuthState =
  st_repo :: 'r
  st_hasher :: 'h
  st_sessions :: 's
  st_audit :: 'a

record ('r, 'h, 's, 'a) AuthPorts =
  p_repo :: "'r IUserRepository"
  p_hasher :: "'h IPasswordHasher"
  p_sessions :: "'s ISessionStore"
  p_audit :: "'a IAuditLogger"

definition onRepo :: "('r, 'x) sx \<Rightarrow> (('r, 'h, 's, 'a) AuthState, 'x) sx" where
  "onRepo m = zoomS st_repo (\<lambda>x s. s\<lparr>st_repo := x\<rparr>) m"

definition onHasher :: "('h, 'x) sx \<Rightarrow> (('r, 'h, 's, 'a) AuthState, 'x) sx" where
  "onHasher m = zoomS st_hasher (\<lambda>x s. s\<lparr>st_hasher := x\<rparr>) m"

definition onSessions :: "('s, 'x) sx \<Rightarrow> (('r, 'h, 's, 'a) AuthState, 'x) sx" where
  "onSessions m = zoomS st_sessions (\<lambda>x s. s\<lparr>st_sessions := x\<rparr>) m"

definition onAudit :: "('a, 'x) sx \<Rightarrow> (('r, 'h, 's, 'a) AuthState, 'x) sx" where
  "onAudit m = zoomS st_audit (\<lambda>x s. s\<lparr>st_audit := x\<rparr>) m"

text \<open>Record one event, then return.\<close>

definition auditing :: "('r, 'h, 's, 'a) AuthPorts \<Rightarrow> AuditEvent \<Rightarrow> 'x \<Rightarrow> (('r, 'h, 's, 'a) AuthState, 'x) sx" where
  "auditing P e x = bindS (onAudit (record_event (p_audit P) e)) (\<lambda>_. retS x)"

definition registerUser ::
  "('r, 'h, 's, 'a) AuthPorts \<Rightarrow> random_device \<Rightarrow> random_device \<Rightarrow> string \<Rightarrow> string \<Rightarrow> string \<Rightarrow> string
   \<Rightarrow> (('r, 'h, 's, 'a) AuthState, UserId Result) sx" where
  "registerUser P rdSalt rdId u mail pw rl =
     (if u = [] \<or> mail = [] \<or> length pw < 8 then retS (failure ''Registration failed'')
      else bindS (getS (\<lambda>s. findByUsername (p_repo P) u (st_repo s))) (\<lambda>byName.
           bindS (if ok byName then retS True
                  else bindS (getS (\<lambda>s. findByEmail (p_repo P) mail (st_repo s))) (\<lambda>byMail. retS (ok byMail))) (\<lambda>taken.
           if taken
           then auditing P (event ''system'' ''REGISTER_FAIL'' '''') (failure ''Registration failed'')
           else bindS (onHasher (hash_password (p_hasher P) rdSalt pw)) (\<lambda>encoded.
                let newId = generateUserId rdId
                in bindS (getS (\<lambda>_. mkUser newId u mail rl ''active'' 0 0)) (\<lambda>nu.
                   bindS (catchS (bindS (onRepo (saveUser (p_repo P) nu encoded)) (\<lambda>_. retS True)) (\<lambda>_. retS False)) (\<lambda>saved.
                   if saved then auditing P (event u ''REGISTER_OK'' '''') (success newId)
                   else auditing P (event ''system'' ''REGISTER_FAIL'' '''') (failure ''Registration failed'')))))))"

definition login ::
  "('r, 'h, 's, 'a) AuthPorts \<Rightarrow> random_device \<Rightarrow> int \<Rightarrow> string \<Rightarrow> string
   \<Rightarrow> (('r, 'h, 's, 'a) AuthState, SessionId Result) sx" where
  "login P rd now u pw =
     bindS (getS (\<lambda>s. findByUsername (p_repo P) u (st_repo s))) (\<lambda>found.
     case got found of
       None \<Rightarrow> auditing P (event u ''LOGIN_FAIL'' '''') (failure ''Login failed'')
     | Some user \<Rightarrow>
         if \<not> canLogin user now
         then auditing P (event u ''LOGIN_FAIL'' '''') (failure ''Login failed'')
         else bindS (getS (\<lambda>s. getEncodedHash (p_repo P) (user_id user) (st_repo s))) (\<lambda>enc.
              bindS (getS (\<lambda>s. Inr (verify_password (p_hasher P) enc pw (st_hasher s)))) (\<lambda>good.
              if \<not> good
              then bindS (onRepo (recordLoginFailure (p_repo P) (user_id user) now)) (\<lambda>_.
                   auditing P (event u ''LOGIN_FAIL'' '''') (failure ''Login failed''))
              else bindS (onRepo (resetLoginFailures (p_repo P) (user_id user))) (\<lambda>_.
                   bindS (onSessions (createForUser (p_sessions P) rd (user_id user) now)) (\<lambda>token.
                   auditing P (event u ''LOGIN_OK'' '''') (success token))))))"

definition logout :: "('r, 'h, 's, 'a) AuthPorts \<Rightarrow> SessionId \<Rightarrow> (('r, 'h, 's, 'a) AuthState, bool) sx" where
  "logout P tok =
     bindS (onSessions (invalidate (p_sessions P) tok)) (\<lambda>r.
     if r then auditing P (event '''' ''LOGOUT'' '''') r else retS r)"

definition wired :: "'r IUserRepository \<Rightarrow> 'h IPasswordHasher \<Rightarrow> 's ISessionStore \<Rightarrow> 'a IAuditLogger \<Rightarrow> ('r, 'h, 's, 'a) AuthPorts" where
  "wired R H S A = \<lparr>p_repo = R, p_hasher = H, p_sessions = S, p_audit = A\<rparr>"

lemma wired_sel [simp]:
  "p_repo (wired R H S A) = R" "p_hasher (wired R H S A) = H" "p_sessions (wired R H S A) = S" "p_audit (wired R H S A) = A"
  by (simp_all add: wired_def)

definition mem_ports :: "'a IAuditLogger \<Rightarrow> (MemoryUserRepository, FakeHasher, MemorySessionStore, 'a) AuthPorts" where
  "mem_ports A = \<lparr>p_repo = memory_users, p_hasher = fake_hasher, p_sessions = memory_sessions, p_audit = A\<rparr>"

lemma mem_ports_sel [simp]:
  "p_repo (mem_ports A) = memory_users" "p_hasher (mem_ports A) = fake_hasher"
  "p_sessions (mem_ports A) = memory_sessions" "p_audit (mem_ports A) = A"
  by (simp_all add: mem_ports_def)

lemmas on_simps [sx_simps] = onRepo_def onHasher_def onSessions_def onAudit_def auditing_def

section \<open>The service over the laws of its ports\<close>

locale auth_core =
  user_repository "p_repo P" inv users hashes + session_store "p_sessions P" sess
  + password_hasher "p_hasher P"
  for P :: "('r, 'h, 's, 'a) AuthPorts" and inv users hashes sess
begin

lemma auditing_state: "\<exists>a r. auditing P e x s = (r, s\<lparr>st_audit := a\<rparr>) \<and> (r = Inr x \<or> (\<exists>ex. r = Inl ex))"
  by (cases "record_event (p_audit P) e (st_audit s)") (auto simp: sx_simps split: sum.split)

lemma login_unknown:
  assumes "inv (st_repo s)" "u \<notin> username ` ran (users (st_repo s))"
  shows "login P rd now u pw s = auditing P (event u ''LOGIN_FAIL'' '''') (failure ''Login failed'') s"
  using findByUsername_miss [OF assms] by (simp add: login_def sx_simps)

lemma login_blocked:
  assumes "inv (st_repo s)" "users (st_repo s) i = Some user" "username user = u" "\<not> canLogin user now"
  shows "login P rd now u pw s = auditing P (event u ''LOGIN_FAIL'' '''') (failure ''Login failed'') s"
  using findByUsername_hit [OF assms(1,2)] assms(3,4) by (simp add: login_def sx_simps)

lemma login_wrong_password:
  assumes "inv (st_repo s)" "users (st_repo s) i = Some user" "username user = u" "canLogin user now"
    "hashes (st_repo s) i = Some enc" "\<not> verify_password (p_hasher P) enc pw (st_hasher s)"
  shows "\<exists>r'. login P rd now u pw s
       = auditing P (event u ''LOGIN_FAIL'' '''') (failure ''Login failed'') (s\<lparr>st_repo := r'\<rparr>)
     \<and> inv r' \<and> users r' = (users (st_repo s))(i \<mapsto> login_failed user now) \<and> hashes r' = hashes (st_repo s)"
proof -
  have i: "uid (user_id user) = i" using keyed [OF assms(1,2)] .
  obtain r' where "recordLoginFailure (p_repo P) (user_id user) now (st_repo s) = (Inr (), r')" "inv r'"
    "users r' = (users (st_repo s))(i \<mapsto> login_failed user now)" "hashes r' = hashes (st_repo s)"
    using recordLoginFailure [OF assms(1), of "user_id user"] assms(2) i by auto
  then show ?thesis
    using findByUsername_hit [OF assms(1,2)] getEncodedHash [OF assms(1), of "user_id user"] assms(3-) i
    by (intro exI [of _ r']) (simp add: login_def bindS_def getS_def onRepo_def zoomS_def)
qed

lemma login_right_password:
  assumes "inv (st_repo s)" "users (st_repo s) i = Some user" "username user = u" "canLogin user now"
    "hashes (st_repo s) i = Some enc" "verify_password (p_hasher P) enc pw (st_hasher s)"
  shows "\<exists>r' ss'. login P rd now u pw s
       = auditing P (event u ''LOGIN_OK'' '''') (success (generateSessionId rd)) (s\<lparr>st_repo := r', st_sessions := ss'\<rparr>)
     \<and> inv r' \<and> users r' = (users (st_repo s))(i \<mapsto> setLockout user 0 0) \<and> hashes r' = hashes (st_repo s)
     \<and> sess ss' (generateSessionId rd) = Some (new_session (generateSessionId rd) (user_id user) now)
     \<and> (\<forall>t. sess ss' t = sess (st_sessions s) t
            \<or> sess ss' t = Some (new_session (generateSessionId rd) (user_id user) now))"
proof -
  have i: "uid (user_id user) = i" using keyed [OF assms(1,2)] .
  obtain r' where r': "resetLoginFailures (p_repo P) (user_id user) (st_repo s) = (Inr (), r')" "inv r'"
    "users r' = (users (st_repo s))(i \<mapsto> setLockout user 0 0)" "hashes r' = hashes (st_repo s)"
    using resetLoginFailures [OF assms(1), of "user_id user"] assms(2) i by auto
  obtain ss' where "createForUser (p_sessions P) rd (user_id user) now (st_sessions s) = (Inr (generateSessionId rd), ss')"
    "sess ss' (generateSessionId rd) = Some (new_session (generateSessionId rd) (user_id user) now)"
    "\<forall>t. sess ss' t = sess (st_sessions s) t \<or> sess ss' t = Some (new_session (generateSessionId rd) (user_id user) now)"
    using create by blast
  with r' show ?thesis
    using findByUsername_hit [OF assms(1,2)] getEncodedHash [OF assms(1), of "user_id user"] assms(3-) i
    by (intro exI [of _ r'] exI [of _ ss']) (simp add: login_def bindS_def getS_def onRepo_def onSessions_def zoomS_def)
qed

end

context auth_core begin

lemma auditing_Inr: "auditing P e x s = (Inr y, s') \<Longrightarrow> y = x \<and> (\<exists>a. s' = s\<lparr>st_audit := a\<rparr>)"
  using auditing_state [of e x s] by auto

lemma auditing_not_success: "auditing P e (failure m) t \<noteq> (Inr (success v), t')"
  using auditing_Inr [of e "failure m" t "success v" t'] by auto

lemma login_cases:
  assumes "inv (st_repo s)"
  obtains (unknown) "u \<notin> username ` ran (users (st_repo s))"
      "login P rd now u pw s = auditing P (event u ''LOGIN_FAIL'' '''') (failure ''Login failed'') s"
  | (blocked) i user where "users (st_repo s) i = Some user" "username user = u" "\<not> canLogin user now"
      "login P rd now u pw s = auditing P (event u ''LOGIN_FAIL'' '''') (failure ''Login failed'') s"
  | (wrong) i user enc r' where "users (st_repo s) i = Some user" "username user = u" "canLogin user now"
      "hashes (st_repo s) i = Some enc" "\<not> verify_password (p_hasher P) enc pw (st_hasher s)"
      "login P rd now u pw s
         = auditing P (event u ''LOGIN_FAIL'' '''') (failure ''Login failed'') (s\<lparr>st_repo := r'\<rparr>)"
      "inv r'" "users r' = (users (st_repo s))(i \<mapsto> login_failed user now)" "hashes r' = hashes (st_repo s)"
  | (right) i user enc r' ss' where "users (st_repo s) i = Some user" "username user = u" "canLogin user now"
      "hashes (st_repo s) i = Some enc" "verify_password (p_hasher P) enc pw (st_hasher s)"
      "login P rd now u pw s = auditing P (event u ''LOGIN_OK'' '''') (success (generateSessionId rd))
         (s\<lparr>st_repo := r', st_sessions := ss'\<rparr>)"
      "inv r'" "users r' = (users (st_repo s))(i \<mapsto> setLockout user 0 0)" "hashes r' = hashes (st_repo s)"
      "sess ss' (generateSessionId rd) = Some (new_session (generateSessionId rd) (user_id user) now)"
      "\<forall>t. sess ss' t = sess (st_sessions s) t \<or> sess ss' t = Some (new_session (generateSessionId rd) (user_id user) now)"
proof (cases "u \<in> username ` ran (users (st_repo s))")
  case False
  then show thesis using login_unknown [OF assms] unknown by blast
next
  case True
  then obtain i user where u: "users (st_repo s) i = Some user" "username user = u" by (auto simp: ran_def)
  show thesis
  proof (cases "canLogin user now")
    case False
    then show thesis using login_blocked [OF assms u] blocked u by blast
  next
    case can: True
    obtain enc where enc: "hashes (st_repo s) i = Some enc" using has_hash [OF assms u(1)] by blast
    show thesis
    proof (cases "verify_password (p_hasher P) enc pw (st_hasher s)")
      case True
      then show thesis using login_right_password [OF assms u can enc, of pw rd] right u can enc by blast
    next
      case False
      then show thesis using login_wrong_password [OF assms u can enc, of pw rd] wrong u can enc by blast
    qed
  qed
qed

lemma login_sound:
  assumes "inv (st_repo s)" "login P rd now u pw s = (Inr (success tok), s')"
  shows "tok = generateSessionId rd \<and> (\<exists>i user enc.
     users (st_repo s) i = Some user \<and> username user = u \<and> isActive user \<and> lockoutUntil user \<le> now
     \<and> hashes (st_repo s) i = Some enc \<and> verify_password (p_hasher P) enc pw (st_hasher s)
     \<and> users (st_repo s') = (users (st_repo s))(i \<mapsto> setLockout user 0 0)
     \<and> userFor (p_sessions P) tok (st_sessions s') = Inr (user_id user)
     \<and> (\<forall>x. isValid (p_sessions P) tok x (st_sessions s') \<longleftrightarrow> now \<le> x \<and> x < now + session_ms))"
  using assms(1)
proof (cases rule: login_cases [where u = u and rd = rd and now = now and pw = pw])
  case (right i user enc r' ss')
  then have "auditing P (event u ''LOGIN_OK'' '''') (success (generateSessionId rd))
      (s\<lparr>st_repo := r', st_sessions := ss'\<rparr>) = (Inr (success tok), s')"
    using assms(2) by simp
  from auditing_Inr [OF this] have "tok = generateSessionId rd" "st_repo s' = r'" "st_sessions s' = ss'" by auto
  with right show ?thesis by (auto simp: canLogin_def isValid_iff userFor)
qed (metis assms(2) auditing_not_success)+

lemma locked_out:
  assumes "inv (st_repo s)" "users (st_repo s) i = Some user" "username user = u" "canLogin user now"
    "hashes (st_repo s) i = Some enc" "\<not> verify_password (p_hasher P) enc pw (st_hasher s)"
    "failedAttempts user \<ge> 4" "login P rd now u pw s = (Inr r, s')" "now' < now + 15 * 60 * 1000"
  shows "r = failure ''Login failed'' \<and> inv (st_repo s')
     \<and> login P rd' now' u pw' s' = auditing P (event u ''LOGIN_FAIL'' '''') (failure ''Login failed'') s'"
proof -
  obtain r' where r': "login P rd now u pw s
       = auditing P (event u ''LOGIN_FAIL'' '''') (failure ''Login failed'') (s\<lparr>st_repo := r'\<rparr>)"
     "inv r'" "users r' = (users (st_repo s))(i \<mapsto> login_failed user now)"
    using login_wrong_password [OF assms(1-6)] by blast
  then have "auditing P (event u ''LOGIN_FAIL'' '''') (failure ''Login failed'') (s\<lparr>st_repo := r'\<rparr>) = (Inr r, s')"
    using assms(8) by simp
  from auditing_Inr [OF this] have st: "r = failure ''Login failed''" "st_repo s' = r'" by auto
  have "\<not> canLogin (login_failed user now) now'"
    using assms(7,9) by (simp add: canLogin_def login_failed_def Let_def)
  then show ?thesis using login_blocked [of s' i "login_failed user now" u now'] r' st assms(3) by simp
qed

lemma register_cases:
  assumes "inv (st_repo s)"
  obtains (short) "registerUser P rdSalt rdId u mail pw rl s = (Inr (failure ''Registration failed''), s)"
  | (fail) h' where "registerUser P rdSalt rdId u mail pw rl s
      = auditing P (event ''system'' ''REGISTER_FAIL'' '''') (failure ''Registration failed'') (s\<lparr>st_hasher := h'\<rparr>)"
  | (new) nu enc h' r' where "registerUser P rdSalt rdId u mail pw rl s
      = auditing P (event u ''REGISTER_OK'' '''') (success (generateUserId rdId)) (s\<lparr>st_hasher := h', st_repo := r'\<rparr>)"
      "length pw \<ge> 8" "mkUser (generateUserId rdId) u mail rl ''active'' 0 0 = Inr nu"
      "fresh_user nu (users (st_repo s))" "inv r'"
      "users r' = (users (st_repo s))(uid (generateUserId rdId) \<mapsto> nu)"
      "hashes r' = (hashes (st_repo s))(uid (generateUserId rdId) \<mapsto> enc)"
      "verify_password (p_hasher P) enc pw h'"
proof (cases "u = [] \<or> mail = [] \<or> length pw < 8")
  case True
  then show thesis using short by (simp add: registerUser_def sx_eqs)
next
  case False
  let ?fail = "auditing P (event ''system'' ''REGISTER_FAIL'' '''') (failure ''Registration failed'')"
  have failed: thesis if "registerUser P rdSalt rdId u mail pw rl s = ?fail s"
    using that fail [of "st_hasher s"] by simp
  show thesis using assms
  proof (cases rule: findByUsername_cases [where n = u])
    case (hit v)
    then show thesis using False failed by (simp add: registerUser_def sx_eqs)
  next
    case name: miss
    show thesis using assms
    proof (cases rule: findByEmail_cases [where e = mail])
      case (hit v)
      then show thesis using False failed name by (simp add: registerUser_def sx_eqs)
    next
      case mail: miss
      obtain enc h' where h: "hash_password (p_hasher P) rdSalt pw (st_hasher s) = (Inr enc, h')"
        "verify_password (p_hasher P) enc pw h'" using hash_verify by blast
      obtain nu where nu: "mkUser (generateUserId rdId) u mail rl ''active'' 0 0 = Inr nu"
        "user_id nu = generateUserId rdId" "username nu = u" "email nu = mail"
        using False by (simp add: mkUser_def generateUserId_def Let_def)
      note run = registerUser_def sx_eqs onRepo_def onHasher_def
      show thesis
      proof (cases "fresh_user nu (users (st_repo s))")
        case True
        obtain r' where r': "saveUser (p_repo P) nu enc (st_repo s) = (Inr (), r')" "inv r'"
          "users r' = (users (st_repo s))(uid (generateUserId rdId) \<mapsto> nu)"
          "hashes r' = (hashes (st_repo s))(uid (generateUserId rdId) \<mapsto> enc)"
          using saveUser [OF assms(1) True, of enc] nu by auto
        then show thesis using False name mail h nu True by (intro new [where h' = h' and r' = r' and nu = nu and enc = enc]) (simp_all add: run)
      next
        case dup: False
        obtain m where "saveUser (p_repo P) nu enc (st_repo s) = (Inl (ValidationException m), st_repo s)"
          using saveUser_dup [OF assms(1) dup] by blast
        then show thesis using False name mail h nu by (intro fail [of h']) (simp add: run)
      qed
    qed
  qed
qed

lemma register_effect:
  assumes "inv (st_repo s)" "registerUser P rdSalt rdId u mail pw rl s = (Inr r, s')"
  shows "(r = failure ''Registration failed'' \<and> users (st_repo s') = users (st_repo s) \<and> inv (st_repo s')
            \<and> hashes (st_repo s') = hashes (st_repo s))
     \<or> (r = success (generateUserId rdId) \<and> inv (st_repo s') \<and> length pw \<ge> 8
        \<and> (\<exists>nu enc. mkUser (generateUserId rdId) u mail rl ''active'' 0 0 = Inr nu \<and> fresh_user nu (users (st_repo s))
            \<and> users (st_repo s') = (users (st_repo s))(uid (generateUserId rdId) \<mapsto> nu)
            \<and> hashes (st_repo s') = (hashes (st_repo s))(uid (generateUserId rdId) \<mapsto> enc)
            \<and> verify_password (p_hasher P) enc pw (st_hasher s')))"
  using assms(1)
proof (cases rule: register_cases [where rdSalt = rdSalt and rdId = rdId and u = u and mail = mail and pw = pw and rl = rl])
  case short
  then show ?thesis using assms by simp
next
  case (fail h')
  have "auditing P (event ''system'' ''REGISTER_FAIL'' '''') (failure ''Registration failed'') (s\<lparr>st_hasher := h'\<rparr>) = (Inr r, s')"
    using fail assms(2) by simp
  from auditing_Inr [OF this] show ?thesis using assms(1) by auto
next
  case (new nu enc h' r')
  have "auditing P (event u ''REGISTER_OK'' '''') (success (generateUserId rdId)) (s\<lparr>st_hasher := h', st_repo := r'\<rparr>) = (Inr r, s')"
    using new(1) assms(2) by simp
  from auditing_Inr [OF this] show ?thesis using new by auto
qed

lemma logout_effect:
  "\<exists>r s'. logout P tok s = (r, s') \<and> (\<forall>now. \<not> isValid (p_sessions P) tok now (st_sessions s'))
     \<and> (\<forall>t now. isValid (p_sessions P) t now (st_sessions s') \<longrightarrow> isValid (p_sessions P) t now (st_sessions s))
     \<and> st_repo s' = st_repo s \<and> (sess (st_sessions s) tok = None \<longrightarrow> r = Inr False \<and> s' = s)"
proof (cases "sess (st_sessions s) tok")
  case None
  then show ?thesis using invalidate_miss [OF None] by (simp add: logout_def sx_eqs onSessions_def isValid_iff)
next
  case (Some x)
  then obtain ss' where i: "invalidate (p_sessions P) tok (st_sessions s) = (Inr True, ss')"
     "sess ss' tok = Some (revoke x)" using invalidate_hit by blast
  obtain b ss where "invalidate (p_sessions P) tok (st_sessions s) = (Inr b, ss)"
     "\<forall>t' x. isValid (p_sessions P) t' x ss \<longrightarrow> isValid (p_sessions P) t' x (st_sessions s)"
    using invalidate_revokes by blast
  with i auditing_state [of "event '''' ''LOGOUT'' ''''" True "s\<lparr>st_sessions := ss'\<rparr>"] Some show ?thesis
    by (auto simp: logout_def sx_eqs onSessions_def isValid_iff)
qed

end

text \<open>With a working audit log every call returns a result.\<close>

locale auth_ports = auth_core P inv users hashes sess + audit_log "p_audit P" ready admissible
  for P :: "('r, 'h, 's, 'a) AuthPorts" and inv users hashes sess ready admissible
begin

lemma auditing_ok:
  assumes "ready (st_audit s)" "admissible e"
  shows "\<exists>a. auditing P e x s = (Inr x, s\<lparr>st_audit := a\<rparr>) \<and> ready a"
  using record_ok [OF assms] by (auto simp: sx_simps)

lemma login_total:
  assumes "inv (st_repo s)" "ready (st_audit s)" "admissible (event u ''LOGIN_FAIL'' '''')" "admissible (event u ''LOGIN_OK'' '''')"
  shows "\<exists>s'. (login P rd now u pw s = (Inr (success (generateSessionId rd)), s')
       \<or> login P rd now u pw s = (Inr (failure ''Login failed''), s') \<and> st_sessions s' = st_sessions s)
     \<and> inv (st_repo s') \<and> ready (st_audit s') \<and> st_hasher s' = st_hasher s"
  using assms(1)
proof (cases rule: login_cases [where u = u and rd = rd and now = now and pw = pw])
  case (wrong i user enc r')
  then show ?thesis
    using auditing_ok [of "s\<lparr>st_repo := r'\<rparr>" "event u ''LOGIN_FAIL'' ''''" "failure ''Login failed''"] assms by auto
next
  case (right i user enc r' ss')
  then show ?thesis
    using auditing_ok [of "s\<lparr>st_repo := r', st_sessions := ss'\<rparr>" "event u ''LOGIN_OK'' ''''"
      "success (generateSessionId rd)"] assms by auto
qed (use auditing_ok [of s "event u ''LOGIN_FAIL'' ''''" "failure ''Login failed''"] assms in auto)

lemma register_new:
  assumes "inv (st_repo s)" "ready (st_audit s)" "admissible (event u ''REGISTER_OK'' '''')"
    "u \<noteq> []" "mail \<noteq> []" "length pw \<ge> 8"
    "u \<notin> username ` ran (users (st_repo s))" "mail \<notin> email ` ran (users (st_repo s))"
    "users (st_repo s) (uid (generateUserId rdId)) = None"
  shows "\<exists>s' nu enc. registerUser P rdSalt rdId u mail pw rl s = (Inr (success (generateUserId rdId)), s')
     \<and> inv (st_repo s') \<and> ready (st_audit s')
     \<and> mkUser (generateUserId rdId) u mail rl ''active'' 0 0 = Inr nu
     \<and> users (st_repo s') (uid (generateUserId rdId)) = Some nu
     \<and> hashes (st_repo s') (uid (generateUserId rdId)) = Some enc
     \<and> verify_password (p_hasher P) enc pw (st_hasher s')"
proof -
  obtain nu where nu: "mkUser (generateUserId rdId) u mail rl ''active'' 0 0 = Inr nu"
    "user_id nu = generateUserId rdId" "username nu = u" "email nu = mail"
    using assms(4,5) by (simp add: mkUser_def generateUserId_def Let_def)
  have fresh: "fresh_user nu (users (st_repo s))" using assms(7-9) nu unfolding fresh_user_def by (metis image_eqI)
  obtain enc h' where h: "hash_password (p_hasher P) rdSalt pw (st_hasher s) = (Inr enc, h')"
    "verify_password (p_hasher P) enc pw h'" using hash_verify by blast
  obtain r' where r': "saveUser (p_repo P) nu enc (st_repo s) = (Inr (), r')" "inv r'"
    "users r' = (users (st_repo s))(uid (generateUserId rdId) \<mapsto> nu)"
    "hashes r' = (hashes (st_repo s))(uid (generateUserId rdId) \<mapsto> enc)"
    using saveUser [OF assms(1) fresh, of enc] nu by auto
  obtain a where "auditing P (event u ''REGISTER_OK'' '''') (success (generateUserId rdId)) (s\<lparr>st_hasher := h', st_repo := r'\<rparr>)
      = (Inr (success (generateUserId rdId)), s\<lparr>st_hasher := h', st_repo := r', st_audit := a\<rparr>)" "ready a"
    using auditing_ok [of "s\<lparr>st_hasher := h', st_repo := r'\<rparr>" "event u ''REGISTER_OK'' ''''"
        "success (generateUserId rdId)"] assms(2,3) by auto
  then show ?thesis
    using assms(4-6) findByUsername_miss [OF assms(1,7)] findByEmail_miss [OF assms(1,8)] h nu r'
    by (simp add: registerUser_def sx_eqs onRepo_def onHasher_def)
qed

lemma register_login:
  assumes "inv (st_repo s)" "ready (st_audit s)" "admissible (event u ''REGISTER_OK'' '''')"
    "u \<noteq> []" "mail \<noteq> []" "length pw \<ge> 8"
    "u \<notin> username ` ran (users (st_repo s))" "mail \<notin> email ` ran (users (st_repo s))"
    "users (st_repo s) (uid (generateUserId rdId)) = None" "now \<ge> 0" "admissible (event u ''LOGIN_OK'' '''')"
  shows "\<exists>s' s''. registerUser P rdSalt rdId u mail pw rl s = (Inr (success (generateUserId rdId)), s')
     \<and> login P rd now u pw s' = (Inr (success (generateSessionId rd)), s'')
     \<and> userFor (p_sessions P) (generateSessionId rd) (st_sessions s'') = Inr (generateUserId rdId)"
proof -
  obtain s' nu enc where s': "registerUser P rdSalt rdId u mail pw rl s = (Inr (success (generateUserId rdId)), s')"
    "inv (st_repo s')" "ready (st_audit s')" "mkUser (generateUserId rdId) u mail rl ''active'' 0 0 = Inr nu"
    "users (st_repo s') (uid (generateUserId rdId)) = Some nu"
    "hashes (st_repo s') (uid (generateUserId rdId)) = Some enc" "verify_password (p_hasher P) enc pw (st_hasher s')"
    using register_new [OF assms(1,2) assms(3) assms(4-9)] by blast
  have nu: "username nu = u" "canLogin nu now" "user_id nu = generateUserId rdId"
    using s'(4) assms(10) by (auto simp: mkUser_def canLogin_def isActive_def split: if_splits)
  obtain r' ss' where l: "login P rd now u pw s'
       = auditing P (event u ''LOGIN_OK'' '''') (success (generateSessionId rd)) (s'\<lparr>st_repo := r', st_sessions := ss'\<rparr>)"
     "sess ss' (generateSessionId rd) = Some (new_session (generateSessionId rd) (user_id nu) now)"
    using login_right_password [OF s'(2,5) nu(1,2) s'(6,7), of rd] by blast
  with s'(1,3) nu(3) show ?thesis
    using auditing_ok [of "s'\<lparr>st_repo := r', st_sessions := ss'\<rparr>" "event u ''LOGIN_OK'' ''''"
        "success (generateSessionId rd)"] assms(11) userFor by fastforce
qed

end

interpretation memcore: auth_core "mem_ports A" mem_inv mem_users mem_hashes mem_sess for A :: "'a IAuditLogger"
  by (rule auth_core.intro)
     (simp_all add: mem.user_repository_axioms memsess.session_store_axioms fake_pw.password_hasher_axioms)

interpretation memauth: auth_ports "mem_ports vector_audit" mem_inv mem_users mem_hashes mem_sess
  "\<lambda>_. True" "\<lambda>_. True"
  by (rule auth_ports.intro)
     (simp_all add: memcore.auth_core_axioms vector.audit_log_axioms)

interpretation chainauth: auth_ports "mem_ports (hash_chain_audit nowText Appended)" mem_inv mem_users mem_hashes mem_sess
  "\<lambda>a. \<exists>es. holds_chain es a" "\<lambda>e. recordable e \<and> clean nowText" for nowText
  by (rule auth_ports.intro)
     (simp_all add: memcore.auth_core_axioms chain.audit_log_axioms)

section \<open>Properties\<close>

lemma session_ms_eq: "session_ms = 3600000"
  by (simp add: session_ms_def)

text \<open>
  C6. A login that returns a token was for an existing, active user that is not locked
  out, with a password that verifies against the stored hash; the failure counter is reset,
  and the token is a session of that user, valid from now until one hour later. This holds
  whatever the audit log does.
\<close>

theorem login_success_sound:
  assumes "mem_inv (st_repo s)" "login (mem_ports A) rd now u pw s = (Inr (success tok), s')"
  shows "tok = generateSessionId rd \<and> (\<exists>i user enc.
     mem_users (st_repo s) i = Some user \<and> username user = u \<and> isActive user \<and> lockoutUntil user \<le> now
     \<and> mem_hashes (st_repo s) i = Some enc \<and> FakeHasher_verify enc pw (st_hasher s)
     \<and> mem_users (st_repo s') = (mem_users (st_repo s))(i \<mapsto> setLockout user 0 0)
     \<and> MemSess_userFor tok (st_sessions s') = Inr (user_id user)
     \<and> (\<forall>x. MemSess_isValid tok x (st_sessions s') \<longleftrightarrow> now \<le> x \<and> x < now + 3600000))"
  by (rule memcore.login_sound [OF assms, unfolded mem_ports_sel memory_sessions_def fake_hasher_def
        session_ms_eq ISessionStore.select_convs IPasswordHasher.select_convs])

text \<open>One active user with a known password, for the examples.\<close>

definition demo_user :: "int \<Rightarrow> User" where
  "demo_user fails = \<lparr>user_id = UserId ''1'', username = ''bob'', email = ''b@x'', role = ''user'',
     status = ''active'', failedAttempts = fails, lockoutUntil = 0\<rparr>"

definition demo_repo :: "int \<Rightarrow> MemoryUserRepository" where
  "demo_repo fails = \<lparr>usersById = [(''1'', demo_user fails)], usernameToId = [(''bob'', ''1'')],
     emailToId = [(''b@x'', ''1'')], hashById = [(''1'', ''h'')]\<rparr>"

definition demo_state :: "int \<Rightarrow> (MemoryUserRepository, FakeHasher, MemorySessionStore, VectorAudit) AuthState" where
  "demo_state fails = \<lparr>st_repo = demo_repo fails, st_hasher = \<lparr>known = [(''h'', ''password'')], ctr = 1\<rparr>,
     st_sessions = emptyMemorySessionStore, st_audit = \<lparr>vlog = []\<rparr>\<rparr>"

lemma demo_simps [simp]:
  "user_id (demo_user n) = UserId ''1''" "username (demo_user n) = ''bob''" "email (demo_user n) = ''b@x''"
  "failedAttempts (demo_user n) = n" "canLogin (demo_user n) now \<longleftrightarrow> 0 \<le> now"
  "st_repo (demo_state n) = demo_repo n" "st_sessions (demo_state n) = emptyMemorySessionStore"
  "st_hasher (demo_state n) = \<lparr>known = [(''h'', ''password'')], ctr = 1\<rparr>" "st_audit (demo_state n) = \<lparr>vlog = []\<rparr>"
  "mem_users (demo_repo n) = [''1'' \<mapsto> demo_user n]" "mem_hashes (demo_repo n) = [''1'' \<mapsto> ''h'']"
  by (auto simp: demo_user_def demo_repo_def demo_state_def canLogin_def isActive_def mem_users_def mem_hashes_def)

lemma demo_inv [simp]: "mem_inv (demo_repo n)"
  by (auto simp: mem_inv_def demo_repo_def split: if_splits)

lemma demo_verify [simp]: "FakeHasher_verify ''h'' pw (st_hasher (demo_state n)) \<longleftrightarrow> pw = ''password''"
  by (auto simp: FakeHasher_verify_def)

theorem login_success_sound_witness:
  "\<exists>s'. login (mem_ports vector_audit) (\<lambda>i. word_of_nat i) 1000 ''bob'' ''password'' (demo_state 2)
       = (Inr (success (generateSessionId (\<lambda>i. word_of_nat i))), s')
     \<and> MemSess_isValid (generateSessionId (\<lambda>i. word_of_nat i)) 1500 (st_sessions s')"
proof -
  let ?rd = "\<lambda>i. word_of_nat i" and ?P = "mem_ports vector_audit"
  have v: "verify_password (p_hasher ?P) ''h'' ''password'' (st_hasher (demo_state 2))"
    by (simp add: fake_hasher_def FakeHasher_verify_def)
  have p: "mem_inv (st_repo (demo_state 2))" "mem_users (st_repo (demo_state 2)) ''1'' = Some (demo_user 2)"
    "username (demo_user 2) = ''bob''" "canLogin (demo_user 2) 1000" "mem_hashes (st_repo (demo_state 2)) ''1'' = Some ''h''"
    by simp_all
  obtain q ss where l: "login ?P ?rd 1000 ''bob'' ''password'' (demo_state 2)
      = auditing ?P (event ''bob'' ''LOGIN_OK'' '''') (success (generateSessionId ?rd))
          (demo_state 2\<lparr>st_repo := q, st_sessions := ss\<rparr>)"
    using memcore.login_right_password [OF p v, of ?rd] by blast
  obtain a where "auditing ?P (event ''bob'' ''LOGIN_OK'' '''') (success (generateSessionId ?rd))
        (demo_state 2\<lparr>st_repo := q, st_sessions := ss\<rparr>)
      = (Inr (success (generateSessionId ?rd)), demo_state 2\<lparr>st_repo := q, st_sessions := ss\<rparr>\<lparr>st_audit := a\<rparr>)"
    using memauth.auditing_ok [where e = "event ''bob'' ''LOGIN_OK'' ''''" and x = "success (generateSessionId ?rd)"
      and s = "demo_state 2\<lparr>st_repo := q, st_sessions := ss\<rparr>"] by (auto simp del: demo_simps)
  with l obtain s' where l2: "login ?P ?rd 1000 ''bob'' ''password'' (demo_state 2) = (Inr (success (generateSessionId ?rd)), s')"
    by simp
  have "MemSess_isValid (generateSessionId ?rd) 1500 (st_sessions s') \<longleftrightarrow> 1000 \<le> (1500::int) \<and> (1500::int) < 1000 + 3600000"
    using login_success_sound [OF p(1) l2] by blast
  then have "MemSess_isValid (generateSessionId ?rd) 1500 (st_sessions s')" by simp
  with l2 show ?thesis by blast
qed

text \<open>
  C21. No user enumeration: with a working audit log, login always returns either a fresh
  token or the one message \<open>Login failed\<close>, whether the user is unknown, inactive, locked out
  or the password is wrong, and a failed login creates no session; the repository stays
  consistent.
\<close>

theorem login_generic_failure:
  assumes "mem_inv (st_repo s)"
  shows "\<exists>s'. (login (mem_ports vector_audit) rd now u pw s = (Inr (success (generateSessionId rd)), s')
       \<or> login (mem_ports vector_audit) rd now u pw s = (Inr (failure ''Login failed''), s')
          \<and> st_sessions s' = st_sessions s)
     \<and> mem_inv (st_repo s')"
  using memauth.login_total [OF assms TrueI TrueI TrueI] by blast

theorem login_generic_failure_witness:
  "\<exists>s'. (login (mem_ports vector_audit) (\<lambda>_. 0) 1000 ''eve'' ''guess'' (demo_state 0) = (Inr (success (generateSessionId (\<lambda>_. 0))), s')
       \<or> login (mem_ports vector_audit) (\<lambda>_. 0) 1000 ''eve'' ''guess'' (demo_state 0) = (Inr (failure ''Login failed''), s')
          \<and> st_sessions s' = st_sessions (demo_state 0)) \<and> mem_inv (st_repo s')"
  by (rule login_generic_failure) simp

text \<open>
  C16. Lockout: when an account that has failed four or more times since its last success
  fails once more, every further login attempt in the next fifteen minutes is refused,
  with any password, also the right one, and leaves users and sessions untouched. After a
  lockout has expired the counter is still at five, so the next failure locks again.
\<close>

theorem lockout_enforced:
  assumes "mem_inv (st_repo s)" "mem_users (st_repo s) i = Some user" "username user = u" "canLogin user now"
    "mem_hashes (st_repo s) i = Some enc" "\<not> FakeHasher_verify enc pw (st_hasher s)" "failedAttempts user \<ge> 4"
    "login (mem_ports A) rd now u pw s = (Inr r, s')" "now' < now + 15 * 60 * 1000"
    "login (mem_ports A) rd' now' u pw' s' = (Inr r', s'')"
  shows "r = failure ''Login failed'' \<and> r' = failure ''Login failed''
     \<and> st_repo s'' = st_repo s' \<and> st_sessions s'' = st_sessions s
     \<and> (\<exists>user'. mem_users (st_repo s') i = Some user' \<and> failedAttempts user' = failedAttempts user + 1)"
proof -
  have v: "\<not> verify_password (p_hasher (mem_ports A)) enc pw (st_hasher s)" using assms(6) by (simp add: fake_hasher_def)
  note l = memcore.locked_out [OF assms(1-5) v assms(7-9), of rd' pw']
  obtain q where q: "login (mem_ports A) rd now u pw s
       = auditing (mem_ports A) (event u ''LOGIN_FAIL'' '''') (failure ''Login failed'') (s\<lparr>st_repo := q\<rparr>)"
     "mem_users q = (mem_users (st_repo s))(i \<mapsto> login_failed user now)"
    using memcore.login_wrong_password [OF assms(1-5) v] by blast
  have "auditing (mem_ports A) (event u ''LOGIN_FAIL'' '''') (failure ''Login failed'') (s\<lparr>st_repo := q\<rparr>) = (Inr r, s')"
    using q(1) assms(8) by simp
  note first = memcore.auditing_Inr [OF this]
  have "auditing (mem_ports A) (event u ''LOGIN_FAIL'' '''') (failure ''Login failed'') s' = (Inr r', s'')"
    using l assms(10) by simp
  note second = memcore.auditing_Inr [OF this]
  from first second q(2) show ?thesis by auto
qed

theorem lockout_enforced_witness:
  "\<exists>s' s''. login (mem_ports vector_audit) (\<lambda>_. 0) 1000 ''bob'' ''guess'' (demo_state 4) = (Inr (failure ''Login failed''), s')
     \<and> login (mem_ports vector_audit) (\<lambda>_. 0) 900000 ''bob'' ''password'' s' = (Inr (failure ''Login failed''), s'')
     \<and> st_repo s'' = st_repo s'"
proof -
  let ?P = "mem_ports vector_audit"
  obtain r s' where s': "login ?P (\<lambda>_. 0) 1000 ''bob'' ''guess'' (demo_state 4) = (Inr r, s')" "mem_inv (st_repo s')"
    using memauth.login_total [where s = "demo_state 4" and u = "''bob''" and rd = "\<lambda>_. 0" and now = 1000 and pw = "''guess''"]
    by auto
  obtain r' s'' where s'': "login ?P (\<lambda>_. 0) 900000 ''bob'' ''password'' s' = (Inr r', s'')"
    using memauth.login_total [where s = s' and u = "''bob''" and rd = "\<lambda>_. 0" and now = 900000 and pw = "''password''"] s'(2)
    by auto
  have "r = failure ''Login failed'' \<and> r' = failure ''Login failed''
     \<and> st_repo s'' = st_repo s' \<and> st_sessions s'' = st_sessions (demo_state 4)
     \<and> (\<exists>user'. mem_users (st_repo s') ''1'' = Some user' \<and> failedAttempts user' = failedAttempts (demo_user 4) + 1)"
    by (rule lockout_enforced [OF _ _ _ _ _ _ _ s'(1) _ s'']) (use demo_verify in \<open>auto simp del: demo_simps(8)\<close>)
  with s' s'' show ?thesis by auto
qed

text \<open>
  C22. Registration is all or nothing: it either reports \<open>Registration failed\<close> and leaves
  the users as they were, or adds exactly one new active user, with the requested role and
  a clean counter, whose name, address and identifier were not in use, under a hash against
  which the given password (of at least eight characters) verifies.
\<close>

theorem register_all_or_nothing:
  assumes "mem_inv (st_repo s)" "registerUser (mem_ports A) rdSalt rdId u mail pw rl s = (Inr r, s')"
  shows "mem_inv (st_repo s') \<and>
    (r = failure ''Registration failed'' \<and> mem_users (st_repo s') = mem_users (st_repo s)
      \<and> mem_hashes (st_repo s') = mem_hashes (st_repo s)
     \<or> r = success (generateUserId rdId) \<and> length pw \<ge> 8
        \<and> (\<exists>nu enc. mkUser (generateUserId rdId) u mail rl ''active'' 0 0 = Inr nu
            \<and> fresh_user nu (mem_users (st_repo s))
            \<and> mem_users (st_repo s') = (mem_users (st_repo s))(uid (generateUserId rdId) \<mapsto> nu)
            \<and> mem_hashes (st_repo s') = (mem_hashes (st_repo s))(uid (generateUserId rdId) \<mapsto> enc)
            \<and> FakeHasher_verify enc pw (st_hasher s')))"
  using memcore.register_effect [OF assms] by (auto simp: fake_hasher_def)

theorem register_all_or_nothing_witness:
  "\<exists>s'. registerUser (mem_ports vector_audit) (\<lambda>_. 0) (\<lambda>_. 1) ''bob'' ''x@y'' ''password'' ''user'' (demo_state 0)
        = (Inr (failure ''Registration failed''), s')
     \<and> mem_users (st_repo s') = mem_users (st_repo (demo_state 0))"
proof -
  have "findByUsername memory_users ''bob'' (demo_repo 0) = Inr (success (demo_user 0))"
    using mem.findByUsername_hit [of "demo_repo 0" "''1''" "demo_user 0"] by simp
  then obtain s' where s': "registerUser (mem_ports vector_audit) (\<lambda>_. 0) (\<lambda>_. 1) ''bob'' ''x@y'' ''password'' ''user'' (demo_state 0)
      = (Inr (failure ''Registration failed''), s')"
    by (simp add: registerUser_def sx_eqs auditing_def onAudit_def vector_audit_def Vector_record_def Let_def)
  with register_all_or_nothing [OF _ s'] show ?thesis by auto
qed

text \<open>
  C23. A user that registers with an unused name and address, and a random identifier that
  is not in use, can log in at once with the same password and gets a session of the new
  identifier; with the hash-chained audit file this holds for names without characters that
  need a JSON escape.
\<close>

theorem register_then_login:
  assumes "mem_inv (st_repo s)" "holds_chain es (st_audit s)" "clean nowText" "clean u"
    "u \<noteq> []" "mail \<noteq> []" "length pw \<ge> 8"
    "u \<notin> username ` ran (mem_users (st_repo s))" "mail \<notin> email ` ran (mem_users (st_repo s))"
    "mem_users (st_repo s) (uid (generateUserId rdId)) = None" "now \<ge> 0"
  shows "\<exists>s' s''. registerUser (mem_ports (hash_chain_audit nowText Appended)) rdSalt rdId u mail pw rl s
         = (Inr (success (generateUserId rdId)), s')
     \<and> login (mem_ports (hash_chain_audit nowText Appended)) rd now u pw s' = (Inr (success (generateSessionId rd)), s'')
     \<and> MemSess_userFor (generateSessionId rd) (st_sessions s'') = Inr (generateUserId rdId)"
proof -
  have ev: "recordable (event u act '''') \<and> clean nowText" if "clean act" for act
    using assms(3,4) that by (simp add: recordable_def)
  have clean_actions: "clean ''REGISTER_OK''" "clean ''LOGIN_OK''" by (simp_all add: clean_def)
  have chain: "\<exists>es. holds_chain es (st_audit s)" using assms(2) by blast
  show ?thesis
    using chainauth.register_login [OF assms(1) chain ev assms(5-11) ev] clean_actions
    by (simp add: memory_sessions_def)
qed

theorem register_then_login_witness:
  "\<exists>s' s''. registerUser (mem_ports (hash_chain_audit ''2024-01-01T00:00:00Z'' Appended)) (\<lambda>_. 0) (\<lambda>_. 1)
        ''bob'' ''b@x'' ''password'' ''user''
        \<lparr>st_repo = emptyMemoryUserRepository, st_hasher = \<lparr>known = [], ctr = 0\<rparr>,
          st_sessions = emptyMemorySessionStore, st_audit = HashChain_open None\<rparr>
        = (Inr (success (generateUserId (\<lambda>_. 1))), s')
     \<and> login (mem_ports (hash_chain_audit ''2024-01-01T00:00:00Z'' Appended)) (\<lambda>_. 2) 1000 ''bob'' ''password'' s'
        = (Inr (success (generateSessionId (\<lambda>_. 2))), s'')
     \<and> MemSess_userFor (generateSessionId (\<lambda>_. 2)) (st_sessions s'') = Inr (generateUserId (\<lambda>_. 1))"
  by (rule register_then_login [of _ "[]"])
     (simp_all add: mem_inv_def holds_chain_def HashChain_open_def tail_hash_def clean_def mem_users_def
       emptyMemoryUserRepository_def)

text \<open>
  C24. Logging out revokes the token for good, even if recording the event throws; it makes
  no other token valid and does not touch the users. An unknown token is reported and
  changes nothing.
\<close>

theorem logout_revokes:
  "\<exists>r s'. logout (mem_ports A) tok s = (r, s') \<and> (\<forall>now. \<not> MemSess_isValid tok now (st_sessions s'))
     \<and> (\<forall>t now. MemSess_isValid t now (st_sessions s') \<longrightarrow> MemSess_isValid t now (st_sessions s))
     \<and> st_repo s' = st_repo s \<and> (mem_sess (st_sessions s) tok = None \<longrightarrow> r = Inr False \<and> s' = s)"
  using memcore.logout_effect [of A tok s] by (simp add: memory_sessions_def)

theorem logout_revokes_witness:
  "\<exists>r s'. logout (mem_ports vector_audit) (SessionId ''sess_0'') (demo_state 0) = (r, s')
     \<and> \<not> MemSess_isValid (SessionId ''sess_0'') 5 (st_sessions s')"
  using logout_revokes [of vector_audit "SessionId ''sess_0''" "demo_state 0"] by blast

end
