(* ===== verification/AdminService.thy ===== *)
theory AdminService
  imports AuthService
begin

text \<open>
  The administration service (\<^verbatim>\<open>src/application/admin_service.cpp\<close>): activation and
  deactivation of accounts, by session token and in the older form by administrator id,
  with the guard against deactivating the last active administrator. It works on the
  repository, the session store and the audit log of the authentication service, so it
  shares that service's state and ports. The last part closes the loop over both services:
  a step relation with one rule per operation, and the invariants every run keeps.
\<close>

section \<open>The service\<close>

definition service_isAdmin :: "('r, 'h, 's, 'a) AuthPorts \<Rightarrow> UserId \<Rightarrow> 'r \<Rightarrow> exn + bool" where
  "service_isAdmin P i r =
     bindE (findById (p_repo P) i r) (\<lambda>f.
     Inr (case got f of None \<Rightarrow> False | Some u \<Rightarrow> isAdmin u \<and> isActive u))"

definition isAdminSession ::
  "('r, 'h, 's, 'a) AuthPorts \<Rightarrow> int \<Rightarrow> SessionId \<Rightarrow> ('r, 'h, 's, 'a) AuthState \<Rightarrow> exn + UserId option" where
  "isAdminSession P now token s =
     (if \<not> isValid (p_sessions P) token now (st_sessions s) then Inr None
      else case got (findByToken (p_sessions P) token (st_sessions s)) of
             None \<Rightarrow> Inr None
           | Some x \<Rightarrow>
               bindE (findById (p_repo P) (userId x) (st_repo s)) (\<lambda>f.
               case got f of
                 None \<Rightarrow> Inr None
               | Some u \<Rightarrow>
                   if \<not> isActive u then Inr None
                   else bindE (service_isAdmin P (userId x) (st_repo s)) (\<lambda>b.
                        Inr (if b then Some (userId x) else None))))"

definition countActiveAdmins :: "('r, 'h, 's, 'a) AuthPorts \<Rightarrow> 'r \<Rightarrow> exn + nat" where
  "countActiveAdmins P r =
     bindE (listAll (p_repo P) r) (\<lambda>l. Inr (length (filter (\<lambda>u. isAdmin u \<and> isActive u) l)))"

text \<open>The bodies that the two overloads of each operation share after their own check.\<close>

definition activate_as ::
  "('r, 'h, 's, 'a) AuthPorts \<Rightarrow> UserId \<Rightarrow> UserId \<Rightarrow> (('r, 'h, 's, 'a) AuthState, UserId Result) sx" where
  "activate_as P admin tgt =
     bindS (getS (\<lambda>s. findById (p_repo P) tgt (st_repo s))) (\<lambda>r.
     case got r of
       None \<Rightarrow> retS (failure ''not found'')
     | Some u \<Rightarrow>
         bindS (onRepo (updateUser (p_repo P) (setStatus u ''active''))) (\<lambda>_.
         auditing P (event (uid admin) ''ACTIVATE'' (uid tgt)) (success tgt)))"

definition deactivate_as ::
  "('r, 'h, 's, 'a) AuthPorts \<Rightarrow> UserId \<Rightarrow> UserId \<Rightarrow> (('r, 'h, 's, 'a) AuthState, UserId Result) sx" where
  "deactivate_as P admin tgt =
     bindS (getS (\<lambda>s. findById (p_repo P) tgt (st_repo s))) (\<lambda>r.
     case got r of
       None \<Rightarrow> retS (failure ''not found'')
     | Some u \<Rightarrow>
         bindS (getS (\<lambda>s. if isAdmin u \<and> isActive u
                          then bindE (countActiveAdmins P (st_repo s)) (\<lambda>n. Inr (n \<le> 1))
                          else Inr False)) (\<lambda>lastAdmin.
         if lastAdmin then retS (failure ''cannot deactivate last admin'')
         else bindS (onRepo (updateUser (p_repo P) (setStatus u ''inactive''))) (\<lambda>_.
              bindS (onSessions (invalidateAllForUser (p_sessions P) tgt)) (\<lambda>_.
              auditing P (event (uid admin) ''DEACTIVATE'' (uid tgt)) (success tgt)))))"

definition activate ::
  "('r, 'h, 's, 'a) AuthPorts \<Rightarrow> int \<Rightarrow> SessionId \<Rightarrow> UserId \<Rightarrow> (('r, 'h, 's, 'a) AuthState, UserId Result) sx" where
  "activate P now token tgt =
     bindS (getS (isAdminSession P now token)) (\<lambda>adm.
     case adm of
       None \<Rightarrow> auditing P (event '''' ''ADMIN_DENIED'' (uid tgt)) (failure ''Admin denied'')
     | Some adminId \<Rightarrow> activate_as P adminId tgt)"

definition deactivate ::
  "('r, 'h, 's, 'a) AuthPorts \<Rightarrow> int \<Rightarrow> SessionId \<Rightarrow> UserId \<Rightarrow> (('r, 'h, 's, 'a) AuthState, UserId Result) sx" where
  "deactivate P now token tgt =
     bindS (getS (isAdminSession P now token)) (\<lambda>adm.
     case adm of
       None \<Rightarrow> auditing P (event '''' ''ADMIN_DENIED'' (uid tgt)) (failure ''Admin denied'')
     | Some adminId \<Rightarrow> deactivate_as P adminId tgt)"

definition activate_byId ::
  "('r, 'h, 's, 'a) AuthPorts \<Rightarrow> UserId \<Rightarrow> UserId \<Rightarrow> (('r, 'h, 's, 'a) AuthState, UserId Result) sx" where
  "activate_byId P admin tgt =
     bindS (getS (\<lambda>s. service_isAdmin P admin (st_repo s))) (\<lambda>b.
     if \<not> b then auditing P (event (uid admin) ''ADMIN_DENIED'' '''') (failure ''Admin denied'')
     else activate_as P admin tgt)"

definition deactivate_byId ::
  "('r, 'h, 's, 'a) AuthPorts \<Rightarrow> UserId \<Rightarrow> UserId \<Rightarrow> (('r, 'h, 's, 'a) AuthState, UserId Result) sx" where
  "deactivate_byId P admin tgt =
     bindS (getS (\<lambda>s. service_isAdmin P admin (st_repo s))) (\<lambda>b.
     if \<not> b then auditing P (event (uid admin) ''ADMIN_DENIED'' '''') (failure ''Admin denied'')
     else deactivate_as P admin tgt)"

section \<open>One step of either service\<close>

text \<open>
  Every call of an operation of the two services, by anyone, with any arguments, clock
  readings and random draws. A call that throws leaves the state it had reached.
\<close>

inductive service_step :: "('r, 'h, 's, 'a) AuthPorts \<Rightarrow> ('r, 'h, 's, 'a) AuthState \<Rightarrow> ('r, 'h, 's, 'a) AuthState \<Rightarrow> bool"
  for P where
  register_step: "registerUser P rdSalt rdId u mail pw rl s = (r, s') \<Longrightarrow> service_step P s s'"
| login_step: "login P rd now u pw s = (r, s') \<Longrightarrow> service_step P s s'"
| logout_step: "logout P tok s = (r, s') \<Longrightarrow> service_step P s s'"
| activate_step: "activate P now tok tgt s = (r, s') \<Longrightarrow> service_step P s s'"
| deactivate_step: "deactivate P now tok tgt s = (r, s') \<Longrightarrow> service_step P s s'"
| activate_byId_step: "activate_byId P admin tgt s = (r, s') \<Longrightarrow> service_step P s s'"
| deactivate_byId_step: "deactivate_byId P admin tgt s = (r, s') \<Longrightarrow> service_step P s s'"

inductive service_run :: "('r, 'h, 's, 'a) AuthPorts \<Rightarrow> ('r, 'h, 's, 'a) AuthState \<Rightarrow> ('r, 'h, 's, 'a) AuthState \<Rightarrow> bool"
  for P where
  here: "service_run P s s"
| more: "service_run P s t \<Longrightarrow> service_step P t t' \<Longrightarrow> service_run P s t'"

definition active_admins :: "(string \<Rightarrow> User option) \<Rightarrow> string set" where
  "active_admins us = {i. \<exists>u. us i = Some u \<and> isAdmin u \<and> isActive u}"

section \<open>The services over the laws of the ports\<close>

lemma auditing_keeps: "auditing P e x s = (r, s') \<Longrightarrow>
   st_repo s' = st_repo s \<and> st_sessions s' = st_sessions s \<and> st_hasher s' = st_hasher s"
  by (cases "record_event (p_audit P) e (st_audit s)") (auto simp: sx_simps split: sum.splits)

lemma auditing_result: "auditing P e x s = (r, s') \<Longrightarrow> r = Inr x \<or> (\<exists>ex. r = Inl ex)"
  by (cases "record_event (p_audit P) e (st_audit s)") (auto simp: sx_simps split: sum.splits)

context auth_core begin

lemma countActiveAdmins_card:
  assumes "inv r"
  shows "countActiveAdmins P r = Inr (card (active_admins (users r)))"
proof -
  obtain l where l: "listAll (p_repo P) r = Inr l" "distinct (map user_id l)" "set l = ran (users r)"
    using listAll [OF assms] by blast
  let ?f = "filter (\<lambda>u. isAdmin u \<and> isActive u) l"
  have d: "distinct (map (\<lambda>u. uid (user_id u)) ?f)"
  proof -
    have "distinct (map user_id ?f)" using l(2) by (simp add: distinct_map_filter)
    then have "distinct (map uid (map user_id ?f))" by (simp only: distinct_map) (auto simp: inj_on_def UserId.expand)
    then show ?thesis by (simp add: comp_def)
  qed
  have "set (map (\<lambda>u. uid (user_id u)) ?f) = active_admins (users r)"
    using l(3) keyed [OF assms] by (force simp: active_admins_def ran_def)
  then have "card (active_admins (users r)) = length ?f" using distinct_card [OF d] by simp
  then show ?thesis using l(1) by (simp add: countActiveAdmins_def)
qed

lemma isAdminSession_iff:
  assumes "inv (st_repo s)"
  shows "isAdminSession P now tok s =
     Inr (case sess (st_sessions s) tok of
            None \<Rightarrow> None
          | Some x \<Rightarrow> if session_isValid x now \<and> uid (userId x) \<in> active_admins (users (st_repo s))
                      then Some (userId x) else None)"
  using findById [OF assms]
  by (auto simp: isAdminSession_def isValid findByToken service_isAdmin_def active_admins_def split: option.split)

lemma activate_as_cases:
  assumes "inv (st_repo s)"
  obtains (missing) "users (st_repo s) (uid tgt) = None" "activate_as P admin tgt s = (Inr (failure ''not found''), s)"
  | (changed) u r' where "users (st_repo s) (uid tgt) = Some u" "inv r'"
      "users r' = (users (st_repo s))(uid tgt \<mapsto> setStatus u ''active'')" "hashes r' = hashes (st_repo s)"
      "activate_as P admin tgt s
         = auditing P (event (uid admin) ''ACTIVATE'' (uid tgt)) (success tgt) (s\<lparr>st_repo := r'\<rparr>)"
proof (cases "users (st_repo s) (uid tgt)")
  case None
  then show thesis using findById [OF assms, of tgt] missing by (simp add: activate_as_def sx_eqs)
next
  case (Some u)
  then obtain r' where r': "updateUser (p_repo P) (setStatus u ''active'') (st_repo s) = (Inr (), r')" "inv r'"
    "users r' = (users (st_repo s))(uid tgt \<mapsto> setStatus u ''active'')" "hashes r' = hashes (st_repo s)"
    using updateUser [OF assms, of "setStatus u ''active''" u] keyed [OF assms Some] by auto
  then show thesis using findById [OF assms, of tgt] Some changed
    by (simp add: activate_as_def sx_eqs onRepo_def)
qed

lemma deactivate_as_cases:
  assumes "inv (st_repo s)"
  obtains (missing) "users (st_repo s) (uid tgt) = None" "deactivate_as P admin tgt s = (Inr (failure ''not found''), s)"
  | (lastone) "active_admins (users (st_repo s)) = {uid tgt}"
      "deactivate_as P admin tgt s = (Inr (failure ''cannot deactivate last admin''), s)"
  | (changed) u r' ss' where "users (st_repo s) (uid tgt) = Some u" "inv r'"
      "active_admins (users (st_repo s)) \<noteq> {uid tgt}"
      "users r' = (users (st_repo s))(uid tgt \<mapsto> setStatus u ''inactive'')" "hashes r' = hashes (st_repo s)"
      "\<And>t. sess ss' t = map_option (\<lambda>x. if userId x = tgt then revoke x else x) (sess (st_sessions s) t)"
      "deactivate_as P admin tgt s = auditing P (event (uid admin) ''DEACTIVATE'' (uid tgt)) (success tgt)
         (s\<lparr>st_repo := r', st_sessions := ss'\<rparr>)"
proof (cases "users (st_repo s) (uid tgt)")
  case None
  then show thesis using findById [OF assms, of tgt] missing by (simp add: deactivate_as_def sx_eqs)
next
  case (Some u)
  let ?aa = "active_admins (users (st_repo s))"
  have fin: "finite ?aa" using finite_users [OF assms]
    by (rule finite_subset [rotated]) (auto simp: active_admins_def)
  have mem: "uid tgt \<in> ?aa \<longleftrightarrow> isAdmin u \<and> isActive u" using Some by (simp add: active_admins_def)
  have one: "card ?aa \<le> 1 \<longleftrightarrow> ?aa = {uid tgt}" if "uid tgt \<in> ?aa"
  proof
    assume "card ?aa \<le> 1"
    then have "\<forall>x\<in>?aa. \<forall>y\<in>?aa. x = y" using card_le_Suc0_iff_eq [OF fin] by simp
    with that show "?aa = {uid tgt}" by blast
  qed simp
  obtain r' where r': "updateUser (p_repo P) (setStatus u ''inactive'') (st_repo s) = (Inr (), r')" "inv r'"
    "users r' = (users (st_repo s))(uid tgt \<mapsto> setStatus u ''inactive'')" "hashes r' = hashes (st_repo s)"
    using updateUser [OF assms, of "setStatus u ''inactive''" u] keyed [OF assms Some] Some by auto
  obtain n ss' where ss': "invalidateAllForUser (p_sessions P) tgt (st_sessions s) = (Inr n, ss')"
    "\<And>t. sess ss' t = map_option (\<lambda>x. if userId x = tgt then revoke x else x) (sess (st_sessions s) t)"
    using invalidateAll by blast
  show thesis
  proof (cases "?aa = {uid tgt}")
    case True
    then show thesis
      using findById [OF assms, of tgt] Some lastone mem countActiveAdmins_card [OF assms]
      by (simp add: deactivate_as_def sx_eqs)
  next
    case False
    then show thesis
      using findById [OF assms, of tgt] Some r' ss' mem one countActiveAdmins_card [OF assms]
      by (intro changed [of u r' ss']) (auto simp: deactivate_as_def sx_eqs onRepo_def onSessions_def)
  qed
qed

end

section \<open>Invariants of every run\<close>

text \<open>A session that is not revoked belongs to an active user.\<close>

definition sessions_live :: "(string \<Rightarrow> User option) \<Rightarrow> (SessionId \<Rightarrow> Session option) \<Rightarrow> bool" where
  "sessions_live us se \<longleftrightarrow>
     (\<forall>t x. se t = Some x \<and> \<not> revoked x \<longrightarrow> (\<exists>u. us (uid (userId x)) = Some u \<and> isActive u))"

lemma active_admins_upd:
  "active_admins (us(i \<mapsto> u)) = (if isAdmin u \<and> isActive u then insert i (active_admins us) else active_admins us - {i})"
  by (auto simp: active_admins_def)

lemma status_flags [simp]:
  "isActive (setLockout u n k) = isActive u" "isAdmin (setLockout u n k) = isAdmin u"
  "isActive (login_failed u now) = isActive u" "isAdmin (login_failed u now) = isAdmin u"
  "isActive (setStatus u ''active'')" "\<not> isActive (setStatus u ''inactive'')" "isAdmin (setStatus u st) = isAdmin u"
  by (simp_all add: isActive_def isAdmin_def)

text \<open>A change of users and sessions that keeps an active administrator and live sessions.\<close>

definition keeps :: "(string \<Rightarrow> User option) \<Rightarrow> (SessionId \<Rightarrow> Session option)
    \<Rightarrow> (string \<Rightarrow> User option) \<Rightarrow> (SessionId \<Rightarrow> Session option) \<Rightarrow> bool" where
  "keeps us se us' se' \<longleftrightarrow> (active_admins us \<noteq> {} \<longrightarrow> active_admins us' \<noteq> {})
     \<and> (sessions_live us se \<longrightarrow> sessions_live us' se')"

lemma keeps_refl [simp]: "keeps us se us se"
  by (simp add: keeps_def)

lemma sessions_live_active:
  "sessions_live us se \<Longrightarrow> isActive v \<Longrightarrow> sessions_live (us(i \<mapsto> v)) se"
  unfolding sessions_live_def by (metis map_upd_Some_unfold)

lemma keeps_new: "us i = None \<Longrightarrow> isActive v \<Longrightarrow> keeps us se (us(i \<mapsto> v)) se"
  unfolding keeps_def using sessions_live_active [of us se v i]
  by (auto simp: active_admins_upd) (auto simp: active_admins_def)

lemma keeps_active:
  "us i = Some u \<Longrightarrow> isActive v \<Longrightarrow> isAdmin v = isAdmin u \<Longrightarrow> keeps us se (us(i \<mapsto> v)) se"
  unfolding keeps_def using sessions_live_active [of us se v i]
  by (auto simp: active_admins_upd) (auto simp: active_admins_def)

lemma keeps_created:
  assumes "keeps us se us' se" "us' (uid (userId x)) = Some u" "isActive u" "\<forall>t. se' t = se t \<or> se' t = Some x"
  shows "keeps us se us' se'"
  using assms unfolding keeps_def sessions_live_def by (metis option.inject)

lemma keeps_revoked:
  assumes "\<forall>t. se' t = se t \<or> se' t = map_option revoke (se t)"
  shows "keeps us se us se'"
  using assms unfolding keeps_def sessions_live_def by (metis map_option_eq_Some revoke_fields(1,2))

lemma keeps_inactive:
  assumes "active_admins us \<noteq> {uid tgt}"
    "\<And>t. se' t = map_option (\<lambda>x. if userId x = tgt then revoke x else x) (se t)"
  shows "keeps us se (us(uid tgt \<mapsto> setStatus u ''inactive'')) se'"
proof -
  have "sessions_live (us(uid tgt \<mapsto> setStatus u ''inactive'')) se'" if live: "sessions_live us se"
    unfolding sessions_live_def
  proof (intro allI impI, elim conjE)
    fix t x assume x: "se' t = Some x" "\<not> revoked x"
    then obtain y where y: "se t = Some y" "x = (if userId y = tgt then revoke y else y)"
      using assms(2) [of t] by (cases "se t") auto
    with x(2) have "userId y \<noteq> tgt" "x = y" by (auto split: if_splits)
    then have "uid (userId x) \<noteq> uid tgt" by (metis UserId.expand)
    moreover obtain v where "us (uid (userId x)) = Some v" "isActive v"
      using live y(1) x(2) \<open>x = y\<close> unfolding sessions_live_def by blast
    ultimately show "\<exists>v. (us(uid tgt \<mapsto> setStatus u ''inactive'')) (uid (userId x)) = Some v \<and> isActive v" by simp
  qed
  then show ?thesis using assms(1) by (auto simp: keeps_def active_admins_upd)
qed

lemma isActive_new: "mkUser i u m rl ''active'' 0 0 = Inr nu \<Longrightarrow> isActive nu"
  by (auto simp: mkUser_def isActive_def split: if_splits)

context auth_core begin

lemma register_keeps:
  assumes "inv (st_repo s)" "registerUser P rdSalt rdId u mail pw rl s = (r, s')"
  shows "inv (st_repo s') \<and> keeps (users (st_repo s)) (sess (st_sessions s)) (users (st_repo s')) (sess (st_sessions s'))"
  using assms(1)
proof (cases rule: register_cases [where rdSalt = rdSalt and rdId = rdId and u = u and mail = mail and pw = pw and rl = rl])
  case short
  then show ?thesis using assms by simp
next
  case (fail h')
  then show ?thesis using assms auditing_keeps [of P _ _ "s\<lparr>st_hasher := h'\<rparr>" r s'] by simp
next
  case (new nu enc h' r')
  have "st_repo s' = r'" "st_sessions s' = st_sessions s"
    using new(1) assms(2) auditing_keeps [of P _ _ "s\<lparr>st_hasher := h', st_repo := r'\<rparr>" r s'] by simp_all
  moreover have "users (st_repo s) (uid (generateUserId rdId)) = None"
    using new(3,4) by (auto simp: fresh_user_def mkUser_def split: if_splits)
  ultimately show ?thesis using new keeps_new isActive_new [OF new(3)] by simp
qed

lemma login_keeps:
  assumes "inv (st_repo s)" "login P rd now u pw s = (r, s')"
  shows "inv (st_repo s') \<and> keeps (users (st_repo s)) (sess (st_sessions s)) (users (st_repo s')) (sess (st_sessions s'))"
  using assms(1)
proof (cases rule: login_cases [where rd = rd and now = now and u = u and pw = pw])
  case unknown
  then show ?thesis using assms auditing_keeps [of P _ _ s r s'] by simp
next
  case blocked
  then show ?thesis using assms auditing_keeps [of P _ _ s r s'] by simp
next
  case (wrong i user enc r')
  have "st_repo s' = r'" "st_sessions s' = st_sessions s"
    using wrong(6) assms(2) auditing_keeps [of P _ _ "s\<lparr>st_repo := r'\<rparr>" r s'] by simp_all
  then show ?thesis using wrong(3,7,8) keeps_active [of "users (st_repo s)" i user] wrong(1) by (simp add: canLogin_def)
next
  case (right i user enc r' ss')
  have st: "st_repo s' = r'" "st_sessions s' = ss'"
    using right(6) assms(2) auditing_keeps [of P _ _ "s\<lparr>st_repo := r', st_sessions := ss'\<rparr>" r s'] by simp_all
  have act: "isActive user" "uid (user_id user) = i"
    using right(3) keyed [OF assms(1) right(1)] by (simp_all add: canLogin_def)
  have "keeps (users (st_repo s)) (sess (st_sessions s)) (users r') (sess (st_sessions s))"
    using right(8) act keeps_active [of "users (st_repo s)" i user] right(1) by simp
  from keeps_created [OF this _ _ right(11), of "setLockout user 0 0"] show ?thesis
    using st right(7,8) act by simp
qed

lemma logout_keeps:
  assumes "logout P tok s = (r, s')"
  shows "st_repo s' = st_repo s
     \<and> keeps (users (st_repo s)) (sess (st_sessions s)) (users (st_repo s')) (sess (st_sessions s'))"
proof (cases "sess (st_sessions s) tok")
  case None
  then show ?thesis using assms invalidate_miss [OF None] by (auto simp: logout_def sx_eqs onSessions_def)
next
  case (Some x)
  then obtain ss' where i: "invalidate (p_sessions P) tok (st_sessions s) = (Inr True, ss')"
     "\<forall>t'. sess ss' t' = sess (st_sessions s) t' \<or> sess ss' t' = map_option revoke (sess (st_sessions s) t')"
    using invalidate_hit by blast
  then have "auditing P (event '''' ''LOGOUT'' '''') True (s\<lparr>st_sessions := ss'\<rparr>) = (r, s')"
    using assms by (simp add: logout_def sx_eqs onSessions_def)
  from auditing_keeps [OF this] keeps_revoked [OF i(2)] show ?thesis by simp
qed

lemma activate_as_keeps:
  assumes "inv (st_repo s)" "activate_as P admin tgt s = (r, s')"
  shows "inv (st_repo s') \<and> keeps (users (st_repo s)) (sess (st_sessions s)) (users (st_repo s')) (sess (st_sessions s'))"
  using assms(1)
proof (cases rule: activate_as_cases [where tgt = tgt and admin = admin])
  case missing
  then show ?thesis using assms by simp
next
  case (changed u r')
  have "st_repo s' = r'" "st_sessions s' = st_sessions s"
    using changed(5) assms(2) auditing_keeps [of P _ _ "s\<lparr>st_repo := r'\<rparr>" r s'] by simp_all
  then show ?thesis using changed keeps_active [of "users (st_repo s)" "uid tgt" u] by simp
qed

lemma deactivate_as_keeps:
  assumes "inv (st_repo s)" "deactivate_as P admin tgt s = (r, s')"
  shows "inv (st_repo s') \<and> keeps (users (st_repo s)) (sess (st_sessions s)) (users (st_repo s')) (sess (st_sessions s'))"
  using assms(1)
proof (cases rule: deactivate_as_cases [where tgt = tgt and admin = admin])
  case missing
  then show ?thesis using assms by simp
next
  case lastone
  then show ?thesis using assms by simp
next
  case (changed u r' ss')
  have "st_repo s' = r'" "st_sessions s' = ss'"
    using changed(7) assms(2) auditing_keeps [of P _ _ "s\<lparr>st_repo := r', st_sessions := ss'\<rparr>" r s'] by simp_all
  moreover have "keeps (users (st_repo s)) (sess (st_sessions s)) ((users (st_repo s))(uid tgt \<mapsto> setStatus u ''inactive'')) (sess ss')"
    by (rule keeps_inactive [OF changed(3)]) (rule changed(6))
  ultimately show ?thesis using changed(2,4) by simp
qed

text \<open>Each operation is either refused and audited, or carried out for an administrator.\<close>

lemma admin_split:
  assumes "inv (st_repo s)"
  shows "isAdminSession P now tok s = Inr None
       \<and> activate P now tok tgt s = auditing P (event '''' ''ADMIN_DENIED'' (uid tgt)) (failure ''Admin denied'') s
       \<and> deactivate P now tok tgt s = auditing P (event '''' ''ADMIN_DENIED'' (uid tgt)) (failure ''Admin denied'') s
     \<or> (\<exists>admin. isAdminSession P now tok s = Inr (Some admin)
       \<and> activate P now tok tgt s = activate_as P admin tgt s
       \<and> deactivate P now tok tgt s = deactivate_as P admin tgt s)"
proof -
  obtain adm where "isAdminSession P now tok s = Inr adm" using isAdminSession_iff [OF assms] by blast
  then show ?thesis by (cases adm) (simp_all add: activate_def deactivate_def bindS_def getS_def)
qed

lemma admin_byId_split:
  assumes "inv (st_repo s)"
  shows "activate_byId P admin tgt s = auditing P (event (uid admin) ''ADMIN_DENIED'' '''') (failure ''Admin denied'') s
       \<and> deactivate_byId P admin tgt s = auditing P (event (uid admin) ''ADMIN_DENIED'' '''') (failure ''Admin denied'') s
     \<or> activate_byId P admin tgt s = activate_as P admin tgt s \<and> deactivate_byId P admin tgt s = deactivate_as P admin tgt s"
proof -
  obtain b where "service_isAdmin P admin (st_repo s) = Inr b"
    using findById [OF assms, of admin] by (simp add: service_isAdmin_def)
  then show ?thesis by (cases b) (simp_all add: activate_byId_def deactivate_byId_def bindS_def getS_def)
qed

lemma audited_keeps:
  assumes "auditing P e x s = (r, s')" "inv (st_repo s)"
  shows "inv (st_repo s') \<and> keeps (users (st_repo s)) (sess (st_sessions s)) (users (st_repo s')) (sess (st_sessions s'))"
  using auditing_keeps [OF assms(1)] assms(2) by simp

lemma step_keeps:
  assumes "service_step P s s'" "inv (st_repo s)"
  shows "inv (st_repo s') \<and> keeps (users (st_repo s)) (sess (st_sessions s)) (users (st_repo s')) (sess (st_sessions s'))"
  using assms
proof (cases rule: service_step.cases)
  case register_step
  with assms(2) show ?thesis by (rule register_keeps)
next
  case login_step
  with assms(2) show ?thesis by (rule login_keeps)
next
  case logout_step
  then show ?thesis using logout_keeps assms(2) by metis
next
  case (activate_step now tok tgt r)
  then show ?thesis
    using admin_split [OF assms(2), of now tok tgt] assms(2) activate_as_keeps audited_keeps by metis
next
  case (deactivate_step now tok tgt r)
  then show ?thesis
    using admin_split [OF assms(2), of now tok tgt] assms(2) deactivate_as_keeps audited_keeps by metis
next
  case (activate_byId_step admin tgt r)
  then show ?thesis
    using admin_byId_split [OF assms(2), of admin tgt] assms(2) activate_as_keeps audited_keeps by metis
next
  case (deactivate_byId_step admin tgt r)
  then show ?thesis
    using admin_byId_split [OF assms(2), of admin tgt] assms(2) deactivate_as_keeps audited_keeps by metis
qed

lemma run_keeps:
  "service_run P s s' \<Longrightarrow> inv (st_repo s) \<Longrightarrow>
   inv (st_repo s') \<and> keeps (users (st_repo s)) (sess (st_sessions s)) (users (st_repo s')) (sess (st_sessions s'))"
proof (induction rule: service_run.induct)
  case (more s t t')
  then show ?case using step_keeps [of t t'] by (auto simp: keeps_def)
qed simp

end

section \<open>Properties\<close>

text \<open>
  C7. In every run of the two services, whatever calls are made by whom, with whatever
  arguments, and whatever the audit log does: the repository stays consistent, at least
  one active administrator remains once there is one, and every session that is not
  revoked belongs to an active user.
\<close>

theorem service_invariants:
  assumes "service_run (mem_ports A) s s'" "mem_inv (st_repo s)" "active_admins (mem_users (st_repo s)) \<noteq> {}"
    "sessions_live (mem_users (st_repo s)) (mem_sess (st_sessions s))"
  shows "mem_inv (st_repo s') \<and> active_admins (mem_users (st_repo s')) \<noteq> {}
     \<and> sessions_live (mem_users (st_repo s')) (mem_sess (st_sessions s'))"
  using memcore.run_keeps [OF assms(1,2)] assms(3,4) by (simp add: keeps_def)

text \<open>An administrator's account and session, for the examples.\<close>

definition demo_admin :: User where
  "demo_admin = \<lparr>user_id = UserId ''1'', username = ''root'', email = ''r@x'', role = ''admin'',
     status = ''active'', failedAttempts = 0, lockoutUntil = 0\<rparr>"

definition demo_admin_state :: "(MemoryUserRepository, FakeHasher, MemorySessionStore, VectorAudit) AuthState" where
  "demo_admin_state = \<lparr>st_repo = \<lparr>usersById = [(''1'', demo_admin)], usernameToId = [(''root'', ''1'')],
       emailToId = [(''r@x'', ''1'')], hashById = [(''1'', ''h'')]\<rparr>,
     st_hasher = \<lparr>known = [], ctr = 0\<rparr>,
     st_sessions = \<lparr>byHash = [(hashToken ''t'', new_session (SessionId ''t'') (UserId ''1'') 0)], userByHash = []\<rparr>,
     st_audit = \<lparr>vlog = []\<rparr>\<rparr>"

lemma demo_admin_facts:
  "mem_inv (st_repo demo_admin_state)" "mem_users (st_repo demo_admin_state) = [''1'' \<mapsto> demo_admin]"
  "mem_sess (st_sessions demo_admin_state) (SessionId ''t'') = Some (new_session (SessionId ''t'') (UserId ''1'') 0)"
  "active_admins [''1'' \<mapsto> demo_admin] = {''1''}"
  by (auto simp: demo_admin_state_def demo_admin_def mem_inv_def mem_users_def mem_sess_def active_admins_def
      isAdmin_def isActive_def split: if_splits)

lemma demo_admin_live: "sessions_live [''1'' \<mapsto> demo_admin] (mem_sess (st_sessions demo_admin_state))"
  by (auto simp: sessions_live_def demo_admin_state_def demo_admin_def mem_sess_def isActive_def split: if_splits)

theorem service_invariants_witness:
  "\<exists>s'. service_run (mem_ports vector_audit) demo_admin_state s'
     \<and> s' = snd (deactivate (mem_ports vector_audit) 5 (SessionId ''t'') (UserId ''1'') demo_admin_state)
     \<and> active_admins (mem_users (st_repo s')) \<noteq> {}"
proof -
  let ?s' = "snd (deactivate (mem_ports vector_audit) 5 (SessionId ''t'') (UserId ''1'') demo_admin_state)"
  have "service_step (mem_ports vector_audit) demo_admin_state ?s'"
    by (rule service_step.deactivate_step [of _ 5 "SessionId ''t''" "UserId ''1''" _
          "fst (deactivate (mem_ports vector_audit) 5 (SessionId ''t'') (UserId ''1'') demo_admin_state)"]) simp
  then have run: "service_run (mem_ports vector_audit) demo_admin_state ?s'"
    by (rule service_run.more [OF service_run.here])
  from service_invariants [OF run] demo_admin_facts demo_admin_live have "active_admins (mem_users (st_repo ?s')) \<noteq> {}"
    by simp
  with run show ?thesis by blast
qed

text \<open>
  C25. Only an administrator administers: with a token that is not at this moment a valid
  session of an active administrator, activation and deactivation are refused with
  \<open>Admin denied\<close> (or the exception of a failing audit log) and change neither users nor
  sessions.
\<close>

theorem admin_session_required:
  assumes "mem_inv (st_repo s)"
    "\<nexists>x. mem_sess (st_sessions s) tok = Some x \<and> session_isValid x now
        \<and> uid (userId x) \<in> active_admins (mem_users (st_repo s))"
    "activate (mem_ports A) now tok tgt s = (r, s') \<or> deactivate (mem_ports A) now tok tgt s = (r, s')"
  shows "(r = Inr (failure ''Admin denied'') \<or> (\<exists>e. r = Inl e)) \<and> st_repo s' = st_repo s \<and> st_sessions s' = st_sessions s"
proof -
  have "isAdminSession (mem_ports A) now tok s = Inr None"
    using memcore.isAdminSession_iff [OF assms(1)] assms(2) by (simp split: option.split) metis
  with memcore.admin_split [OF assms(1), of A now tok tgt] assms(3)
  have "auditing (mem_ports A) (event '''' ''ADMIN_DENIED'' (uid tgt)) (failure ''Admin denied'') s = (r, s')" by auto
  from auditing_keeps [OF this] auditing_result [OF this] show ?thesis by auto
qed

theorem admin_session_required_witness:
  "st_repo (snd (deactivate (mem_ports vector_audit) 4000000 (SessionId ''t'') (UserId ''1'') demo_admin_state))
     = st_repo demo_admin_state"
proof -
  have "(fst (deactivate (mem_ports vector_audit) 4000000 (SessionId ''t'') (UserId ''1'') demo_admin_state)
          = Inr (failure ''Admin denied'')
        \<or> (\<exists>e. fst (deactivate (mem_ports vector_audit) 4000000 (SessionId ''t'') (UserId ''1'') demo_admin_state) = Inl e))
      \<and> st_repo (snd (deactivate (mem_ports vector_audit) 4000000 (SessionId ''t'') (UserId ''1'') demo_admin_state))
         = st_repo demo_admin_state
      \<and> st_sessions (snd (deactivate (mem_ports vector_audit) 4000000 (SessionId ''t'') (UserId ''1'') demo_admin_state))
         = st_sessions demo_admin_state"
    by (rule admin_session_required [where now = 4000000 and tok = "SessionId ''t''" and tgt = "UserId ''1''" and A = vector_audit])
       (simp_all add: demo_admin_facts session_ms_def)
  then show ?thesis by blast
qed

definition demo_two_state :: "(MemoryUserRepository, FakeHasher, MemorySessionStore, VectorAudit) AuthState" where
  "demo_two_state = demo_admin_state\<lparr>st_repo :=
     \<lparr>usersById = [(''1'', demo_admin), (''2'', (demo_user 0)\<lparr>user_id := UserId ''2''\<rparr>)],
      usernameToId = [(''root'', ''1''), (''bob'', ''2'')],
      emailToId = [(''r@x'', ''1''), (''b@x'', ''2'')], hashById = [(''1'', ''h''), (''2'', ''h'')]\<rparr>\<rparr>"

lemma demo_two_facts:
  "mem_inv (st_repo demo_two_state)"
  "mem_users (st_repo demo_two_state) ''2'' = Some ((demo_user 0)\<lparr>user_id := UserId ''2''\<rparr>)"
  "mem_sess (st_sessions demo_two_state) (SessionId ''t'') = Some (new_session (SessionId ''t'') (UserId ''1'') 0)"
  "active_admins (mem_users (st_repo demo_two_state)) = {''1''}"
  by (auto simp: demo_two_state_def demo_admin_state_def demo_admin_def demo_user_def mem_inv_def mem_users_def mem_sess_def
      active_admins_def isAdmin_def isActive_def split: if_splits)

text \<open>
  C26. A successful deactivation takes effect at once: the target (never the only active
  administrator) is inactive, every session it had is invalid for good, the sessions of all
  other users are untouched, and its next login is refused with any password.
\<close>

theorem deactivation_effective:
  assumes "mem_inv (st_repo s)" "deactivate (mem_ports A) now tok tgt s = (Inr (success tgt'), s')"
  shows "tgt' = tgt \<and> active_admins (mem_users (st_repo s)) \<noteq> {uid tgt}
     \<and> (\<exists>u. mem_users (st_repo s) (uid tgt) = Some u
          \<and> mem_users (st_repo s') = (mem_users (st_repo s))(uid tgt \<mapsto> setStatus u ''inactive'')
          \<and> login (mem_ports A) rd now' (username u) pw s'
             = auditing (mem_ports A) (event (username u) ''LOGIN_FAIL'' '''') (failure ''Login failed'') s')
     \<and> (\<forall>t x. MemSess_isValid t x (st_sessions s')
             \<longleftrightarrow> MemSess_isValid t x (st_sessions s) \<and> MemSess_userFor t (st_sessions s) \<noteq> Inr tgt)"
proof -
  obtain admin where d: "deactivate_as (mem_ports A) admin tgt s = (Inr (success tgt'), s')"
    using memcore.admin_split [OF assms(1), of A now tok tgt] memcore.auditing_not_success assms(2) by metis
  from assms(1) show ?thesis
  proof (cases rule: memcore.deactivate_as_cases [where A = A and tgt = tgt and admin = admin])
    case (changed u r' ss')
    then have "auditing (mem_ports A) (event (uid admin) ''DEACTIVATE'' (uid tgt)) (success tgt)
        (s\<lparr>st_repo := r', st_sessions := ss'\<rparr>) = (Inr (success tgt'), s')"
      using d by simp
    from memcore.auditing_Inr [OF this] have st: "tgt' = tgt" "st_repo s' = r'" "st_sessions s' = ss'" by auto
    have "\<not> canLogin (setStatus u ''inactive'') now'" by (simp add: canLogin_def)
    then have l: "login (mem_ports A) rd now' (username u) pw s'
        = auditing (mem_ports A) (event (username u) ''LOGIN_FAIL'' '''') (failure ''Login failed'') s'"
      using memcore.login_blocked [of s' "uid tgt" "setStatus u ''inactive''"] changed(2,4) st by simp
    have "MemSess_isValid t x ss' \<longleftrightarrow> MemSess_isValid t x (st_sessions s) \<and> MemSess_userFor t (st_sessions s) \<noteq> Inr tgt" for t x
      using changed(6) [of t] by (cases "mem_sess (st_sessions s) t") (auto simp: MemSess_isValid_sess MemSess_userFor_def)
    with changed st l show ?thesis by blast
  qed (use d in simp_all)
qed

theorem deactivation_effective_witness:
  "\<exists>s'. deactivate (mem_ports vector_audit) 5 (SessionId ''t'') (UserId ''2'') demo_two_state = (Inr (success (UserId ''2'')), s')
     \<and> login (mem_ports vector_audit) (\<lambda>_. 0) 6 ''bob'' ''password'' s'
         = auditing (mem_ports vector_audit) (event ''bob'' ''LOGIN_FAIL'' '''') (failure ''Login failed'') s'"
proof -
  let ?P = "mem_ports vector_audit"
  let ?bob = "(demo_user 0)\<lparr>user_id := UserId ''2''\<rparr>"
  have adm: "isAdminSession ?P 5 (SessionId ''t'') demo_two_state = Inr (Some (UserId ''1''))"
    using memcore.isAdminSession_iff [OF demo_two_facts(1), of vector_audit 5 "SessionId ''t''"] demo_two_facts
    by (simp add: session_ms_def)
  from demo_two_facts(1) obtain s' where s': "deactivate ?P 5 (SessionId ''t'') (UserId ''2'') demo_two_state = (Inr (success (UserId ''2'')), s')"
  proof (cases rule: memcore.deactivate_as_cases [where A = vector_audit and tgt = "UserId ''2''" and admin = "UserId ''1''"])
    case (changed u r' ss')
    with adm show ?thesis using that memauth.auditing_ok
      by (fastforce simp: deactivate_def bindS_def getS_def)
  qed (use demo_two_facts in simp_all)
  have "\<exists>u. mem_users (st_repo demo_two_state) (uid (UserId ''2'')) = Some u
          \<and> login ?P (\<lambda>_. 0) 6 (username u) ''password'' s'
             = auditing ?P (event (username u) ''LOGIN_FAIL'' '''') (failure ''Login failed'') s'"
    using deactivation_effective [OF demo_two_facts(1) s', of "\<lambda>_. 0" 6 "''password''"] by blast
  with s' demo_two_facts(2) show ?thesis by auto
qed

end
