(* ===== verification/SqliteAuth.thy ===== *)
theory SqliteAuth
  imports SqliteUsers AdminService
begin

text \<open>
  The authentication service on the persistent repository, as the server wires it: every
  call answers as it does on the in-memory repository, so the properties proved there hold
  for the service in production as long as the database works.
\<close>

section \<open>Runs that agree\<close>

text \<open>Two computations started in related states return the same and end in related states.\<close>

definition agree :: "('s \<Rightarrow> 't \<Rightarrow> bool) \<Rightarrow> ('s, 'x) sx \<Rightarrow> 's \<Rightarrow> ('t, 'x) sx \<Rightarrow> 't \<Rightarrow> bool" where
  "agree A m s m' t \<longleftrightarrow> fst (m s) = fst (m' t) \<and> A (snd (m s)) (snd (m' t))"

lemma agree_ret: "A s t \<Longrightarrow> agree A (retS x) s (retS x) t"
  by (simp add: agree_def retS_def)

lemma agree_get: "A s t \<Longrightarrow> g s = g' t \<Longrightarrow> agree A (getS g) s (getS g') t"
  by (simp add: agree_def getS_def)

lemma agree_bind:
  assumes "agree A m s m' t"
    and "\<And>x s' t'. A s' t' \<Longrightarrow> m s = (Inr x, s') \<Longrightarrow> m' t = (Inr x, t') \<Longrightarrow> agree A (f x) s' (f' x) t'"
  shows "agree A (bindS m f) s (bindS m' f') t"
proof -
  obtain r s' r' t' where m: "m s = (r, s')" "m' t = (r', t')" by (metis prod.collapse)
  with assms(1) have "r = r'" "A s' t'" by (simp_all add: agree_def)
  with m assms(2) show ?thesis by (cases r) (auto simp: agree_def bindS_def)
qed

lemma agree_bind_get:
  assumes "A s t" "g s = g' t" "\<And>x. g' t = Inr x \<Longrightarrow> agree A (f x) s (f' x) t"
  shows "agree A (bindS (getS g) f) s (bindS (getS g') f') t"
  using assms by (cases "g' t") (auto simp: agree_def bindS_def getS_def)

section \<open>The two wirings\<close>

definition auth_sim ::
  "('db \<Rightarrow> sqlval list list) \<Rightarrow> ('db \<Rightarrow> sqlval list list option)
   \<Rightarrow> ('db, 'h, 's, 'a) AuthState \<Rightarrow> (MemoryUserRepository, 'h, 's, 'a) AuthState \<Rightarrow> bool" where
  "auth_sim content saved s t \<longleftrightarrow> saved (st_repo s) = None \<and> users_sim (content (st_repo s)) (st_repo t)
     \<and> st_hasher s = st_hasher t \<and> st_sessions s = st_sessions t \<and> st_audit s = st_audit t"

lemma agree_auditing:
  "auth_sim C V s t \<Longrightarrow> agree (auth_sim C V) (auditing (wired R H S A) e x) s (auditing (wired R' H S A) e x) t"
  by (auto simp: agree_def auditing_def bindS_def onAudit_def zoomS_def retS_def auth_sim_def split: prod.split sum.split)

lemma agree_onHasher: "auth_sim C V s t \<Longrightarrow> agree (auth_sim C V) (onHasher m) s (onHasher m) t"
  by (auto simp: agree_def onHasher_def zoomS_def auth_sim_def split: prod.split)

lemma agree_onSessions: "auth_sim C V s t \<Longrightarrow> agree (auth_sim C V) (onSessions m) s (onSessions m) t"
  by (auto simp: agree_def onSessions_def zoomS_def auth_sim_def split: prod.split)

text \<open>A user that is found is stored under its identifier.\<close>

lemma found_stored:
  assumes "users_sim R m" "MemUser_findByUsername n m = Inr f" "got f = Some u"
  shows "storable_user u \<and> map_of (usersById m) (uid (user_id u)) = Some u"
proof -
  obtain i where i: "map_of (usersById m) i = Some u"
    using assms(2,3) by (auto simp: MemUser_findByUsername_def split: option.splits)
  then have "uid (user_id u) = i" using mem_invD(2) [of m i u] assms(1) by (simp add: users_sim_def)
  with i show ?thesis using storable_known [OF assms(1) i] by simp
qed

lemma onHasher_Inr:
  assumes "onHasher m t = (Inr x, t')" and "\<And>h h'. m h = (Inr x, h') \<Longrightarrow> Q x"
  shows "Q x"
  using assms by (auto simp: onHasher_def zoomS_def split: prod.splits)

text \<open>Generated identifiers are plain text, so the user that registration makes can be stored.\<close>

lemma plain_hex_string: "plain_text (hex_string bs)"
proof -
  have "hex_digit n \<noteq> CHR 0x00" if "n < 16" for n using hex_val_digit [OF that] by (auto simp: hex_val_def)
  then show ?thesis using set_hex_string unfolding plain_text_def by metis
qed

lemma plain_randomHex: "plain_text (randomHex rd n)"
  by (simp add: randomHex_eq_hex_string plain_hex_string)

lemma plain_generateUserId: "plain_text (uid (generateUserId rd))"
  using plain_randomHex [of rd 16] by (auto simp: plain_text_def generateUserId_def Let_def dest!: in_set_takeD in_set_dropD)

lemma new_user_storable:
  assumes "mkUser (generateUserId rd) u mail rl ''active'' 0 0 = Inr nu" "plain_text u" "plain_text mail" "plain_text rl"
  shows "storable_user nu"
  using assms plain_generateUserId [of rd]
  by (auto simp: mkUser_def storable_user_def in_range_def plain_text_def split: if_splits)

context users_db
begin

lemma agree_cmd:
  assumes "auth_sim content saved s t" "storable_cmd (st_repo t) c" "\<not> isl (fst (run_user_cmd memory_users c (st_repo t)))"
  shows "agree (auth_sim content saved) (onRepo (run_user_cmd (sqlite_users L) c)) s (onRepo (run_user_cmd memory_users c)) t"
proof -
  obtain r d' where d': "run_user_cmd (sqlite_users L) c (st_repo s) = (r, d')" "saved d' = None"
    "users_sim (content d') (snd (run_user_cmd memory_users c (st_repo t)))" "\<not> isl r"
    using cmd_sim [of "st_repo s" "st_repo t" c] assms by (auto simp: auth_sim_def)
  obtain x q where q: "run_user_cmd memory_users c (st_repo t) = (x, q)" by (metis prod.collapse)
  have "r = x" using d'(4) assms(3) q by (cases r; cases x) auto
  then show ?thesis using d' q assms(1) by (auto simp: agree_def onRepo_def zoomS_def auth_sim_def)
qed

lemma login_agrees:
  assumes "auth_sim content saved s t" "plain_text u" "- (2 ^ 63) \<le> now + 15 * 60 * 1000" "now + 15 * 60 * 1000 < 2 ^ 63"
    "\<And>v. v \<in> ran (mem_users (st_repo t)) \<Longrightarrow> failedAttempts v + 1 < 2 ^ 31"
  shows "agree (auth_sim content saved) (login (wired (sqlite_users L) H S A) rd now u pw) s (login (wired memory_users H S A) rd now u pw) t"
proof -
  have sim: "users_sim (content (st_repo s)) (st_repo t)" using assms(1) by (simp add: auth_sim_def)
  have fnd: "findByUsername (sqlite_users L) u (st_repo s) = MemUser_findByUsername u (st_repo t)"
    using find_sim(2) [OF sim assms(2)] by (simp add: sqlite_users_def)
  show ?thesis unfolding login_def wired_sel
  proof (rule agree_bind_get, goal_cases)
    case (3 found)
    show ?case
    proof (cases "got found")
      case None
      then show ?thesis using agree_auditing [OF assms(1)] by simp
    next
      case (Some v)
      have v: "storable_user v" "map_of (usersById (st_repo t)) (uid (user_id v)) = Some v"
        using found_stored [OF sim _ Some] 3 by (simp_all add: memory_users_def)
      have "v \<in> ran (mem_users (st_repo t))" using v(2) by (auto simp: mem_users_def ran_def)
      then have rng: "in_range (failedAttempts v + 1) (now + 15 * 60 * 1000)"
        using assms(3,4,5) v(1) by (fastforce simp: in_range_def storable_user_def)
      have pl: "plain_text (uid (user_id v))" using v(1) by (simp add: storable_user_def)
      have hash: "getEncodedHash (sqlite_users L) (user_id v) (st_repo s) = getEncodedHash memory_users (user_id v) (st_repo t)"
        using hash_lookup_sim [OF sim pl] by (simp add: sqlite_users_def memory_users_def)
      have "agree (auth_sim content saved) (onRepo (run_user_cmd (sqlite_users L) (LoginFailure (user_id v) now))) s
          (onRepo (run_user_cmd memory_users (LoginFailure (user_id v) now))) t"
        by (rule agree_cmd [OF assms(1)]) (use v(2) rng pl in \<open>simp_all add: memory_users_def MemUser_recordLoginFailure_def MemUser_modify_def\<close>)
      moreover have "agree (auth_sim content saved) (onRepo (run_user_cmd (sqlite_users L) (ResetFailures (user_id v)))) s
          (onRepo (run_user_cmd memory_users (ResetFailures (user_id v)))) t"
        by (rule agree_cmd [OF assms(1)]) (use v(2) pl in \<open>simp_all add: memory_users_def MemUser_resetLoginFailures_def MemUser_modify_def\<close>)
      moreover have "st_hasher s = st_hasher t" using assms(1) by (simp add: auth_sim_def)
      ultimately show ?thesis
        using hash assms(1) Some
        by (auto intro!: agree_auditing agree_bind agree_onSessions agree_get) (auto simp: getS_def)
    qed
  qed (use fnd assms(1) in \<open>simp_all add: memory_users_def\<close>)
qed

lemma agree_try_save:
  assumes "auth_sim content saved s t" "storable_user u" "plain_text h"
  shows "agree (auth_sim content saved)
    (catchS (bindS (onRepo (saveUser (sqlite_users L) u h)) (\<lambda>_. retS True)) (\<lambda>_. retS False)) s
    (catchS (bindS (onRepo (saveUser memory_users u h)) (\<lambda>_. retS True)) (\<lambda>_. retS False)) t"
proof -
  obtain r d' where d': "saveUser (sqlite_users L) u h (st_repo s) = (r, d')" "saved d' = None"
    "users_sim (content d') (snd (saveUser memory_users u h (st_repo t)))"
    "isl r \<longleftrightarrow> isl (fst (saveUser memory_users u h (st_repo t)))"
    using cmd_sim [of "st_repo s" "st_repo t" "SaveUser u h"] assms by (auto simp: auth_sim_def)
  obtain x q where q: "saveUser memory_users u h (st_repo t) = (x, q)" by (metis prod.collapse)
  with d' assms(1) show ?thesis
    by (cases r; cases x) (auto simp: agree_def catchS_def bindS_def onRepo_def zoomS_def retS_def auth_sim_def)
qed

lemma register_agrees:
  assumes "auth_sim content saved s t" "plain_text u" "plain_text mail" "plain_text rl"
    and hashes: "\<And>rd pw h enc h'. hash_password H rd pw h = (Inr enc, h') \<Longrightarrow> plain_text enc"
  shows "agree (auth_sim content saved) (registerUser (wired (sqlite_users L) H S A) rdSalt rdId u mail pw rl) s
    (registerUser (wired memory_users H S A) rdSalt rdId u mail pw rl) t"
proof (cases "u = [] \<or> mail = [] \<or> length pw < 8")
  case True
  then show ?thesis using agree_ret [of "auth_sim content saved", OF assms(1)] by (simp add: registerUser_def)
next
  case False
  have sim: "users_sim (content (st_repo s)) (st_repo t)" using assms(1) by (simp add: auth_sim_def)
  have name: "findByUsername (sqlite_users L) u (st_repo s) = findByUsername memory_users u (st_repo t)"
    and mail: "findByEmail (sqlite_users L) mail (st_repo s) = findByEmail memory_users mail (st_repo t)"
    using find_sim [OF sim assms(2)] find_sim [OF sim assms(3)] by (simp_all add: sqlite_users_def memory_users_def)
  have look: "agree (auth_sim content saved)
      (if b then retS True
       else bindS (getS (\<lambda>s. findByEmail (sqlite_users L) mail (st_repo s))) (\<lambda>byMail. retS (ok byMail))) s
      (if b then retS True
       else bindS (getS (\<lambda>s. findByEmail memory_users mail (st_repo s))) (\<lambda>byMail. retS (ok byMail))) t" for b
    by (cases b) (auto intro!: agree_ret agree_bind_get simp: assms(1) mail)
  show ?thesis unfolding registerUser_def wired_sel Let_def if_not_P [OF False]
  proof (rule agree_bind_get, rule assms(1), rule name, rule agree_bind [OF look], goal_cases)
    case (1 byName taken s' t')
    show ?case
    proof (cases taken)
      case True
      then show ?thesis using agree_auditing [OF 1(2)] by simp
    next
      case False
      show ?thesis unfolding if_not_P [OF False]
      proof (rule agree_bind [OF agree_onHasher [OF 1(2)]], rule agree_bind_get, assumption, rule refl, goal_cases)
        case (1 enc s1 t1 nu)
        show ?case
          by (rule agree_bind [OF agree_try_save [OF 1(1) new_user_storable [OF 1(4) assms(2-4)] onHasher_Inr [OF 1(3) hashes]]])
             (auto intro: agree_auditing)
      qed
    qed
  qed
qed

lemma logout_agrees:
  "auth_sim content saved s t \<Longrightarrow>
   agree (auth_sim content saved) (logout (wired (sqlite_users L) H S A) tok) s (logout (wired memory_users H S A) tok) t"
  unfolding logout_def wired_sel by (rule agree_bind [OF agree_onSessions]) (auto intro: agree_auditing agree_ret)

end

section \<open>Administration\<close>

lemma plain_status: "storable_user u \<Longrightarrow> storable_user (setStatus u ''active'') \<and> storable_user (setStatus u ''inactive'')"
  by (simp add: storable_user_def setStatus_def plain_text_def)

lemma found_by_id:
  assumes "users_sim R m" "findById memory_users i m = Inr f" "got f = Some u"
  shows "storable_user u \<and> map_of (usersById m) (uid (user_id u)) = Some u \<and> uid (user_id u) = uid i"
proof -
  have i: "map_of (usersById m) (uid i) = Some u"
    using assms(2,3) by (auto simp: memory_users_def MemUser_findById_def split: option.splits)
  then have "uid (user_id u) = uid i" using mem_invD(2) [of m "uid i" u] assms(1) by (simp add: users_sim_def)
  with i show ?thesis using storable_known [OF assms(1) i] by simp
qed

lemma filter_same_length: "mset xs = mset ys \<Longrightarrow> length (filter P xs) = length (filter P ys)"
  by (metis mset_filter size_mset)

context users_db
begin

lemma findById_agrees:
  "users_sim (content d) m \<Longrightarrow> plain_text (uid i) \<Longrightarrow> findById (sqlite_users L) i d = findById memory_users i m"
  using find_sim(1) [of d m "uid i"] by (simp add: sqlite_users_def memory_users_def)

lemma count_agrees:
  assumes "users_sim (content d) m"
  shows "countActiveAdmins (wired (sqlite_users L) H S A) d = countActiveAdmins (wired memory_users H S A) m"
proof -
  obtain l where "SqliteUser_listAll L d = Inr l" "mset l = mset (map snd (usersById m))" using list_sim [OF assms] by blast
  then show ?thesis using filter_same_length [of l "map snd (usersById m)"]
    by (simp add: countActiveAdmins_def sqlite_users_def memory_users_def MemUser_listAll_def)
qed

lemma isAdmin_agrees:
  "users_sim (content d) m \<Longrightarrow> plain_text (uid i) \<Longrightarrow>
   service_isAdmin (wired (sqlite_users L) H S A) i d = service_isAdmin (wired memory_users H S A) i m"
  by (simp add: service_isAdmin_def findById_agrees)

lemma adminSession_agrees:
  assumes "auth_sim content saved s t"
    "\<And>x. got (findByToken S tok (st_sessions t)) = Some x \<Longrightarrow> plain_text (uid (userId x))"
  shows "isAdminSession (wired (sqlite_users L) H S A) now tok s = isAdminSession (wired memory_users H S A) now tok t"
proof -
  have sim: "users_sim (content (st_repo s)) (st_repo t)" "st_sessions s = st_sessions t" using assms(1) by (simp_all add: auth_sim_def)
  show ?thesis
  proof (cases "got (findByToken S tok (st_sessions t))")
    case (Some x)
    then show ?thesis using sim(2) findById_agrees [OF sim(1) assms(2)] isAdmin_agrees [OF sim(1) assms(2), of x H S A]
      by (simp add: isAdminSession_def cong: option.case_cong if_cong)
  qed (use sim in \<open>simp add: isAdminSession_def\<close>)
qed

lemma status_agrees:
  assumes "auth_sim content saved s t" "findById memory_users i (st_repo t) = Inr f" "got f = Some u" "st \<in> {''active'', ''inactive''}"
  shows "agree (auth_sim content saved) (onRepo (updateUser (sqlite_users L) (setStatus u st))) s
    (onRepo (updateUser memory_users (setStatus u st))) t"
proof -
  have u: "storable_user u" "map_of (usersById (st_repo t)) (uid (user_id u)) = Some u"
    using found_by_id [OF _ assms(2,3)] assms(1) by (auto simp: auth_sim_def)
  have "storable_user (setStatus u st)" using plain_status [OF u(1)] assms(4) by auto
  moreover have "\<not> isl (fst (updateUser memory_users (setStatus u st) (st_repo t)))"
    using u(2) by (simp add: memory_users_def MemUser_update_def setStatus_def)
  ultimately show ?thesis using agree_cmd [OF assms(1), of "UpdateUser (setStatus u st)"] by simp
qed

lemma activate_as_agrees:
  assumes "auth_sim content saved s t" "plain_text (uid tgt)"
  shows "agree (auth_sim content saved) (activate_as (wired (sqlite_users L) H S A) adm tgt) s
    (activate_as (wired memory_users H S A) adm tgt) t"
  unfolding activate_as_def wired_sel
proof (rule agree_bind_get, goal_cases)
  case (3 f)
  show ?case
  proof (cases "got f")
    case None
    then show ?thesis using agree_ret [of "auth_sim content saved", OF assms(1)] by simp
  next
    case (Some u)
    have "agree (auth_sim content saved) (onRepo (updateUser (sqlite_users L) (setStatus u ''active''))) s
      (onRepo (updateUser memory_users (setStatus u ''active''))) t" by (rule status_agrees [OF assms(1) 3 Some]) simp
    then show ?thesis using Some by (auto intro!: agree_bind agree_auditing)
  qed
qed (use assms in \<open>simp_all add: auth_sim_def findById_agrees\<close>)

lemma deactivate_as_agrees:
  assumes "auth_sim content saved s t" "plain_text (uid tgt)"
  shows "agree (auth_sim content saved) (deactivate_as (wired (sqlite_users L) H S A) adm tgt) s
    (deactivate_as (wired memory_users H S A) adm tgt) t"
  unfolding deactivate_as_def wired_sel
proof (rule agree_bind_get, goal_cases)
  case (3 f)
  show ?case
  proof (cases "got f")
    case None
    then show ?thesis using agree_ret [of "auth_sim content saved", OF assms(1)] by simp
  next
    case (Some u)
    have sim: "users_sim (content (st_repo s)) (st_repo t)" using assms(1) by (simp add: auth_sim_def)
    have up: "agree (auth_sim content saved) (onRepo (updateUser (sqlite_users L) (setStatus u ''inactive''))) s
      (onRepo (updateUser memory_users (setStatus u ''inactive''))) t" by (rule status_agrees [OF assms(1) 3 Some]) simp
    show ?thesis unfolding Some option.case
    proof (rule agree_bind_get, goal_cases)
      case (3 lastAdmin)
      then show ?case using agree_ret [of "auth_sim content saved", OF assms(1)] up
        by (auto intro!: agree_bind agree_auditing agree_onSessions)
    qed (use assms(1) count_agrees [OF sim, of H S A] in simp_all)
  qed
qed (use assms in \<open>simp_all add: auth_sim_def findById_agrees\<close>)

lemma activate_agrees:
  assumes "auth_sim content saved s t" "plain_text (uid tgt)"
    "\<And>x. got (findByToken S tok (st_sessions t)) = Some x \<Longrightarrow> plain_text (uid (userId x))"
  shows "agree (auth_sim content saved) (activate (wired (sqlite_users L) H S A) now tok tgt) s
    (activate (wired memory_users H S A) now tok tgt) t"
  unfolding activate_def
  by (rule agree_bind_get [where A = "auth_sim content saved"])
     (use assms adminSession_agrees [OF assms(1,3)] activate_as_agrees [OF assms(1,2)]
       in \<open>auto intro!: agree_auditing split: option.split\<close>)

lemma deactivate_agrees:
  assumes "auth_sim content saved s t" "plain_text (uid tgt)"
    "\<And>x. got (findByToken S tok (st_sessions t)) = Some x \<Longrightarrow> plain_text (uid (userId x))"
  shows "agree (auth_sim content saved) (deactivate (wired (sqlite_users L) H S A) now tok tgt) s
    (deactivate (wired memory_users H S A) now tok tgt) t"
  unfolding deactivate_def
  by (rule agree_bind_get [where A = "auth_sim content saved"])
     (use assms adminSession_agrees [OF assms(1,3)] deactivate_as_agrees [OF assms(1,2)]
       in \<open>auto intro!: agree_auditing split: option.split\<close>)

end

section \<open>Sequences of calls\<close>

text \<open>The calls clients and administrators make, and what comes back.\<close>

datatype service_call =
    CallRegister random_device random_device string string string string
  | CallLogin random_device int string string
  | CallLogout SessionId
  | CallActivate int SessionId UserId
  | CallDeactivate int SessionId UserId

datatype service_answer =
    UserAnswer "exn + UserId Result"
  | TokenAnswer "exn + SessionId Result"
  | LogoutAnswer "exn + bool"

primrec call_service :: "('r, 'h, 's, 'a) AuthPorts \<Rightarrow> service_call \<Rightarrow> ('r, 'h, 's, 'a) AuthState \<Rightarrow> service_answer \<times> ('r, 'h, 's, 'a) AuthState" where
  "call_service P (CallRegister rdSalt rdId u mail pw rl) s = apfst UserAnswer (registerUser P rdSalt rdId u mail pw rl s)"
| "call_service P (CallLogin rd now u pw) s = apfst TokenAnswer (login P rd now u pw s)"
| "call_service P (CallLogout tok) s = apfst LogoutAnswer (logout P tok s)"
| "call_service P (CallActivate now tok tgt) s = apfst UserAnswer (activate P now tok tgt s)"
| "call_service P (CallDeactivate now tok tgt) s = apfst UserAnswer (deactivate P now tok tgt s)"

fun call_services :: "('r, 'h, 's, 'a) AuthPorts \<Rightarrow> service_call list \<Rightarrow> ('r, 'h, 's, 'a) AuthState \<Rightarrow> service_answer list \<times> ('r, 'h, 's, 'a) AuthState" where
  "call_services P [] s = ([], s)"
| "call_services P (c # cs) s = (case call_service P c s of (a, s') \<Rightarrow> apfst ((#) a) (call_services P cs s'))"

text \<open>
  What a call may carry: text without a NUL byte (which C strings cut), a clock and failure
  counters within the integer columns.
\<close>

definition token_plain :: "'s ISessionStore \<Rightarrow> SessionId \<Rightarrow> 's \<Rightarrow> bool" where
  "token_plain S tok ss \<longleftrightarrow>
     (case got (findByToken S tok ss) of None \<Rightarrow> True | Some x \<Rightarrow> plain_text (uid (userId x)))"

primrec admissible :: "service_call \<Rightarrow> 's ISessionStore \<Rightarrow> (MemoryUserRepository, 'h, 's, 'a) AuthState \<Rightarrow> bool" where
  "admissible (CallRegister rdSalt rdId u mail pw rl) S t \<longleftrightarrow> plain_text u \<and> plain_text mail \<and> plain_text rl"
| "admissible (CallLogin rd now u pw) S t \<longleftrightarrow> plain_text u \<and> - (2 ^ 63) \<le> now + 15 * 60 * 1000 \<and> now + 15 * 60 * 1000 < 2 ^ 63
     \<and> list_all (\<lambda>(i, v). failedAttempts v + 1 < 2 ^ 31) (usersById (st_repo t))"
| "admissible (CallLogout tok) S t \<longleftrightarrow> True"
| "admissible (CallActivate now tok tgt) S t \<longleftrightarrow> plain_text (uid tgt) \<and> token_plain S tok (st_sessions t)"
| "admissible (CallDeactivate now tok tgt) S t \<longleftrightarrow> plain_text (uid tgt) \<and> token_plain S tok (st_sessions t)"

fun admissible_run :: "service_call list \<Rightarrow> 'h IPasswordHasher \<Rightarrow> 's ISessionStore \<Rightarrow> 'a IAuditLogger \<Rightarrow> (MemoryUserRepository, 'h, 's, 'a) AuthState \<Rightarrow> bool" where
  "admissible_run [] H S A t \<longleftrightarrow> True"
| "admissible_run (c # cs) H S A t \<longleftrightarrow> admissible c S t \<and> admissible_run cs H S A (snd (call_service (wired memory_users H S A) c t))"

definition plain_hashes :: "'h IPasswordHasher \<Rightarrow> bool" where
  "plain_hashes H \<longleftrightarrow> (\<forall>rd pw h enc h'. hash_password H rd pw h = (Inr enc, h') \<longrightarrow> plain_text enc)"

lemma plain_hashesD: "plain_hashes H \<Longrightarrow> hash_password H rd pw h = (Inr enc, h') \<Longrightarrow> plain_text enc"
  unfolding plain_hashes_def by metis

context users_db
begin

lemma admissible_login:
  assumes "auth_sim content saved s t" "admissible (CallLogin rd now u pw) S t"
  shows "agree (auth_sim content saved) (login (wired (sqlite_users L) H S A) rd now u pw) s (login (wired memory_users H S A) rd now u pw) t"
proof -
  have "failedAttempts v + 1 < 2 ^ 31" if "v \<in> ran (mem_users (st_repo t))" for v
    using that assms(2) by (auto simp: ran_def mem_users_def list_all_iff dest!: map_of_SomeD)
  then show ?thesis using assms(2) by (intro login_agrees [OF assms(1)]) simp_all
qed

lemma call_service_agrees:
  assumes "auth_sim content saved s t" "admissible c S t" "plain_hashes H"
  shows "fst (call_service (wired (sqlite_users L) H S A) c s) = fst (call_service (wired memory_users H S A) c t)
     \<and> auth_sim content saved (snd (call_service (wired (sqlite_users L) H S A) c s)) (snd (call_service (wired memory_users H S A) c t))"
proof (cases c)
  case (CallRegister rdSalt rdId u mail pw rl)
  have "agree (auth_sim content saved) (registerUser (wired (sqlite_users L) H S A) rdSalt rdId u mail pw rl) s
    (registerUser (wired memory_users H S A) rdSalt rdId u mail pw rl) t"
    by (rule register_agrees [OF assms(1)]) (use assms(2) CallRegister plain_hashesD [OF assms(3)] in auto)
  then show ?thesis by (simp add: CallRegister agree_def)
next
  case (CallLogin rd now u pw)
  have "agree (auth_sim content saved) (login (wired (sqlite_users L) H S A) rd now u pw) s (login (wired memory_users H S A) rd now u pw) t"
    using assms(2) CallLogin by (intro admissible_login [OF assms(1)]) simp
  then show ?thesis by (simp add: CallLogin agree_def)
next
  case (CallLogout tok)
  have "agree (auth_sim content saved) (logout (wired (sqlite_users L) H S A) tok) s (logout (wired memory_users H S A) tok) t"
    by (rule logout_agrees [OF assms(1)])
  then show ?thesis by (simp add: CallLogout agree_def)
next
  case (CallActivate now tok tgt)
  have "agree (auth_sim content saved) (activate (wired (sqlite_users L) H S A) now tok tgt) s (activate (wired memory_users H S A) now tok tgt) t"
    by (rule activate_agrees [OF assms(1)]) (use assms(2) CallActivate in \<open>auto simp: token_plain_def\<close>)
  then show ?thesis by (simp add: CallActivate agree_def)
next
  case (CallDeactivate now tok tgt)
  have "agree (auth_sim content saved) (deactivate (wired (sqlite_users L) H S A) now tok tgt) s (deactivate (wired memory_users H S A) now tok tgt) t"
    by (rule deactivate_agrees [OF assms(1)]) (use assms(2) CallDeactivate in \<open>auto simp: token_plain_def\<close>)
  then show ?thesis by (simp add: CallDeactivate agree_def)
qed

lemma call_services_agrees:
  assumes "auth_sim content saved s t" "admissible_run cs H S A t" "plain_hashes H"
  shows "fst (call_services (wired (sqlite_users L) H S A) cs s) = fst (call_services (wired memory_users H S A) cs t)
     \<and> auth_sim content saved (snd (call_services (wired (sqlite_users L) H S A) cs s)) (snd (call_services (wired memory_users H S A) cs t))"
  using assms(1,2)
proof (induction cs arbitrary: s t)
  case (Cons c cs)
  obtain a s' b t' where st: "call_service (wired (sqlite_users L) H S A) c s = (a, s')" "call_service (wired memory_users H S A) c t = (b, t')"
    by (metis prod.collapse)
  have "a = b" "auth_sim content saved s' t'" using call_service_agrees [OF Cons.prems(1) _ assms(3), of c S A] Cons.prems(2) st by auto
  then show ?case using Cons.IH [of s' t'] Cons.prems(2) st by simp
qed simp

end

section \<open>Properties\<close>

text \<open>
  The services in production behave as the ones verified: over a database that works,
  every sequence of registrations, logins, logouts, activations and deactivations on the
  persistent user repository, from an empty table, gives the same answers, call by call, and
  leaves the same sessions and the same audit log as on the in-memory repository.
\<close>

theorem services_on_sqlite:
  fixes L :: "'db sqlite3"
  assumes "users_db L content saved" "saved d = None" "content d = []" "plain_hashes H"
    "admissible_run cs H S A \<lparr>st_repo = emptyMemoryUserRepository, st_hasher = h, st_sessions = ss, st_audit = a\<rparr>"
  shows "let sql = call_services (wired (sqlite_users L) H S A) cs \<lparr>st_repo = d, st_hasher = h, st_sessions = ss, st_audit = a\<rparr>;
             mem = call_services (wired memory_users H S A) cs
                     \<lparr>st_repo = emptyMemoryUserRepository, st_hasher = h, st_sessions = ss, st_audit = a\<rparr>
     in fst sql = fst mem \<and> st_sessions (snd sql) = st_sessions (snd mem) \<and> st_audit (snd sql) = st_audit (snd mem)"
proof -
  have "users_sim (content d) emptyMemoryUserRepository"
    using assms(3) mem_inv_empty by (simp add: users_sim_def emptyMemoryUserRepository_def)
  then have "auth_sim content saved \<lparr>st_repo = d, st_hasher = h, st_sessions = ss, st_audit = a\<rparr>
      \<lparr>st_repo = emptyMemoryUserRepository, st_hasher = h, st_sessions = ss, st_audit = a\<rparr>"
    using assms(2) by (simp add: auth_sim_def)
  from users_db.call_services_agrees [OF assms(1) this assms(5,4)] show ?thesis by (simp add: Let_def auth_sim_def)
qed

lemma plain_fake_hashes: "plain_hashes fake_hasher"
  using plain_hex_string by (auto simp: plain_hashes_def fake_hasher_def FakeHasher_hash_def Let_def hex_string_def plain_text_def)

definition sample_calls :: "service_call list" where
  "sample_calls = [CallRegister (\<lambda>_. 0) (\<lambda>_. 1) ''bob'' ''b@x'' ''password'' ''user'',
     CallRegister (\<lambda>_. 0) (\<lambda>_. 2) ''bob'' ''c@x'' ''password'' ''user'', CallLogin (\<lambda>_. 3) 1000 ''bob'' ''guess'']"

theorem services_on_sqlite_witness:
  "let L = ref_sqlite users_schema users_stmts;
       sql = call_services (wired (sqlite_users L) fake_hasher memory_sessions vector_audit) sample_calls
               \<lparr>st_repo = empty_db, st_hasher = \<lparr>known = [], ctr = 0\<rparr>, st_sessions = emptyMemorySessionStore, st_audit = \<lparr>vlog = []\<rparr>\<rparr>
   in fst sql = [UserAnswer (Inr (success (generateUserId (\<lambda>_. 1)))), UserAnswer (Inr (failure ''Registration failed'')),
        TokenAnswer (Inr (failure ''Login failed''))]"
proof -
  let ?t = "\<lparr>st_repo = emptyMemoryUserRepository, st_hasher = \<lparr>known = [], ctr = 0\<rparr>, st_sessions = emptyMemorySessionStore,
    st_audit = \<lparr>vlog = []\<rparr>\<rparr>"
  let ?mem = "call_services (wired memory_users fake_hasher memory_sessions vector_audit) sample_calls ?t"
  have "admissible_run sample_calls fake_hasher memory_sessions vector_audit ?t" by code_simp
  moreover have "plain_hashes fake_hasher" by (rule plain_fake_hashes)
  moreover have "fst ?mem = [UserAnswer (Inr (success (generateUserId (\<lambda>_. 1)))), UserAnswer (Inr (failure ''Registration failed'')),
      TokenAnswer (Inr (failure ''Login failed''))]" by code_simp
  ultimately show ?thesis
    using services_on_sqlite [OF refusers.users_db_axioms, of empty_db fake_hasher sample_calls memory_sessions vector_audit]
    by (simp add: Let_def empty_db_def)
qed

end
