(* ===== verification/Storage.thy ===== *)
theory Storage
  imports Prelude "HOL-Library.AList"
begin

text \<open>
  Blob storage: the port (\<^verbatim>\<open>include/ports/storage.hpp\<close>) with its laws, the map of
  \<^verbatim>\<open>memory_storage.hpp\<close>, and the crash-safe store of
  \<^verbatim>\<open>src/infrastructure/binary_storage.cpp\<close>. A file system is the list of its files, path
  and content; every call that can fail takes its outcome from an environment record. A
  staged write is modelled with all the file system states it goes through, so that a
  crash at any moment is one of them.
\<close>

section \<open>The port and the in-memory store\<close>

record 'd IStorage =
  writeBlob :: "string \<Rightarrow> bytes \<Rightarrow> ('d, unit) sx"
  readBlob :: "string \<Rightarrow> 'd \<Rightarrow> exn + bytes"
  stagedWrite :: "string \<Rightarrow> bytes \<Rightarrow> ('d, unit) sx"
  removeStaged :: "string \<Rightarrow> ('d, unit) sx"

type_synonym MemoryStorage = "(string \<times> bytes) list"

definition MemStore_write :: "string \<Rightarrow> bytes \<Rightarrow> (MemoryStorage, unit) sx" where
  "MemStore_write k v m = (Inr (), AList.update k v m)"

definition MemStore_read :: "string \<Rightarrow> MemoryStorage \<Rightarrow> exn + bytes" where
  "MemStore_read k m =
     (case map_of m k of None \<Rightarrow> Inl (NotFoundException ''missing blob'') | Some v \<Rightarrow> Inr v)"

definition MemStore_stagedWrite :: "string \<Rightarrow> bytes \<Rightarrow> (MemoryStorage, unit) sx" where
  "MemStore_stagedWrite k v m = (Inr (), AList.update k v m)"

definition MemStore_removeStaged :: "string \<Rightarrow> (MemoryStorage, unit) sx" where
  "MemStore_removeStaged k m = (Inr (), AList.delete (''tmp.'' @ k @ ''.part'') (AList.delete k m))"

definition memory_storage :: "MemoryStorage IStorage" where
  "memory_storage = \<lparr>writeBlob = MemStore_write, readBlob = MemStore_read,
     stagedWrite = MemStore_stagedWrite, removeStaged = MemStore_removeStaged\<rparr>"

section \<open>The store on disk\<close>

type_synonym filesystem = "(string \<times> bytes) list"

text \<open>
  The outcomes of the system calls of one operation: whether the temporary file opens; how
  many bytes have reached it when a write, flush or close fails (or the machine stops);
  whether those succeed; the error of \<open>fsync\<close> and of \<open>rename\<close>, if any; whether the stat and
  the removal of an existing target and the removal of the temporary file succeed; for \<open>read\<close>,
  whether the file opens, whether its end can be told, and how reading that many bytes ends:
  with all of them, at an end of file after some of them (the file has shrunk), or in an error.
\<close>

datatype reading = ReadAll | ReadEof nat | ReadFailed

record disk_env =
  d_open :: bool
  d_partial :: nat
  d_write :: bool
  d_flush :: bool
  d_close :: bool
  d_fsync :: "string option"
  d_stat :: bool
  d_rmdst :: bool
  d_rename :: "string option"
  d_rmtmp :: bool
  d_openread :: bool
  d_tell :: bool
  d_read :: reading

definition good_disk :: disk_env where
  "good_disk = \<lparr>d_open = True, d_partial = 0, d_write = True, d_flush = True, d_close = True, d_fsync = None,
     d_stat = True, d_rmdst = True, d_rename = None, d_rmtmp = True, d_openread = True, d_tell = True, d_read = ReadAll\<rparr>"

definition tmp_path :: "string \<Rightarrow> string \<Rightarrow> string" where
  "tmp_path root k = root @ ''/tmp.'' @ k @ ''.part''"

definition dst_path :: "string \<Rightarrow> string \<Rightarrow> string" where
  "dst_path root k = root @ ''/'' @ k"

definition rm_tmp :: "disk_env \<Rightarrow> string \<Rightarrow> filesystem \<Rightarrow> filesystem" where
  "rm_tmp env tmp f = (if d_rmtmp env then AList.delete tmp f else f)"

definition staged_run :: "disk_env \<Rightarrow> string \<Rightarrow> string \<Rightarrow> bytes \<Rightarrow> filesystem \<Rightarrow> (exn + unit) \<times> filesystem list" where
  "staged_run env root k data f0 =
     (if k = [] then (Inl (ValidationException ''storageId empty''), [f0])
      else if CHR 0x00 \<in> set k then (Inl (ValidationException ''storageId NUL''), [f0])
      else if contains k ''..'' then (Inl (ValidationException ''storageId traversal''), [f0])
      else let tmp = tmp_path root k;
               dst = dst_path root k;
               f1 = AList.update tmp [] f0;
               f2 = AList.update tmp (take (d_partial env) data) f0;
               f3 = AList.update tmp data f0
           in if \<not> d_open env
              then (Inl (StorageException (''open tmp failed: '' @ tmp)), [f0, rm_tmp env tmp f0])
              else if data \<noteq> [] \<and> \<not> d_write env
              then (Inl (StorageException (''write tmp failed: '' @ tmp)), [f0, f1, f2, rm_tmp env tmp f2])
              else if \<not> d_flush env
              then (Inl (StorageException (''flush tmp failed: '' @ tmp)), [f0, f1, f2, rm_tmp env tmp f2])
              else if \<not> d_close env
              then (Inl (StorageException (''close tmp failed: '' @ tmp)), [f0, f1, f2, rm_tmp env tmp f2])
              else case d_fsync env of
                     Some m \<Rightarrow> (Inl (StorageException m), [f0, f1, f2, f3, rm_tmp env tmp f3])
                   | None \<Rightarrow>
                       let f4 = (if d_stat env \<and> map_of f3 dst \<noteq> None \<and> d_rmdst env
                                 then AList.delete dst f3 else f3)
                       in case d_rename env of
                            Some m \<Rightarrow> (Inl (StorageException (''rename tmp->dst failed: '' @ m)),
                                       [f0, f1, f2, f3, f4, rm_tmp env tmp f4])
                          | None \<Rightarrow> (Inr (), [f0, f1, f2, f3, f4, AList.update dst data (AList.delete tmp f4)]))"

record BinaryFileStorage =
  root :: string
  disk :: filesystem

definition BinStore_stagedWrite :: "disk_env \<Rightarrow> string \<Rightarrow> bytes \<Rightarrow> (BinaryFileStorage, unit) sx" where
  "BinStore_stagedWrite env k data b =
     (case staged_run env (root b) k data (disk b) of (r, states) \<Rightarrow> (r, b\<lparr>disk := last states\<rparr>))"

definition BinStore_write :: "disk_env \<Rightarrow> string \<Rightarrow> bytes \<Rightarrow> (BinaryFileStorage, unit) sx" where
  "BinStore_write env k v = BinStore_stagedWrite env k v"

definition BinStore_read :: "disk_env \<Rightarrow> string \<Rightarrow> BinaryFileStorage \<Rightarrow> exn + bytes" where
  "BinStore_read env k b =
     (if k = [] then Inl (ValidationException ''storageId empty'')
      else let dst = dst_path (root b) k
           in case (if d_stat env then map_of (disk b) dst else None) of
                None \<Rightarrow> Inl (NotFoundException (''missing blob: '' @ k))
              | Some v \<Rightarrow>
                  if \<not> d_openread env then Inl (StorageException (''open read failed: '' @ dst))
                  else if \<not> d_tell env \<or> v = [] then Inr []
                  else (case d_read env of
                          ReadAll \<Rightarrow> Inr v
                        | ReadEof n \<Rightarrow> Inr (take n v)
                        | ReadFailed \<Rightarrow> Inl (StorageException (''read failed: '' @ dst))))"

definition BinStore_removeStaged :: "disk_env \<Rightarrow> string \<Rightarrow> (BinaryFileStorage, unit) sx" where
  "BinStore_removeStaged env k b =
     (if k = [] then (Inr (), b)
      else let f = rm_tmp env (tmp_path (root b) k) (disk b)
           in (Inr (), b\<lparr>disk := (if d_rmdst env then AList.delete (dst_path (root b) k) f else f)\<rparr>))"

definition binary_storage :: "disk_env \<Rightarrow> BinaryFileStorage IStorage" where
  "binary_storage env = \<lparr>writeBlob = BinStore_write env, readBlob = BinStore_read env,
     stagedWrite = BinStore_stagedWrite env, removeStaged = BinStore_removeStaged env\<rparr>"

text \<open>
  Whatever the calls answer, a read that returns has a prefix of the blob, all of it if the
  calls succeed. That it can be a proper one, the caller does not see.
\<close>

lemma BinStore_read_prefix:
  "BinStore_read env k b = Inr v \<Longrightarrow> \<exists>w. map_of (disk b) (dst_path (root b) k) = Some w \<and> prefix v w
     \<and> (d_tell env \<and> d_read env = ReadAll \<longrightarrow> v = w)"
  by (auto simp: BinStore_read_def Let_def take_is_prefix split: if_splits option.splits reading.splits)

text \<open>The entries of a directory, and the boot-time sweeper over them.\<close>

definition dir_entries :: "string \<Rightarrow> filesystem \<Rightarrow> string list" where
  "dir_entries dir f =
     filter (\<lambda>p. prefix (dir @ ''/'') p \<and> CHR ''/'' \<notin> set (drop (length dir + 1) p)) (map fst f)"

definition is_part :: "string \<Rightarrow> bool" where
  "is_part filename \<longleftrightarrow> \<not> length filename < 5 \<and> drop (length filename - 5) filename = ''.part''"

definition sweepOrphans :: "bool \<Rightarrow> (string \<Rightarrow> bool) \<Rightarrow> string \<Rightarrow> filesystem \<Rightarrow> nat \<times> filesystem" where
  "sweepOrphans rootExists rmOk dir f =
     (if \<not> rootExists then (0, f)
      else foldl (\<lambda>(n, g) p.
             if is_part (drop (length dir + 1) p) \<and> rmOk p then (n + 1, AList.delete p g) else (n, g))
           (0, f) (dir_entries dir f))"

section \<open>What the port promises\<close>

text \<open>Identifiers the stores accept and that no temporary file can be mistaken for.\<close>

definition storage_id :: "string \<Rightarrow> bool" where
  "storage_id k \<longleftrightarrow> k \<noteq> [] \<and> CHR 0x00 \<notin> set k \<and> \<not> contains k ''..'' \<and> \<not> suffix ''.part'' k"

locale blob_storage =
  fixes B :: "'d IStorage" and blobs :: "'d \<Rightarrow> string \<Rightarrow> bytes option"
  assumes staged: "storage_id k \<Longrightarrow> \<exists>d'. stagedWrite B k v d = (Inr (), d') \<and>
      (\<forall>j. storage_id j \<longrightarrow> blobs d' j = (if j = k then Some v else blobs d j))"
    and readBlob: "storage_id k \<Longrightarrow> blobs d k = Some v \<Longrightarrow> readBlob B k d = Inr v"
    and readBlob_missing: "storage_id k \<Longrightarrow> blobs d k = None \<Longrightarrow> \<exists>m. readBlob B k d = Inl (NotFoundException m)"
    and removeStaged: "storage_id k \<Longrightarrow> \<exists>d'. removeStaged B k d = (Inr (), d') \<and>
      (\<forall>j. storage_id j \<longrightarrow> blobs d' j = (if j = k then None else blobs d j))"
begin

lemma staged_read:
  assumes "storage_id k"
  shows "\<exists>d'. stagedWrite B k v d = (Inr (), d') \<and> readBlob B k d' = Inr v
     \<and> (\<forall>j. storage_id j \<and> j \<noteq> k \<longrightarrow> blobs d' j = blobs d j)"
  using staged [OF assms, of v d] readBlob [OF assms] assms by fastforce

lemma staged_removed:
  assumes "storage_id k" "blobs d k = None"
  shows "\<exists>d' d''. stagedWrite B k v d = (Inr (), d') \<and> removeStaged B k d' = (Inr (), d'')
     \<and> (\<forall>j. storage_id j \<longrightarrow> blobs d'' j = blobs d j)"
proof -
  obtain d' where d': "stagedWrite B k v d = (Inr (), d')"
    "\<forall>j. storage_id j \<longrightarrow> blobs d' j = (if j = k then Some v else blobs d j)" using staged [OF assms(1)] by blast
  obtain d'' where "removeStaged B k d' = (Inr (), d'')"
    "\<forall>j. storage_id j \<longrightarrow> blobs d'' j = (if j = k then None else blobs d' j)" using removeStaged [OF assms(1)] by blast
  with d' assms(2) show ?thesis by force
qed

end

lemma tmp_not_storage_id: "\<not> storage_id (''tmp.'' @ k @ ''.part'')"
  by (simp add: storage_id_def suffix_def)

interpretation memstore: blob_storage memory_storage map_of
  by unfold_locales
     (use tmp_not_storage_id in \<open>auto simp: memory_storage_def MemStore_stagedWrite_def MemStore_read_def
       MemStore_removeStaged_def update_conv' delete_conv'\<close>)

definition bin_blobs :: "BinaryFileStorage \<Rightarrow> string \<Rightarrow> bytes option" where
  "bin_blobs b k = map_of (disk b) (dst_path (root b) k)"

lemma path_simps [simp]:
  "dst_path r j = dst_path r k \<longleftrightarrow> j = k" "tmp_path r k \<noteq> dst_path r k" "dst_path r k \<noteq> tmp_path r k"
  by (auto simp: dst_path_def tmp_path_def dest: arg_cong [of _ _ length])

lemma storage_id_path: "storage_id j \<Longrightarrow> dst_path r j \<noteq> tmp_path r k \<and> tmp_path r k \<noteq> dst_path r j"
  using tmp_not_storage_id [of k] by (auto simp: dst_path_def tmp_path_def)

interpretation binstore: blob_storage "binary_storage good_disk" bin_blobs
proof (unfold_locales, goal_cases)
  case (1 k v d)
  then show ?case
    by (auto simp: binary_storage_def BinStore_stagedWrite_def staged_run_def good_disk_def Let_def storage_id_def [of k]
        bin_blobs_def update_conv' delete_conv' storage_id_path)
next
  case (2 k d v)
  then show ?case by (simp add: binary_storage_def BinStore_read_def good_disk_def bin_blobs_def storage_id_def)
next
  case (3 k d)
  then show ?case by (simp add: binary_storage_def BinStore_read_def good_disk_def bin_blobs_def storage_id_def)
next
  case (4 k d)
  then show ?case
    by (auto simp: binary_storage_def BinStore_removeStaged_def rm_tmp_def good_disk_def Let_def bin_blobs_def
        storage_id_def [of k] delete_conv' storage_id_path)
qed

section \<open>Lemmas on crashes and the sweeper\<close>

lemma staged_states:
  assumes "f \<in> set (snd (staged_run env dir k data f0))"
  shows "(\<forall>p. p \<noteq> tmp_path dir k \<and> p \<noteq> dst_path dir k \<longrightarrow> map_of f p = map_of f0 p)
     \<and> map_of f (dst_path dir k) \<in> {map_of f0 (dst_path dir k), None, Some data}"
  using assms
  by (auto simp: staged_run_def Let_def rm_tmp_def update_conv' delete_conv' split: if_splits option.splits)

lemma sweep_fold:
  "foldl (\<lambda>(n, g) p. if P p then (n + 1, AList.delete p g) else (n, g)) (n0, f) ps = (n, g) \<Longrightarrow>
   n = n0 + length (filter P ps) \<and> (\<forall>p. map_of g p = (if p \<in> set ps \<and> P p then None else map_of f p))"
proof (induction ps arbitrary: n0 f)
  case (Cons q qs)
  then show ?case by (cases "P q") (auto simp: delete_conv' dest!: Cons.IH)
qed simp

lemma sweep_effect:
  assumes "sweepOrphans True rmOk dir f = (n, g)"
  shows "n = length (filter (\<lambda>p. is_part (drop (length dir + 1) p) \<and> rmOk p) (dir_entries dir f))
     \<and> (\<forall>p. map_of g p = (if p \<in> set (dir_entries dir f) \<and> is_part (drop (length dir + 1) p) \<and> rmOk p
               then None else map_of f p))"
  using sweep_fold [of "\<lambda>p. is_part (drop (length dir + 1) p) \<and> rmOk p" 0 f "dir_entries dir f" n g] assms
  by (simp add: sweepOrphans_def)

lemma is_part_iff: "is_part s \<longleftrightarrow> suffix ''.part'' s"
proof
  assume "is_part s"
  then have "s = take (length s - 5) s @ ''.part''" unfolding is_part_def by (metis append_take_drop_id)
  then show "suffix ''.part'' s" unfolding suffix_def by blast
next
  assume "suffix ''.part'' s"
  then obtain t where "s = t @ ''.part''" by (auto simp: suffix_def)
  then show "is_part s" by (simp add: is_part_def)
qed

lemma tmp_entry:
  "CHR ''/'' \<notin> set k \<Longrightarrow> map_of f (tmp_path dir k) \<noteq> None \<Longrightarrow>
   tmp_path dir k \<in> set (dir_entries dir f) \<and> is_part (drop (length dir + 1) (tmp_path dir k))"
  by (auto simp: dir_entries_def tmp_path_def is_part_iff suffix_def map_of_eq_None_iff image_iff
      dest!: map_of_SomeD)

lemma dst_not_part: "storage_id j \<Longrightarrow> \<not> is_part (drop (length dir + 1) (dst_path dir j))"
  by (simp add: dst_path_def is_part_iff storage_id_def)

section \<open>Properties\<close>

text \<open>
  C30. Crash safety: let the machine stop at any moment of a staged write, with any failures
  of system calls, and let the boot sweeper run afterwards. Then no temporary file is left,
  the blob is what it was, missing, or complete (never partly written), and every other
  blob is untouched. In particular a blob that was not there before appears whole or not
  at all.
\<close>

theorem crash_recovery:
  assumes "f \<in> set (snd (staged_run env dir k data f0))" "storage_id k" "CHR ''/'' \<notin> set k"
    "sweepOrphans True (\<lambda>_. True) dir f = (n, g)"
  shows "map_of g (tmp_path dir k) = None
     \<and> map_of g (dst_path dir k) \<in> {map_of f0 (dst_path dir k), None, Some data}
     \<and> (\<forall>j. storage_id j \<and> j \<noteq> k \<longrightarrow> map_of g (dst_path dir j) = map_of f0 (dst_path dir j))"
proof -
  note sw = sweep_effect [OF assms(4), THEN conjunct2, rule_format]
  note st = staged_states [OF assms(1)]
  have "map_of g (tmp_path dir k) = None"
    using sw [of "tmp_path dir k"] tmp_entry [OF assms(3), of f dir] by (cases "map_of f (tmp_path dir k)") auto
  moreover have keep: "map_of g (dst_path dir j) = map_of f (dst_path dir j)" if "storage_id j" for j
    using sw [of "dst_path dir j"] dst_not_part [OF that] by simp
  moreover have "map_of f (dst_path dir j) = map_of f0 (dst_path dir j)" if "storage_id j" "j \<noteq> k" for j
    using st storage_id_path [OF that(1), of dir k] that(2) by simp
  ultimately show ?thesis using st assms(2) by simp
qed

theorem crash_recovery_witness:
  "let f = snd (staged_run good_disk ''/s'' ''a.bin'' [1, 2] [(''/s/b.bin'', [9])]) ! 3;
       g = snd (sweepOrphans True (\<lambda>_. True) ''/s'' f)
   in map_of f ''/s/tmp.a.bin.part'' = Some [1, 2] \<and> map_of g (tmp_path ''/s'' ''a.bin'') = None"
proof -
  let ?r = "staged_run good_disk ''/s'' ''a.bin'' [1, 2] [(''/s/b.bin'', [9])]"
  have id: "storage_id ''a.bin''" by (simp add: storage_id_def contains_def str_find_def suffix_def)
  have f: "?r = (Inr (), snd ?r)" "snd ?r ! 3 = [(''/s/b.bin'', [9]), (''/s/tmp.a.bin.part'', [1, 2])]" "length (snd ?r) = 6"
    by (simp_all add: staged_run_def good_disk_def tmp_path_def dst_path_def Let_def contains_def str_find_def)
  then have "snd ?r ! 3 \<in> set (snd ?r)" by (intro nth_mem) simp
  from crash_recovery [OF this id, of "fst (sweepOrphans True (\<lambda>_. True) ''/s'' (snd ?r ! 3))"
      "snd (sweepOrphans True (\<lambda>_. True) ''/s'' (snd ?r ! 3))"] f(2)
  show ?thesis by (simp add: Let_def)
qed

text \<open>
  C31. Outcome of a staged write under any failures of system calls: success means the blob
  is complete and the temporary file gone; failure means that, if the temporary file can be
  removed, none is left, and that the blob is as before, except that a failing rename after
  the removal of the old blob loses the old blob too.
\<close>

theorem staged_write_outcome:
  assumes "BinStore_stagedWrite env k data b = (r, b')" "map_of (disk b) (tmp_path (root b) k) = None"
  shows "root b' = root b \<and>
    (case r of
       Inr _ \<Rightarrow> bin_blobs b' k = Some data \<and> map_of (disk b') (tmp_path (root b) k) = None
     | Inl e \<Rightarrow> (d_rmtmp env \<longrightarrow> map_of (disk b') (tmp_path (root b) k) = None)
         \<and> (bin_blobs b' k = bin_blobs b k
            \<or> bin_blobs b' k = None \<and> bin_blobs b k \<noteq> None \<and> d_rmdst env
              \<and> (\<exists>m. d_rename env = Some m \<and> e = StorageException (''rename tmp->dst failed: '' @ m))))"
  using assms
  by (auto simp: BinStore_stagedWrite_def staged_run_def Let_def rm_tmp_def bin_blobs_def update_conv' delete_conv'
      split: if_splits option.splits)

theorem staged_write_outcome_witness:
  "\<exists>e b'. BinStore_stagedWrite (good_disk\<lparr>d_rename := Some ''busy''\<rparr>) ''a.bin'' [1]
       \<lparr>root = ''/s'', disk = [(''/s/a.bin'', [7])]\<rparr> = (Inl e, b')
     \<and> bin_blobs b' ''a.bin'' = None"
proof -
  let ?b = "\<lparr>root = ''/s'', disk = [(''/s/a.bin'', [7])]\<rparr>"
  let ?env = "good_disk\<lparr>d_rename := Some ''busy''\<rparr>"
  have run: "BinStore_stagedWrite ?env ''a.bin'' [1] ?b
      = (Inl (StorageException ''rename tmp->dst failed: busy''), ?b\<lparr>disk := []\<rparr>)"
    by (simp add: BinStore_stagedWrite_def staged_run_def good_disk_def tmp_path_def dst_path_def Let_def contains_def
        str_find_def rm_tmp_def)
  have "map_of (disk ?b) (tmp_path (root ?b) ''a.bin'') = None" by (simp add: tmp_path_def)
  from staged_write_outcome [OF run this] run show ?thesis by (auto simp: bin_blobs_def)
qed

text \<open>
  The boot sweeper deletes exactly the regular files of the storage directory whose
  names end in \<open>.part\<close> and that can be removed, counts them, and touches nothing else.
\<close>

theorem sweep_exact:
  "\<exists>n g. sweepOrphans True rmOk dir f = (n, g)
     \<and> n = length (filter (\<lambda>p. suffix ''.part'' (drop (length dir + 1) p) \<and> rmOk p) (dir_entries dir f))
     \<and> (\<forall>p. map_of g p = (if p \<in> set (dir_entries dir f) \<and> suffix ''.part'' (drop (length dir + 1) p) \<and> rmOk p
               then None else map_of f p))"
  using sweep_effect [of rmOk dir f] by (cases "sweepOrphans True rmOk dir f") (auto simp: is_part_iff)

end
