(* ===== verification/TransferService.thy ===== *)
theory TransferService
  imports AuthService FileRepo Storage Validator
begin

text \<open>
  The transfer service (\<^verbatim>\<open>src/application/transfer_service.cpp\<close>): upload, download and
  listing over nine collaborators, each of which may be a null pointer (\<^const>\<open>None\<close>). The
  two clock readings and the three identifiers an upload draws are its arguments. The
  service relays opaque bytes: it never sees a key or plaintext.
\<close>

section \<open>The service\<close>

record ('d, 'k, 'f, 't, 'a, 's, 'r) TransferPorts =
  t_storage :: "'d IStorage option"
  t_keys :: "'k IKeyDirectory option"
  t_files :: "'f IFileRepository option"
  t_transfers :: "'t ITransferRepository option"
  t_audit :: "'a IAuditLogger option"
  t_validator :: "(string \<Rightarrow> u64 \<Rightarrow> bytes \<Rightarrow> exn + unit) option"
  t_clock :: bool
  t_sessions :: "'s ISessionStore option"
  t_users :: "'r IUserRepository option"

text \<open>The stores behind the ports, and the files of the working directory.\<close>

record ('d, 'k, 'f, 't, 'a, 's, 'r) TransferState =
  ts_storage :: 'd
  ts_keys :: 'k
  ts_files :: 'f
  ts_transfers :: 't
  ts_audit :: 'a
  ts_sessions :: 's
  ts_users :: 'r
  ts_cwd :: "(string \<times> bytes) list"

text \<open>\<open>if (au_) au_->record(...)\<close>.\<close>

definition audited ::
  "('d, 'k, 'f, 't, 'a, 's, 'r) TransferPorts \<Rightarrow> AuditEvent \<Rightarrow> (('d, 'k, 'f, 't, 'a, 's, 'r) TransferState, unit) sx" where
  "audited P e =
     (case t_audit P of
        None \<Rightarrow> retS ()
      | Some A \<Rightarrow> zoomS ts_audit (\<lambda>x s. s\<lparr>ts_audit := x\<rparr>) (record_event A e))"

text \<open>The session check both operations start with: the caller's identifier, or an audited refusal.\<close>

definition session_user ::
  "('d, 'k, 'f, 't, 'a, 's, 'r) TransferPorts \<Rightarrow> int \<Rightarrow> SessionId \<Rightarrow> string
   \<Rightarrow> (('d, 'k, 'f, 't, 'a, 's, 'r) TransferState, UserId) sx" where
  "session_user P now tok file s =
     (case t_sessions P of
        Some S \<Rightarrow>
          if t_clock P \<and> isValid S tok now (ts_sessions s)
          then (userFor S tok (ts_sessions s), s)
          else bindS (audited P (event (sid tok) ''DENIED'' file)) (\<lambda>_. throwS (AuthException ''Login failed'')) s
      | None \<Rightarrow> bindS (audited P (event (sid tok) ''DENIED'' file)) (\<lambda>_. throwS (AuthException ''Login failed'')) s)"

text \<open>The header handed to the validator: a synthetic one for ciphertext under a \<open>.pdf\<close> name.\<close>

definition fake_header :: bytes where
  "fake_header = [0x25, 0x50, 0x44, 0x46, 0x2D, 0x31, 0x2E, 0x34]"

definition validator_header :: "string \<Rightarrow> bytes \<Rightarrow> bytes" where
  "validator_header name opaque =
     (let hdr = (if length opaque > 8 then take 8 opaque else opaque);
          endsPdf = (length name \<ge> 4 \<and> drop (length name - 4) name = ''.pdf'')
      in if endsPdf \<and> \<not> pdf_magic hdr then fake_header else hdr)"

definition onStorage :: "('d, 'x) sx \<Rightarrow> (('d, 'k, 'f, 't, 'a, 's, 'r) TransferState, 'x) sx" where
  "onStorage m = zoomS ts_storage (\<lambda>x s. s\<lparr>ts_storage := x\<rparr>) m"

definition onFiles :: "('f, 'x) sx \<Rightarrow> (('d, 'k, 'f, 't, 'a, 's, 'r) TransferState, 'x) sx" where
  "onFiles m = zoomS ts_files (\<lambda>x s. s\<lparr>ts_files := x\<rparr>) m"

definition onTransfers :: "('t, 'x) sx \<Rightarrow> (('d, 'k, 'f, 't, 'a, 's, 'r) TransferState, 'x) sx" where
  "onTransfers m = zoomS ts_transfers (\<lambda>x s. s\<lparr>ts_transfers := x\<rparr>) m"

text \<open>Undo a staged blob after the record could not be saved, then rethrow.\<close>

definition rollback ::
  "'d IStorage \<Rightarrow> string \<Rightarrow> exn \<Rightarrow> (('d, 'k, 'f, 't, 'a, 's, 'r) TransferState, unit) sx" where
  "rollback B k e =
     bindS (catchS (onStorage (removeStaged B k)) (\<lambda>_. retS ())) (\<lambda>_ s.
     (Inl e, s\<lparr>ts_cwd := AList.delete k (ts_cwd s)\<rparr>))"

text \<open>Lines 66 to 109 of \<open>upload\<close>: stage the blob, save the record, note the transfer, audit.\<close>

definition upload_store ::
  "('d, 'k, 'f, 't, 'a, 's, 'r) TransferPorts \<Rightarrow> FileRecord \<Rightarrow> bytes \<Rightarrow> Transfer
   \<Rightarrow> (('d, 'k, 'f, 't, 'a, 's, 'r) TransferState, Transfer Result) sx" where
  "upload_store P fr opaque t =
     (case t_storage P of
        None \<Rightarrow> throwS (StorageException ''storage missing'')
      | Some B \<Rightarrow>
          bindS (onStorage (stagedWrite B (storageId fr) opaque)) (\<lambda>_.
          bindS (catchS (case t_files P of
                           None \<Rightarrow> throwS (StorageException ''file repo missing'')
                         | Some F \<Rightarrow> onFiles (saveFile F fr))
                        (rollback B (storageId fr))) (\<lambda>_.
          bindS (case t_transfers P of
                   None \<Rightarrow> retS ()
                 | Some T \<Rightarrow> catchS (onTransfers (saveTransfer T t)) (\<lambda>_. retS ())) (\<lambda>_.
          bindS (audited P (event (uid (owner fr)) ''UPLOAD'' (fid (file_id fr)))) (\<lambda>_.
          retS (success t))))))"

definition new_record ::
  "random_device \<Rightarrow> random_device \<Rightarrow> int \<Rightarrow> UserId \<Rightarrow> UserId \<Rightarrow> string \<Rightarrow> string \<Rightarrow> u64 \<Rightarrow> Digest \<Rightarrow> WrappedKey \<Rightarrow> FileRecord" where
  "new_record rdFile rdBlob now2 senderId recipId name upId sz dig wk =
     \<lparr>file_id = FileId (uid (generateUserId rdFile)), owner = senderId, origName = name,
      storageId = uid (generateUserId rdBlob) @ ''.bin'', fsize = sz, digest = dig, wrapped = wk,
      recipient = recipId, uploadId = upId, fcreatedAt = now2\<rparr>"

definition new_transfer :: "random_device \<Rightarrow> FileRecord \<Rightarrow> Transfer" where
  "new_transfer rdTransfer fr =
     \<lparr>transfer_id = TransferId (uid (generateUserId rdTransfer)), tfile = file_id fr, sender = owner fr,
      trecipient = recipient fr, tstatus = UPLOADED\<rparr>"

definition upload ::
  "('d, 'k, 'f, 't, 'a, 's, 'r) TransferPorts \<Rightarrow> int \<Rightarrow> int \<Rightarrow> random_device \<Rightarrow> random_device \<Rightarrow> random_device
   \<Rightarrow> SessionId \<Rightarrow> string \<Rightarrow> string \<Rightarrow> bytes \<Rightarrow> string \<Rightarrow> u64 \<Rightarrow> Digest \<Rightarrow> WrappedKey
   \<Rightarrow> (('d, 'k, 'f, 't, 'a, 's, 'r) TransferState, Transfer Result) sx" where
  "upload P now now2 rdFile rdBlob rdTransfer senderSess recipientName name opaque upId sz dig wk =
     bindS (session_user P now senderSess '''') (\<lambda>senderId.
     case t_users P of
       None \<Rightarrow> throwS (ValidationException ''user repo missing'')
     | Some U \<Rightarrow>
     bindS (getS (\<lambda>s. findByUsername U recipientName (ts_users s))) (\<lambda>recip.
     case got recip of
       None \<Rightarrow> throwS (NotFoundException ''recipient not found'')
     | Some ru \<Rightarrow>
     bindS (getS (\<lambda>s. case t_keys P of
                        None \<Rightarrow> Inr False
                      | Some KD \<Rightarrow> keyExists KD (user_id ru) (ts_keys s))) (\<lambda>hasKey.
     if \<not> hasKey then throwS (ValidationException ''recipient pubkey missing'')
     else
     bindS (getS (\<lambda>_. case t_validator P of
                        None \<Rightarrow> Inr ()
                      | Some v \<Rightarrow> v name sz (validator_header name opaque))) (\<lambda>_.
     if upId = [] then throwS (ValidationException ''uploadId empty'')
     else
     bindS (getS (\<lambda>s. case t_files P of None \<Rightarrow> Inr False | Some F \<Rightarrow> existsUploadId F upId (ts_files s))) (\<lambda>dup.
     if dup then retS (failure ''duplicate upload_id'')
     else
     let fr = new_record rdFile rdBlob (if t_clock P then now2 else 0) senderId (user_id ru) name upId sz dig wk
     in upload_store P fr opaque (new_transfer rdTransfer fr))))))"

definition download ::
  "('d, 'k, 'f, 't, 'a, 's, 'r) TransferPorts \<Rightarrow> int \<Rightarrow> SessionId \<Rightarrow> FileId
   \<Rightarrow> (('d, 'k, 'f, 't, 'a, 's, 'r) TransferState, bytes Result) sx" where
  "download P now requestSess f =
     bindS (session_user P now requestSess (fid f)) (\<lambda>requestor.
     case t_files P of
       None \<Rightarrow> retS (failure ''no repo'')
     | Some F \<Rightarrow>
     bindS (getS (\<lambda>s. findFile F f (ts_files s))) (\<lambda>res.
     case got res of
       None \<Rightarrow> retS (failure ''not found'')
     | Some fr \<Rightarrow>
         if \<not> (owner fr = requestor \<or> recipient fr = requestor)
         then bindS (audited P (event (uid requestor) ''DENIED'' (fid f))) (\<lambda>_. retS (failure ''denied''))
         else (\<lambda>s. case (case t_storage P of
                           None \<Rightarrow> Inl (StorageException ''storage missing'')
                         | Some B \<Rightarrow> readBlob B (storageId fr) (ts_storage s)) of
                      Inl e \<Rightarrow> (Inr (failure (what e)), s)
                    | Inr opaque \<Rightarrow>
                        bindS (audited P (event (uid requestor) ''DOWNLOAD'' (fid f))) (\<lambda>_. retS (success opaque)) s)))"

definition listFor ::
  "('d, 'k, 'f, 't, 'a, 's, 'r) TransferPorts \<Rightarrow> UserId \<Rightarrow> ('d, 'k, 'f, 't, 'a, 's, 'r) TransferState \<Rightarrow> exn + Transfer list" where
  "listFor P u s = (case t_transfers P of None \<Rightarrow> Inr [] | Some T \<Rightarrow> listTransfers T u (ts_transfers s))"

section \<open>The service over the laws of its ports\<close>

lemma audited_keeps_state:
  obtains a r where "audited P e s = (r, s\<lparr>ts_audit := a\<rparr>)"
proof (cases "t_audit P")
  case None
  then show thesis using that [of "Inr ()" "ts_audit s"] by (simp add: audited_def retS_def)
next
  case (Some A)
  obtain r a where "record_event A e (ts_audit s) = (r, a)" by (cases "record_event A e (ts_audit s)")
  then show thesis using that [of r a] Some by (simp add: audited_def zoomS_def)
qed

text \<open>A download changes nothing but the audit log, whatever it returns or throws.\<close>

definition only_audits ::
  "('d, 'k, 'f, 't, 'a, 's, 'r) TransferState \<Rightarrow> ('d, 'k, 'f, 't, 'a, 's, 'r) TransferState \<Rightarrow> bool" where
  "only_audits s s' \<longleftrightarrow> (\<exists>a. s' = s\<lparr>ts_audit := a\<rparr>)"

lemma only_audits_refl [simp]: "only_audits s s"
  unfolding only_audits_def by (metis TransferState.surjective TransferState.update_convs(5))

lemma only_audits_rel: "reflp only_audits" "transp only_audits"
  by (auto simp: reflp_def transp_def only_audits_def [of _ s' for s'])

lemma preserves_only_audits:
  "preserves only_audits (audited P e)" "preserves only_audits (session_user P now tok x)" "preserves only_audits (getS g)"
  "preserves only_audits (retS y)" "preserves only_audits (throwS z)"
proof -
  note rt = only_audits_rel
  show au: "preserves only_audits (audited P e)" for e
    unfolding preserves_def only_audits_def using audited_keeps_state [of P e] by (metis snd_conv)
  show "preserves only_audits (getS g)" "preserves only_audits (retS y)" by (rule preserves_getS preserves_retS; rule rt)+
  show th: "preserves only_audits (throwS z)" for z by (simp add: preserves_def throwS_def)
  have "preserves only_audits (bindS (audited P e) (\<lambda>_. throwS z))" for e z
    by (rule preserves_bindS [OF rt(2) au th])
  then show "preserves only_audits (session_user P now tok x)"
    by (auto simp: preserves_def session_user_def split: option.split)
qed

lemma audited_return_only: "preserves only_audits (bindS (audited P e) (\<lambda>_. retS y))"
  by (rule preserves_bindS [OF only_audits_rel(2) preserves_only_audits(1,4)])

lemma download_only_audits: "preserves only_audits (download P now tok f)"
proof -
  have at: "only_audits c (snd (bindS (audited P e) (\<lambda>_. retS y) c))" for c e and y :: "bytes Result"
    using audited_return_only [of P e y] by (simp add: preserves_def)
  have "preserves only_audits (\<lambda>s. case (case t_storage P of
           None \<Rightarrow> Inl (StorageException ''storage missing'')
         | Some B \<Rightarrow> readBlob B k (ts_storage s)) of
      Inl e \<Rightarrow> (Inr (failure (what e)), s)
    | Inr opaque \<Rightarrow> bindS (audited P ev) (\<lambda>_. retS (success opaque)) s)" for k ev
    by (auto simp: preserves_def at split: sum.split option.split)
  then show ?thesis
    unfolding download_def
    by (intro preserves_bindS [OF only_audits_rel(2)] preserves_only_audits)
       (auto split: option.split intro!: preserves_bindS [OF only_audits_rel(2)] preserves_only_audits)
qed

text \<open>An upload leaves the users and the sessions alone, whatever it returns or throws.\<close>

definition same_accounts ::
  "('d, 'k, 'f, 't, 'a, 's, 'r) TransferState \<Rightarrow> ('d, 'k, 'f, 't, 'a, 's, 'r) TransferState \<Rightarrow> bool" where
  "same_accounts s s' \<longleftrightarrow> ts_users s' = ts_users s \<and> ts_sessions s' = ts_sessions s"

lemma same_accounts_rel: "reflp same_accounts" "transp same_accounts"
  by (auto simp: reflp_def transp_def same_accounts_def)

lemma preserves_same_accounts:
  "preserves same_accounts (onStorage m)" "preserves same_accounts (onFiles n)" "preserves same_accounts (onTransfers k)"
  "preserves same_accounts (getS g)" "preserves same_accounts (retS y)" "preserves same_accounts (throwS z)"
  "preserves same_accounts (\<lambda>s. (Inl e, s\<lparr>ts_cwd := f s\<rparr>))"
  by (auto simp: preserves_def same_accounts_def onStorage_def onFiles_def onTransfers_def zoomS_def getS_def retS_def throwS_def
      split: prod.split)

lemma only_audits_accounts: "preserves only_audits m \<Longrightarrow> preserves same_accounts m"
  unfolding preserves_def
proof (intro allI)
  fix c
  assume "\<forall>c. only_audits c (snd (m c))"
  then obtain a where "snd (m c) = c\<lparr>ts_audit := a\<rparr>" by (auto simp: only_audits_def)
  then show "same_accounts c (snd (m c))" by (simp add: same_accounts_def)
qed

lemmas same_accounts_rules = preserves_bindS [OF same_accounts_rel(2)] preserves_catchS [OF same_accounts_rel(2)] preserves_same_accounts
  only_audits_accounts [OF preserves_only_audits(1)] only_audits_accounts [OF preserves_only_audits(2)]

lemma upload_same_accounts:
  "preserves same_accounts (upload P at1 at2 rdFile rdBlob rdTransfer tok recip name opaque upId sz dig wk)"
  unfolding upload_def upload_store_def rollback_def Let_def
  by (auto intro!: same_accounts_rules split: option.split)

lemma audited_storage:
  obtains a r where "\<forall>d. audited P e (s\<lparr>ts_storage := d\<rparr>) = (r, s\<lparr>ts_storage := d, ts_audit := a\<rparr>)"
proof (cases "t_audit P")
  case None
  then show thesis using that [of "Inr ()" "ts_audit s"] by (simp add: audited_def retS_def)
next
  case (Some A)
  obtain r a where "record_event A e (ts_audit s) = (r, a)" by (cases "record_event A e (ts_audit s)")
  then show thesis using that [of r a] Some by (simp add: audited_def zoomS_def)
qed

lemma file_uuid_id: "storage_id (uid (generateUserId rd) @ ''.bin'')"
proof -
  let ?h = "randomHex rd 16"
  have nodot: "CHR ''.'' \<notin> set (uid (generateUserId rd))" and nonul: "CHR 0x00 \<notin> set (uid (generateUserId rd))"
  proof -
    have "c \<noteq> CHR ''.'' \<and> c \<noteq> CHR 0x00" if "c \<in> set ?h" for c
    proof -
      obtain n where "n < 16" "c = hex_digit n"
        using set_hex_string [of c "map (rd_byte rd) [0..<16]"] \<open>c \<in> set ?h\<close> unfolding randomHex_eq_hex_string by blast
      then have "hex_val c = Some n" by (simp add: hex_val_digit)
      then show ?thesis by (auto simp: hex_val_def)
    qed
    then show "CHR ''.'' \<notin> set (uid (generateUserId rd))" "CHR 0x00 \<notin> set (uid (generateUserId rd))"
      by (auto simp: generateUserId_def Let_def dest!: in_set_takeD in_set_dropD)
  qed
  have "\<not> contains (uid (generateUserId rd) @ ''.bin'') ''..''"
  proof
    assume "contains (uid (generateUserId rd) @ ''.bin'') ''..''"
    then obtain u v where uv: "uid (generateUserId rd) @ ''.bin'' = u @ ''..'' @ v" by (auto simp: contains_iff)
    have "length (filter ((=) (CHR ''.'')) (uid (generateUserId rd) @ ''.bin'')) = 1"
      using nodot by (simp add: filter_empty_conv) (metis filter_False)
    moreover have "length (filter ((=) (CHR ''.'')) (u @ ''..'' @ v)) \<ge> 2" by simp
    ultimately show False using uv by simp
  qed
  then show ?thesis using nonul by (simp add: storage_id_def suffix_def append_eq_append_conv2)
qed

locale transfer_core =
  blob_storage B blobs + key_directory KD keys + file_repository F finv files
  + session_store S sess + user_repository U inv users hashes
  for B :: "'d IStorage" and blobs and KD :: "'k IKeyDirectory" and keys and F :: "'f IFileRepository" and finv files
    and S :: "'s ISessionStore" and sess and U :: "'r IUserRepository" and inv users hashes +
  fixes P :: "('d, 'k, 'f, 't, 'a, 's, 'r) TransferPorts"
  assumes wired: "t_storage P = Some B" "t_keys P = Some KD" "t_files P = Some F" "t_sessions P = Some S"
    "t_users P = Some U" "t_clock P" "t_validator P = Some validate"
begin

text \<open>Whoever may read a file: the user of a valid session that is its owner or recipient.\<close>

lemma session_user_ok:
  "sess (ts_sessions s) tok = Some x \<Longrightarrow> session_isValid x now \<Longrightarrow> session_user P now tok f s = (Inr (userId x), s)"
  by (simp add: session_user_def wired isValid userFor)

lemma session_user_bad:
  assumes "\<not> isValid S tok now (ts_sessions s)"
  shows "\<exists>a e. session_user P now tok f s = (Inl e, s\<lparr>ts_audit := a\<rparr>)"
proof -
  obtain a r where "audited P (event (sid tok) ''DENIED'' f) s = (r, s\<lparr>ts_audit := a\<rparr>)" by (rule audited_keeps_state)
  then show ?thesis using assms by (cases r) (auto simp: session_user_def wired sx_eqs)
qed

lemma upload_store_saved:
  assumes "finv (ts_files s)" "insertable fr (files (ts_files s))" "storage_id (storageId fr)"
  shows "\<exists>d m r s'. upload_store P fr opaque t s = (r, s') \<and> (r = Inr (success t) \<or> (\<exists>e. r = Inl e))
     \<and> ts_storage s' = d \<and> ts_files s' = m \<and> finv m \<and> files m = (files (ts_files s))(fid (file_id fr) \<mapsto> fr)
     \<and> (\<forall>j. storage_id j \<longrightarrow> blobs d j = (if j = storageId fr then Some opaque else blobs (ts_storage s) j))
     \<and> ts_sessions s' = ts_sessions s \<and> ts_users s' = ts_users s \<and> ts_keys s' = ts_keys s
     \<and> ((\<forall>e s. fst (audited P e s) = Inr ()) \<longrightarrow> r = Inr (success t))"
proof -
  obtain d where d: "stagedWrite B (storageId fr) opaque (ts_storage s) = (Inr (), d)"
    "\<forall>j. storage_id j \<longrightarrow> blobs d j = (if j = storageId fr then Some opaque else blobs (ts_storage s) j)"
    using staged [OF assms(3)] by blast
  obtain m where m: "saveFile F fr (ts_files s) = (Inr (), m)" "finv m" "files m = (files (ts_files s))(fid (file_id fr) \<mapsto> fr)"
    using save_new [OF assms(1,2)] by blast
  let ?s1 = "s\<lparr>ts_storage := d, ts_files := m\<rparr>"
  obtain tr where tr: "(case t_transfers P of None \<Rightarrow> retS ()
      | Some T \<Rightarrow> catchS (onTransfers (saveTransfer T t)) (\<lambda>_. retS ())) ?s1 = (Inr (), ?s1\<lparr>ts_transfers := tr\<rparr>)"
  proof (cases "t_transfers P")
    case None
    then show thesis using that [of "ts_transfers s"] by (simp add: retS_def)
  next
    case (Some T)
    obtain x y where "saveTransfer T t (ts_transfers s) = (x, y)" by (cases "saveTransfer T t (ts_transfers s)")
    then show thesis using that [of y] Some by (cases x) (simp_all add: sx_eqs onTransfers_def)
  qed
  let ?s2 = "?s1\<lparr>ts_transfers := tr\<rparr>" and ?e = "event (uid (owner fr)) ''UPLOAD'' (fid (file_id fr))"
  obtain a q where a: "audited P ?e ?s2 = (q, ?s2\<lparr>ts_audit := a\<rparr>)" by (rule audited_keeps_state)
  have none: "\<forall>e s. fst (audited P e s) = Inr () \<Longrightarrow> q = Inr ()" using a by (metis fst_conv)
  have run: "upload_store P fr opaque t s = bindS (audited P ?e) (\<lambda>_. retS (success t)) ?s2"
    using d(1) m(1) tr by (simp add: upload_store_def wired bindS_def catchS_def onStorage_def onFiles_def zoomS_def)
  show ?thesis
  proof (cases q)
    case (Inl e)
    then show ?thesis using run a d m none by (auto simp: bindS_def)
  next
    case (Inr u)
    then show ?thesis using run a d m by (auto simp: bindS_def retS_def)
  qed
qed

lemma upload_store_rolled_back:
  assumes "finv (ts_files s)" "\<not> insertable fr (files (ts_files s))" "storage_id (storageId fr)"
    "blobs (ts_storage s) (storageId fr) = None"
  shows "\<exists>m s'. upload_store P fr opaque t s = (Inl (ValidationException m), s') \<and> ts_files s' = ts_files s
     \<and> (\<forall>j. storage_id j \<longrightarrow> blobs (ts_storage s') j = blobs (ts_storage s) j)
     \<and> ts_transfers s' = ts_transfers s \<and> ts_audit s' = ts_audit s"
proof -
  obtain d d' where d: "stagedWrite B (storageId fr) opaque (ts_storage s) = (Inr (), d)"
    "removeStaged B (storageId fr) d = (Inr (), d')" "\<forall>j. storage_id j \<longrightarrow> blobs d' j = blobs (ts_storage s) j"
    using staged_removed [OF assms(3,4)] by blast
  obtain m where m: "saveFile F fr (ts_files s) = (Inl (ValidationException m), ts_files s)"
    using save_bad [OF assms(1,2)] by blast
  show ?thesis
    using d m by (simp add: upload_store_def wired bindS_def catchS_def onStorage_def onFiles_def zoomS_def rollback_def retS_def)
qed

end

context transfer_core begin

text \<open>What an upload needs to reach the storing of its record \<open>fr\<close>.\<close>

lemma upload_admitted:
  assumes "inv (ts_users s)" "finv (ts_files s)" "sess (ts_sessions s) tok = Some x" "session_isValid x now"
    "findByUsername U recipientName (ts_users s) = Inr (success ru)" "uid (user_id ru) \<noteq> []" "keys (ts_keys s) (uid (user_id ru)) \<noteq> None"
    "validate name sz (validator_header name opaque) = Inr ()" "upId \<noteq> []" "upId \<notin> uploadId ` ran (files (ts_files s))"
  shows "upload P now now2 rdF rdB rdT tok recipientName name opaque upId sz dig wk s
    = (let fr = new_record rdF rdB now2 (userId x) (user_id ru) name upId sz dig wk
       in upload_store P fr opaque (new_transfer rdT fr) s)"
  using assms session_user_ok [OF assms(3,4)] keyExists [of "user_id ru" "ts_keys s"] existsUploadId [OF assms(2), of upId]
  by (simp add: upload_def wired bindS_def getS_def Let_def)

lemma upload_succeeds:
  assumes "inv (ts_users s)" "finv (ts_files s)" "sess (ts_sessions s) tok = Some x" "session_isValid x now"
    "findByUsername U recipientName (ts_users s) = Inr (success ru)" "uid (user_id ru) \<noteq> []" "keys (ts_keys s) (uid (user_id ru)) \<noteq> None"
    "validate name sz (validator_header name opaque) = Inr ()" "upId \<noteq> []" "upId \<notin> uploadId ` ran (files (ts_files s))"
    and fr: "fr = new_record rdF rdB now2 (userId x) (user_id ru) name upId sz dig wk"
    and ins: "insertable fr (files (ts_files s))" and audit: "\<forall>e s. fst (audited P e s) = Inr ()"
  shows "\<exists>s'. upload P now now2 rdF rdB rdT tok recipientName name opaque upId sz dig wk s = (Inr (success (new_transfer rdT fr)), s')
    \<and> finv (ts_files s') \<and> files (ts_files s') = (files (ts_files s))(fid (file_id fr) \<mapsto> fr)
    \<and> blobs (ts_storage s') (storageId fr) = Some opaque \<and> storage_id (storageId fr)"
proof -
  have id: "storage_id (storageId fr)" using fr file_uuid_id by (simp add: new_record_def)
  show ?thesis
    using upload_admitted [OF assms(1-10), of now2 rdF rdB rdT dig wk] upload_store_saved [OF assms(2) ins id, of opaque "new_transfer rdT fr"]
      fr id audit by (auto simp: Let_def)
qed

lemma upload_refused_or_admitted:
  assumes "inv (ts_users s)" "finv (ts_files s)"
  shows "(\<exists>r a. upload P now now2 rdF rdB rdT tok recipientName name opaque upId sz dig wk s = (r, s\<lparr>ts_audit := a\<rparr>)
            \<and> (\<nexists>t. r = Inr (success t)))
     \<or> (\<exists>x ru. sess (ts_sessions s) tok = Some x \<and> session_isValid x now
         \<and> findByUsername U recipientName (ts_users s) = Inr (success ru)
         \<and> uid (user_id ru) \<noteq> [] \<and> keys (ts_keys s) (uid (user_id ru)) \<noteq> None
         \<and> validate name sz (validator_header name opaque) = Inr () \<and> upId \<noteq> []
         \<and> upId \<notin> uploadId ` ran (files (ts_files s)))"
proof (cases "isValid S tok now (ts_sessions s)")
  case False
  then obtain a e where "session_user P now tok '''' s = (Inl e, s\<lparr>ts_audit := a\<rparr>)" using session_user_bad by blast
  then have "upload P now now2 rdF rdB rdT tok recipientName name opaque upId sz dig wk s = (Inl e, s\<lparr>ts_audit := a\<rparr>)"
    by (simp add: upload_def bindS_def)
  then show ?thesis by (intro disjI1 exI) auto
next
  case True
  then obtain x where x: "sess (ts_sessions s) tok = Some x" "session_isValid x now" by (auto simp: isValid_iff)
  have noop: ?thesis if "\<exists>r. upload P now now2 rdF rdB rdT tok recipientName name opaque upId sz dig wk s = (r, s) \<and> (\<nexists>t. r = Inr (success t))"
  proof -
    from that obtain r where "upload P now now2 rdF rdB rdT tok recipientName name opaque upId sz dig wk s = (r, s)" "\<nexists>t. r = Inr (success t)" by blast
    then show ?thesis by (intro disjI1 exI [of _ r] exI [of _ "ts_audit s"]) simp
  qed
  note run = session_user_ok [OF x] upload_def wired bindS_def getS_def throwS_def retS_def
  show ?thesis using assms(1)
  proof (cases rule: findByUsername_cases [where n = recipientName])
    case miss
    then show ?thesis using noop by (simp add: run)
  next
    case (hit ru)
    show ?thesis
    proof (cases "uid (user_id ru) \<noteq> [] \<and> keys (ts_keys s) (uid (user_id ru)) \<noteq> None")
      case False
      then show ?thesis using noop hit keyExists [of "user_id ru" "ts_keys s"] by (simp add: run)
    next
      case k: True
      show ?thesis
      proof (cases "validate name sz (validator_header name opaque) = Inr () \<and> upId \<noteq> []")
        case False
        then show ?thesis using noop hit k keyExists [of "user_id ru" "ts_keys s"]
          by (cases "validate name sz (validator_header name opaque)") (simp_all add: run)
      next
        case v: True
        show ?thesis
        proof (cases "upId \<in> uploadId ` ran (files (ts_files s))")
          case True
          then show ?thesis using noop hit k v keyExists [of "user_id ru" "ts_keys s"] existsUploadId [OF assms(2), of upId]
            by (simp add: run)
        next
          case False
          then show ?thesis using x hit k v by blast
        qed
      qed
    qed
  qed
qed

lemma upload_effect:
  assumes "inv (ts_users s)" "finv (ts_files s)" "blobs (ts_storage s) (uid (generateUserId rdB) @ ''.bin'') = None"
    "upload P now now2 rdF rdB rdT tok recipientName name opaque upId sz dig wk s = (r, s')"
  shows "finv (ts_files s') \<and>
    ((\<nexists>t. r = Inr (success t)) \<and> ts_files s' = ts_files s
        \<and> (\<forall>j. storage_id j \<longrightarrow> blobs (ts_storage s') j = blobs (ts_storage s) j)
     \<or> (\<exists>x ru fr. sess (ts_sessions s) tok = Some x \<and> session_isValid x now
         \<and> findByUsername U recipientName (ts_users s) = Inr (success ru)
         \<and> keys (ts_keys s) (uid (user_id ru)) \<noteq> None \<and> validate name sz (validator_header name opaque) = Inr ()
         \<and> fr = new_record rdF rdB now2 (userId x) (user_id ru) name upId sz dig wk
         \<and> insertable fr (files (ts_files s)) \<and> (r = Inr (success (new_transfer rdT fr)) \<or> (\<exists>e. r = Inl e))
         \<and> files (ts_files s') = (files (ts_files s))(fid (file_id fr) \<mapsto> fr)
         \<and> (\<forall>j. storage_id j \<longrightarrow> blobs (ts_storage s') j = (if j = storageId fr then Some opaque else blobs (ts_storage s) j))))"
  using upload_refused_or_admitted [OF assms(1,2), where now = now and ?now2.0 = now2 and rdF = rdF and rdB = rdB and rdT = rdT
     and tok = tok and recipientName = recipientName and name = name and opaque = opaque and upId = upId and sz = sz and dig = dig and wk = wk]
proof (elim disjE exE conjE)
  fix q a assume "upload P now now2 rdF rdB rdT tok recipientName name opaque upId sz dig wk s = (q, s\<lparr>ts_audit := a\<rparr>)"
    "\<nexists>t. q = Inr (success t)"
  then show ?thesis using assms by auto
next
  fix x ru assume adm: "sess (ts_sessions s) tok = Some x" "session_isValid x now"
    "findByUsername U recipientName (ts_users s) = Inr (success ru)" "uid (user_id ru) \<noteq> []"
    "keys (ts_keys s) (uid (user_id ru)) \<noteq> None" "validate name sz (validator_header name opaque) = Inr ()" "upId \<noteq> []"
    "upId \<notin> uploadId ` ran (files (ts_files s))"
  let ?fr = "new_record rdF rdB now2 (userId x) (user_id ru) name upId sz dig wk"
  have st: "upload_store P ?fr opaque (new_transfer rdT ?fr) s = (r, s')"
    using upload_admitted [OF assms(1,2) adm] assms(4) by (simp add: Let_def)
  have id: "storageId ?fr = uid (generateUserId rdB) @ ''.bin''" by (simp add: new_record_def)
  show ?thesis
  proof (cases "insertable ?fr (files (ts_files s))")
    case True
    with upload_store_saved [OF assms(2) True, of opaque "new_transfer rdT ?fr"] st adm id file_uuid_id [of rdB]
    show ?thesis by auto
  next
    case False
    with upload_store_rolled_back [OF assms(2) False, of opaque "new_transfer rdT ?fr"] st id file_uuid_id [of rdB] assms(2,3)
    show ?thesis by auto
  qed
qed

lemma download_refused:
  assumes "finv (ts_files s)"
    "\<nexists>x fr. sess (ts_sessions s) tok = Some x \<and> session_isValid x now \<and> files (ts_files s) (fid f) = Some fr
        \<and> userId x \<in> {owner fr, recipient fr}"
  shows "\<exists>r a. \<forall>d. download P now tok f (s\<lparr>ts_storage := d\<rparr>) = (r, s\<lparr>ts_storage := d, ts_audit := a\<rparr>)
     \<and> (\<nexists>v. r = Inr (success v))"
proof (cases "isValid S tok now (ts_sessions s)")
  case False
  obtain a r where "\<forall>d. audited P (event (sid tok) ''DENIED'' (fid f)) (s\<lparr>ts_storage := d\<rparr>) = (r, s\<lparr>ts_storage := d, ts_audit := a\<rparr>)"
    by (rule audited_storage)
  then show ?thesis using False
    by (intro exI [of _ "Inl (case r of Inl e \<Rightarrow> e | Inr _ \<Rightarrow> AuthException ''Login failed'')"] exI [of _ a])
       (cases r, simp_all add: download_def session_user_def wired bindS_def throwS_def)
next
  case True
  then obtain x where x: "sess (ts_sessions s) tok = Some x" "session_isValid x now" by (auto simp: isValid_iff)
  note run = session_user_def isValid userFor download_def wired bindS_def getS_def retS_def findFile [OF assms(1), of f]
  show ?thesis
  proof (cases "files (ts_files s) (fid f)")
    case None
    then show ?thesis using x by (intro exI [of _ "Inr (failure ''not found'')"] exI [of _ "ts_audit s"]) (simp add: run)
  next
    case (Some fr)
    with assms(2) x have no: "\<not> (owner fr = userId x \<or> recipient fr = userId x)" by auto
    obtain a r where "\<forall>d. audited P (event (uid (userId x)) ''DENIED'' (fid f)) (s\<lparr>ts_storage := d\<rparr>)
        = (r, s\<lparr>ts_storage := d, ts_audit := a\<rparr>)"
      by (rule audited_storage)
    then show ?thesis using x Some no
      by (intro exI [of _ "case r of Inl e \<Rightarrow> Inl e | Inr _ \<Rightarrow> Inr (failure ''denied'')"] exI [of _ a])
         (cases r, simp_all add: run)
  qed
qed

lemma download_allowed:
  assumes "finv (ts_files s)" "sess (ts_sessions s) tok = Some x" "session_isValid x now"
    "files (ts_files s) (fid f) = Some fr" "userId x \<in> {owner fr, recipient fr}" "storage_id (storageId fr)"
    "blobs (ts_storage s) (storageId fr) = Some v"
  shows "download P now tok f s = bindS (audited P (event (uid (userId x)) ''DOWNLOAD'' (fid f))) (\<lambda>_. retS (success v)) s"
  using assms session_user_ok [OF assms(2,3)] findFile [OF assms(1), of f] readBlob [OF assms(6,7)]
  by (auto simp: download_def wired bindS_def getS_def)

end

text \<open>Every record has its blob, under an identifier the storage accepts.\<close>

definition backed :: "(string \<Rightarrow> FileRecord option) \<Rightarrow> (string \<Rightarrow> bytes option) \<Rightarrow> bool" where
  "backed fs bs \<longleftrightarrow> (\<forall>fr\<in>ran fs. storage_id (storageId fr) \<and> bs (storageId fr) \<noteq> None)"

context transfer_core begin

lemma upload_cases:
  assumes "inv (ts_users s)" "finv (ts_files s)" "blobs (ts_storage s) (uid (generateUserId rdB) @ ''.bin'') = None"
    "upload P now now2 rdF rdB rdT tok recipientName name opaque upId sz dig wk s = (r, s')"
  obtains (kept) "\<nexists>t. r = Inr (success t)" "ts_files s' = ts_files s"
      "\<forall>j. storage_id j \<longrightarrow> blobs (ts_storage s') j = blobs (ts_storage s) j"
  | (stored) x ru fr where "sess (ts_sessions s) tok = Some x" "findByUsername U recipientName (ts_users s) = Inr (success ru)"
      "fr = new_record rdF rdB now2 (userId x) (user_id ru) name upId sz dig wk"
      "finv (ts_files s')" "r = Inr (success (new_transfer rdT fr)) \<or> (\<exists>e. r = Inl e)"
      "files (ts_files s') = (files (ts_files s))(fid (file_id fr) \<mapsto> fr)"
      "\<forall>j. storage_id j \<longrightarrow> blobs (ts_storage s') j = (if j = storageId fr then Some opaque else blobs (ts_storage s) j)"
      "storage_id (storageId fr)"
proof -
  note e = upload_effect [OF assms]
  show thesis
  proof (rule disjE [OF conjunct2 [OF e]], goal_cases)
    case 1
    then show thesis by (elim conjE) (rule kept)
  next
    case 2
    then show thesis
    proof (elim exE conjE)
      fix x ru fr
      assume src: "sess (ts_sessions s) tok = Some x" "findByUsername U recipientName (ts_users s) = Inr (success ru)"
        and fr: "fr = new_record rdF rdB now2 (userId x) (user_id ru) name upId sz dig wk"
        and st: "r = Inr (success (new_transfer rdT fr)) \<or> (\<exists>e. r = Inl e)"
          "files (ts_files s') = (files (ts_files s))(fid (file_id fr) \<mapsto> fr)"
          "\<forall>j. storage_id j \<longrightarrow> blobs (ts_storage s') j = (if j = storageId fr then Some opaque else blobs (ts_storage s) j)"
      have "storage_id (storageId fr)" using fr file_uuid_id by (simp add: new_record_def)
      with src fr conjunct1 [OF e] st show thesis by (rule stored)
    qed
  qed
qed

lemma upload_keeps_backed:
  assumes "inv (ts_users s)" "finv (ts_files s)" "blobs (ts_storage s) (uid (generateUserId rdB) @ ''.bin'') = None"
    "upload P now now2 rdF rdB rdT tok recipientName name opaque upId sz dig wk s = (r, s')" "backed (files (ts_files s)) (blobs (ts_storage s))"
  shows "backed (files (ts_files s')) (blobs (ts_storage s'))"
  using assms(1-4)
proof (cases rule: upload_cases)
  case kept
  with assms(5) show ?thesis by (simp add: backed_def)
next
  case (stored x ru fr)
  then have "ran (files (ts_files s')) \<subseteq> insert fr (ran (files (ts_files s)))" by (auto simp: ran_def)
  then show ?thesis using stored(7,8) assms(5) by (auto simp: backed_def)
qed

lemma download_sound:
  assumes "finv (ts_files s)" "download P now tok f s = (Inr (success v), s')"
  shows "\<exists>x fr. sess (ts_sessions s) tok = Some x \<and> session_isValid x now \<and> files (ts_files s) (fid f) = Some fr
     \<and> userId x \<in> {owner fr, recipient fr} \<and> readBlob B (storageId fr) (ts_storage s) = Inr v"
proof -
  have "\<exists>x fr. sess (ts_sessions s) tok = Some x \<and> session_isValid x now \<and> files (ts_files s) (fid f) = Some fr
     \<and> userId x \<in> {owner fr, recipient fr}" (is ?auth)
  proof (rule ccontr)
    assume "\<not> ?auth"
    then obtain r a where "\<forall>d. download P now tok f (s\<lparr>ts_storage := d\<rparr>) = (r, s\<lparr>ts_storage := d, ts_audit := a\<rparr>)
       \<and> (\<nexists>v. r = Inr (success v))" using download_refused [OF assms(1), of tok now f] by blast
    from this [rule_format, of "ts_storage s"] show False using assms(2) by auto
  qed
  then obtain x fr where x: "sess (ts_sessions s) tok = Some x" "session_isValid x now" "files (ts_files s) (fid f) = Some fr"
    "userId x \<in> {owner fr, recipient fr}" by blast
  moreover have "readBlob B (storageId fr) (ts_storage s) = Inr v"
    using assms(2) x session_user_ok [OF x(1,2)] findFile [OF assms(1), of f]
    by (auto simp: download_def wired bindS_def getS_def retS_def split: sum.splits prod.splits if_splits)
  ultimately show ?thesis by blast
qed

lemma upload_download:
  assumes "inv (ts_users s)" "finv (ts_files s)" "blobs (ts_storage s) (uid (generateUserId rdB) @ ''.bin'') = None"
    "upload P now now2 rdF rdB rdT tok recipientName name opaque upId sz dig wk s = (Inr (success t), s')"
    "sess (ts_sessions s') tok' = Some y" "session_isValid y later" "userId y \<in> {sender t, trecipient t}"
  shows "download P later tok' (tfile t) s'
    = bindS (audited P (event (uid (userId y)) ''DOWNLOAD'' (fid (tfile t)))) (\<lambda>_. retS (success opaque)) s'"
  using assms(1-4)
proof (cases rule: upload_cases)
  case kept
  then show ?thesis by simp
next
  case (stored x ru fr)
  then have t: "tfile t = file_id fr" "sender t = owner fr" "trecipient t = recipient fr" by (simp_all add: new_transfer_def)
  show ?thesis
    using download_allowed [OF stored(4) assms(5,6), of "tfile t" fr opaque] assms(7) stored(6-8) t by simp
qed

end

section \<open>The service over the modelled stores\<close>

definition mem_transfer ::
  "'d IStorage \<Rightarrow> 't ITransferRepository option \<Rightarrow> 'a IAuditLogger option
   \<Rightarrow> ('d, MemoryPubkeyDirectory, MemoryFileRepository, 't, 'a, MemorySessionStore, MemoryUserRepository) TransferPorts" where
  "mem_transfer B T A = \<lparr>t_storage = Some B, t_keys = Some memory_keys, t_files = Some memory_files, t_transfers = T,
     t_audit = A, t_validator = Some validate, t_clock = True, t_sessions = Some memory_sessions, t_users = Some memory_users\<rparr>"

interpretation memtransfer: transfer_core memory_storage map_of memory_keys "\<lambda>d. map_of (store d)" memory_files memfile_inv mem_files
  memory_sessions mem_sess memory_users mem_inv mem_users mem_hashes "mem_transfer memory_storage T A"
  for T :: "'t ITransferRepository option" and A :: "'a IAuditLogger option"
  by unfold_locales (simp_all add: mem_transfer_def)

interpretation disktransfer: transfer_core "binary_storage good_disk" bin_blobs memory_keys "\<lambda>d. map_of (store d)"
  memory_files memfile_inv mem_files memory_sessions mem_sess memory_users mem_inv mem_users mem_hashes
  "mem_transfer (binary_storage good_disk) T A"
  for T :: "'t ITransferRepository option" and A :: "'a IAuditLogger option"
  by unfold_locales (simp_all add: mem_transfer_def)

section \<open>Properties\<close>

text \<open>A server state in which bob has a key and a session opened at time 1000, for the examples.\<close>

definition demo_token :: SessionId where
  "demo_token = generateSessionId (\<lambda>_. 7)"

definition demo_transfer ::
  "(BinaryFileStorage, MemoryPubkeyDirectory, MemoryFileRepository, unit, VectorAudit, MemorySessionStore, MemoryUserRepository) TransferState" where
  "demo_transfer = \<lparr>ts_storage = \<lparr>root = ''/s'', disk = []\<rparr>, ts_keys = \<lparr>store = [(''1'', replicate 32 9)]\<rparr>,
     ts_files = emptyMemoryFileRepository, ts_transfers = (), ts_audit = \<lparr>vlog = []\<rparr>,
     ts_sessions = snd (createForUser memory_sessions (\<lambda>_. 7) (UserId ''1'') 1000 emptyMemorySessionStore),
     ts_users = demo_repo 0, ts_cwd = []\<rparr>"

abbreviation demo_disk_ports where
  "demo_disk_ports \<equiv> mem_transfer (binary_storage good_disk) (None :: unit ITransferRepository option) (None :: VectorAudit IAuditLogger option)"

abbreviation demo_upload where
  "demo_upload \<equiv> upload demo_disk_ports 2000 2001 (\<lambda>_. 1) (\<lambda>_. 2) (\<lambda>_. 3) demo_token ''bob'' ''a.pdf'' [1, 2, 3] ''up1'' 3
     (Digest []) emptyWrappedKey demo_transfer"

lemma demo_transfer_session:
  "mem_sess (ts_sessions demo_transfer) demo_token = Some (new_session demo_token (UserId ''1'') 1000)"
  using memsess.create [of "\<lambda>_. 7" "UserId ''1''" 1000 emptyMemorySessionStore] by (auto simp: demo_transfer_def demo_token_def)

lemma demo_transfer_ok:
  "mem_inv (ts_users demo_transfer)" "memfile_inv (ts_files demo_transfer)" "mem_files (ts_files demo_transfer) = Map.empty"
  "bin_blobs (ts_storage demo_transfer) k = None"
  by (simp_all add: demo_transfer_def memfile_inv_def mem_files_def bin_blobs_def emptyMemoryFileRepository_def)

lemma demo_upload_runs:
  obtains t s' where "demo_upload = (Inr (success t), s')" "sender t = UserId ''1''" "ts_sessions s' = ts_sessions demo_transfer"
proof -
  let ?fr = "new_record (\<lambda>_. 1) (\<lambda>_. 2) 2001 (UserId ''1'') (UserId ''1'') ''a.pdf'' ''up1'' 3 (Digest []) emptyWrappedKey"
  have user: "findByUsername memory_users ''bob'' (ts_users demo_transfer) = Inr (success (demo_user 0))"
    using mem.findByUsername_hit [of "demo_repo 0" "''1''" "demo_user 0"] by (simp add: demo_transfer_def)
  have valid: "validate ''a.pdf'' 3 (validator_header ''a.pdf'' [1, 2, 3]) = Inr ()" by code_simp
  have key: "map_of (store (ts_keys demo_transfer)) (uid (user_id (demo_user 0))) \<noteq> None" by (simp add: demo_transfer_def)
  have "session_isValid (new_session demo_token (UserId ''1'') 1000) 2000" by (simp add: session_ms_def)
  then have up: "demo_upload = upload_store demo_disk_ports ?fr [1, 2, 3] (new_transfer (\<lambda>_. 3) ?fr) demo_transfer"
    using disktransfer.upload_admitted [OF demo_transfer_ok(1,2) demo_transfer_session _ user _ key valid, of 2000 "''up1''"]
    by (simp add: demo_transfer_ok Let_def)
  have "uid (generateUserId (\<lambda>_. 1)) \<noteq> []" by (simp add: generateUserId_def Let_def)
  then have ins: "insertable ?fr (mem_files (ts_files demo_transfer))"
    by (simp add: insertable_def demo_transfer_ok new_record_def)
  have sid: "storage_id (storageId ?fr)" by (simp only: new_record_def FileRecord.select_convs file_uuid_id)
  have "\<forall>e s. fst (audited demo_disk_ports e s) = Inr ()" by (simp add: audited_def mem_transfer_def retS_def)
  then obtain s' where "demo_upload = (Inr (success (new_transfer (\<lambda>_. 3) ?fr)), s')" "ts_sessions s' = ts_sessions demo_transfer"
    using disktransfer.upload_store_saved [OF demo_transfer_ok(2) ins sid, where opaque = "[1, 2, 3]" and t = "new_transfer (\<lambda>_. 3) ?fr"
        and T = "None :: unit ITransferRepository option" and A = "None :: VectorAudit IAuditLogger option"] up by auto
  moreover have "sender (new_transfer (\<lambda>_. 3) ?fr) = UserId ''1''" by (simp add: new_transfer_def new_record_def)
  ultimately show thesis using that by blast
qed

text \<open>
  C1. An upload is all or nothing, whatever it returns or throws. Either neither the records
  nor any blob has changed (and it did not report success), or the caller held a valid
  session, the recipient exists and has a public key, the name and size passed the
  validator, and exactly one record was added, owned by the session's user and addressed to
  the recipient, with exactly the uploaded bytes under its storage identifier. Every record
  keeps its blob. The drawn blob identifier is assumed not to be in use.
\<close>

theorem upload_all_or_nothing:
  assumes "mem_inv (ts_users s)" "memfile_inv (ts_files s)" "backed (mem_files (ts_files s)) (bin_blobs (ts_storage s))"
    "bin_blobs (ts_storage s) (uid (generateUserId rdB) @ ''.bin'') = None"
    "upload (mem_transfer (binary_storage good_disk) T A) now now2 rdF rdB rdT tok recipientName name opaque upId sz dig wk s = (r, s')"
  shows "memfile_inv (ts_files s') \<and> backed (mem_files (ts_files s')) (bin_blobs (ts_storage s')) \<and>
    ((\<nexists>t. r = Inr (success t)) \<and> ts_files s' = ts_files s
        \<and> (\<forall>j. storage_id j \<longrightarrow> bin_blobs (ts_storage s') j = bin_blobs (ts_storage s) j)
     \<or> (\<exists>x ru fr. mem_sess (ts_sessions s) tok = Some x \<and> session_isValid x now
         \<and> MemUser_findByUsername recipientName (ts_users s) = Inr (success ru)
         \<and> map_of (store (ts_keys s)) (uid (user_id ru)) \<noteq> None \<and> validate name sz (validator_header name opaque) = Inr ()
         \<and> fr = new_record rdF rdB now2 (userId x) (user_id ru) name upId sz dig wk
         \<and> insertable fr (mem_files (ts_files s)) \<and> (r = Inr (success (new_transfer rdT fr)) \<or> (\<exists>e. r = Inl e))
         \<and> mem_files (ts_files s') = (mem_files (ts_files s))(fid (file_id fr) \<mapsto> fr)
         \<and> (\<forall>j. storage_id j \<longrightarrow> bin_blobs (ts_storage s') j = (if j = storageId fr then Some opaque else bin_blobs (ts_storage s) j))))"
proof -
  have "findByUsername memory_users = MemUser_findByUsername" by (simp add: memory_users_def)
  then show ?thesis
    using disktransfer.upload_effect [OF assms(1,2,4,5)] disktransfer.upload_keeps_backed [OF assms(1,2,4,5,3)] by presburger
qed

theorem upload_all_or_nothing_witness:
  "\<exists>t s'. demo_upload = (Inr (success t), s') \<and> backed (mem_files (ts_files s')) (bin_blobs (ts_storage s'))
     \<and> mem_files (ts_files s') \<noteq> Map.empty"
proof -
  obtain t s' where run: "demo_upload = (Inr (success t), s')" by (rule demo_upload_runs)
  have "backed (mem_files (ts_files demo_transfer)) (bin_blobs (ts_storage demo_transfer))"
    by (simp add: backed_def demo_transfer_ok)
  note p = upload_all_or_nothing [OF demo_transfer_ok(1,2) this demo_transfer_ok(4) run]
  from p obtain i fr where "mem_files (ts_files s') = (mem_files (ts_files demo_transfer))(i \<mapsto> fr)" by blast
  then have "mem_files (ts_files s') \<noteq> Map.empty" by (metis map_upd_nonempty)
  with p run show ?thesis by blast
qed

text \<open>
  C3. What was uploaded is what the owner and the recipient download: after a successful
  upload, whoever of the two presents a session valid at the time gets exactly the uploaded
  bytes, provided the audit logger accepts the event.
\<close>

theorem upload_download_roundtrip:
  assumes "mem_inv (ts_users s)" "memfile_inv (ts_files s)"
    "bin_blobs (ts_storage s) (uid (generateUserId rdB) @ ''.bin'') = None"
    "upload (mem_transfer (binary_storage good_disk) T A) now now2 rdF rdB rdT tok recipientName name opaque upId sz dig wk s
      = (Inr (success t), s')"
    "mem_sess (ts_sessions s') tok' = Some y" "session_isValid y later" "userId y \<in> {sender t, trecipient t}"
    "fst (audited (mem_transfer (binary_storage good_disk) T A) (event (uid (userId y)) ''DOWNLOAD'' (fid (tfile t))) s') = Inr ()"
  shows "fst (download (mem_transfer (binary_storage good_disk) T A) later tok' (tfile t) s') = Inr (success opaque)"
  using disktransfer.upload_download [OF assms(1-7)] assms(8) by (auto simp: bindS_def retS_def split: prod.splits)

theorem upload_download_roundtrip_witness:
  "\<exists>t s'. demo_upload = (Inr (success t), s') \<and> fst (download demo_disk_ports 3000 demo_token (tfile t) s') = Inr (success [1, 2, 3])"
proof -
  obtain t s' where run: "demo_upload = (Inr (success t), s')" "sender t = UserId ''1''" "ts_sessions s' = ts_sessions demo_transfer"
    by (rule demo_upload_runs)
  let ?x = "new_session demo_token (UserId ''1'') 1000"
  have y: "mem_sess (ts_sessions s') demo_token = Some ?x" "session_isValid ?x 3000" "userId ?x \<in> {sender t, trecipient t}"
    using run demo_transfer_session by (simp_all add: session_ms_def)
  have au: "fst (audited demo_disk_ports (event (uid (userId ?x)) ''DOWNLOAD'' (fid (tfile t))) s') = Inr ()"
    by (simp add: audited_def mem_transfer_def retS_def)
  show ?thesis using upload_download_roundtrip [OF demo_transfer_ok(1,2,4) run(1) y au] run(1) by blast
qed

text \<open>
  C4. Nothing is read from storage for a caller who is not entitled to the file: unless the
  token is valid and its user owns the file or is its recipient, the outcome of a download
  is not a success and is the same for every content of the storage, and only the audit log
  changes.
\<close>

theorem download_auth_before_storage:
  assumes "memfile_inv (ts_files s)"
    "\<nexists>x fr. mem_sess (ts_sessions s) tok = Some x \<and> session_isValid x now \<and> mem_files (ts_files s) (fid f) = Some fr
        \<and> userId x \<in> {owner fr, recipient fr}"
  shows "\<exists>r a. \<forall>d. download (mem_transfer (binary_storage good_disk) T A) now tok f (s\<lparr>ts_storage := d\<rparr>)
        = (r, s\<lparr>ts_storage := d, ts_audit := a\<rparr>)
     \<and> (\<nexists>v. r = Inr (success v))"
  using disktransfer.download_refused [OF assms] .

theorem download_auth_before_storage_witness:
  "\<exists>r a. \<forall>d. download demo_disk_ports 3000 demo_token (FileId ''nope'') (demo_transfer\<lparr>ts_storage := d\<rparr>)
        = (r, demo_transfer\<lparr>ts_storage := d, ts_audit := a\<rparr>) \<and> (\<nexists>v. r = Inr (success v))"
  by (rule download_auth_before_storage) (simp_all add: demo_transfer_ok)

text \<open>
  A successful download proves entitlement: the token is valid, its user owns the file or
  is its recipient, and the bytes are those stored under the record's storage identifier.
\<close>

theorem download_sound_on_disk:
  assumes "memfile_inv (ts_files s)"
    "download (mem_transfer (binary_storage good_disk) T A) now tok f s = (Inr (success v), s')"
  shows "\<exists>x fr. mem_sess (ts_sessions s) tok = Some x \<and> session_isValid x now \<and> mem_files (ts_files s) (fid f) = Some fr
     \<and> userId x \<in> {owner fr, recipient fr} \<and> BinStore_read good_disk (storageId fr) (ts_storage s) = Inr v"
  using disktransfer.download_sound [OF assms] by (simp add: binary_storage_def)

theorem download_sound_on_disk_witness:
  "\<exists>t s' fr. demo_upload = (Inr (success t), s') \<and> mem_files (ts_files s') (fid (tfile t)) = Some fr
     \<and> BinStore_read good_disk (storageId fr) (ts_storage s') = Inr [1, 2, 3]"
proof -
  obtain t s' where run: "demo_upload = (Inr (success t), s')" "sender t = UserId ''1''" "ts_sessions s' = ts_sessions demo_transfer"
    by (rule demo_upload_runs)
  let ?x = "new_session demo_token (UserId ''1'') 1000"
  have y: "mem_sess (ts_sessions s') demo_token = Some ?x" "session_isValid ?x 3000" "userId ?x \<in> {sender t, trecipient t}"
    using run demo_transfer_session by (simp_all add: session_ms_def)
  have d: "download demo_disk_ports 3000 demo_token (tfile t) s' = (Inr (success [1, 2, 3]), s')"
    using disktransfer.upload_download [OF demo_transfer_ok(1,2,4) run(1) y]
    by (simp add: audited_def mem_transfer_def retS_def bindS_def)
  have "memfile_inv (ts_files s')"
    using disktransfer.upload_effect [OF demo_transfer_ok(1,2,4) run(1)] by blast
  from download_sound_on_disk [OF this d] run(1) show ?thesis by blast
qed

end
