(* ===== verification/ServerApp.thy ===== *)
theory ServerApp
  imports AdminService TransferService Framing Protocol Cli
begin

text \<open>
  The server (\<^verbatim>\<open>src/presentation/server_app.cpp\<close>): its wiring and first start, one
  handler per message type, the loop over the frames of a connection, and the accept loop.
  The handlers run in the state of the connection around the stores all connections share;
  an exception that leaves a handler ends the connection. Console output is left out.
\<close>

section \<open>State\<close>

text \<open>The objects \<open>run\<close> creates, and the two services over them.\<close>

record ('r, 'h, 's, 'a, 'd, 'k, 'f, 't) ServerPorts =
  userRepo :: "'r IUserRepository"
  hasher :: "'h IPasswordHasher"
  sessions :: "'s ISessionStore"
  audit :: "'a IAuditLogger"
  blobStore :: "'d IStorage"
  pubkeyDir :: "'k IKeyDirectory"
  fileRepo :: "'f IFileRepository"
  transferRepo :: "'t ITransferRepository"

definition auth_service :: "('r, 'h, 's, 'a, 'd, 'k, 'f, 't) ServerPorts \<Rightarrow> ('r, 'h, 's, 'a) AuthPorts" where
  "auth_service P = \<lparr>p_repo = userRepo P, p_hasher = hasher P, p_sessions = sessions P, p_audit = audit P\<rparr>"

definition transfer_service ::
  "('r, 'h, 's, 'a, 'd, 'k, 'f, 't) ServerPorts \<Rightarrow> ('d, 'k, 'f, 't, 'a, 's, 'r) TransferPorts" where
  "transfer_service P = \<lparr>t_storage = Some (blobStore P), t_keys = Some (pubkeyDir P), t_files = Some (fileRepo P),
     t_transfers = Some (transferRepo P), t_audit = Some (audit P), t_validator = Some validate, t_clock = True,
     t_sessions = Some (sessions P), t_users = Some (userRepo P)\<rparr>"

record ('r, 'h, 's, 'a, 'd, 'k, 'f, 't) Stores =
  sv_users :: 'r
  sv_hasher :: 'h
  sv_sessions :: 's
  sv_audit :: 'a
  sv_storage :: 'd
  sv_keys :: 'k
  sv_files :: 'f
  sv_transfers :: 't
  sv_cwd :: "(string \<times> bytes) list"

text \<open>
  One connection: the pending uploads, the token, the frames written to it, and how many
  more can be written before the peer is gone, when \<open>asio::write\<close> throws.
\<close>

record ('r, 'h, 's, 'a, 'd, 'k, 'f, 't) Conn =
  stores :: "('r, 'h, 's, 'a, 'd, 'k, 'f, 't) Stores"
  pendingInit :: "(string \<times> UploadInit) list"
  pendingData :: "(string \<times> bytes) list"
  connToken :: string
  written :: "Frame list"
  link :: nat

definition sendFrame :: "Frame \<Rightarrow> (('r, 'h, 's, 'a, 'd, 'k, 'f, 't) Conn, unit) sx" where
  "sendFrame f c =
     (if link c = 0 then (Inl (RuntimeError ''write''), c)
      else (Inr (), c\<lparr>written := written c @ [f], link := link c - 1\<rparr>))"

definition reply :: "Frame \<Rightarrow> MsgType \<Rightarrow> bytes \<Rightarrow> (('r, 'h, 's, 'a, 'd, 'k, 'f, 't) Conn, unit) sx" where
  "reply f t b = sendFrame \<lparr>ftype = t, requestId = requestId f, body = b\<rparr>"

definition auth_view :: "('r, 'h, 's, 'a, 'd, 'k, 'f, 't) Stores \<Rightarrow> ('r, 'h, 's, 'a) AuthState" where
  "auth_view s = \<lparr>st_repo = sv_users s, st_hasher = sv_hasher s, st_sessions = sv_sessions s, st_audit = sv_audit s\<rparr>"

definition put_auth ::
  "('r, 'h, 's, 'a) AuthState \<Rightarrow> ('r, 'h, 's, 'a, 'd, 'k, 'f, 't) Stores \<Rightarrow> ('r, 'h, 's, 'a, 'd, 'k, 'f, 't) Stores" where
  "put_auth x s = s\<lparr>sv_users := st_repo x, sv_hasher := st_hasher x, sv_sessions := st_sessions x, sv_audit := st_audit x\<rparr>"

definition transfer_view :: "('r, 'h, 's, 'a, 'd, 'k, 'f, 't) Stores \<Rightarrow> ('d, 'k, 'f, 't, 'a, 's, 'r) TransferState" where
  "transfer_view s = \<lparr>ts_storage = sv_storage s, ts_keys = sv_keys s, ts_files = sv_files s, ts_transfers = sv_transfers s,
     ts_audit = sv_audit s, ts_sessions = sv_sessions s, ts_users = sv_users s, ts_cwd = sv_cwd s\<rparr>"

definition put_transfer ::
  "('d, 'k, 'f, 't, 'a, 's, 'r) TransferState \<Rightarrow> ('r, 'h, 's, 'a, 'd, 'k, 'f, 't) Stores \<Rightarrow> ('r, 'h, 's, 'a, 'd, 'k, 'f, 't) Stores" where
  "put_transfer x s = s\<lparr>sv_storage := ts_storage x, sv_keys := ts_keys x, sv_files := ts_files x, sv_transfers := ts_transfers x,
     sv_audit := ts_audit x, sv_sessions := ts_sessions x, sv_users := ts_users x, sv_cwd := ts_cwd x\<rparr>"

definition onAuth :: "(('r, 'h, 's, 'a) AuthState, 'x) sx \<Rightarrow> (('r, 'h, 's, 'a, 'd, 'k, 'f, 't) Conn, 'x) sx" where
  "onAuth m = zoomS (\<lambda>c. auth_view (stores c)) (\<lambda>x c. c\<lparr>stores := put_auth x (stores c)\<rparr>) m"

definition onTransfer :: "(('d, 'k, 'f, 't, 'a, 's, 'r) TransferState, 'x) sx \<Rightarrow> (('r, 'h, 's, 'a, 'd, 'k, 'f, 't) Conn, 'x) sx" where
  "onTransfer m = zoomS (\<lambda>c. transfer_view (stores c)) (\<lambda>x c. c\<lparr>stores := put_transfer x (stores c)\<rparr>) m"

text \<open>What one frame reads of the clock and draws of the random device.\<close>

record env =
  now1 :: int
  now2 :: int
  now3 :: int
  rd1 :: random_device
  rd2 :: random_device
  rd3 :: random_device

section \<open>Handlers\<close>

definition handle_register ::
  "('r, 'h, 's, 'a, 'd, 'k, 'f, 't) ServerPorts \<Rightarrow> env \<Rightarrow> Frame \<Rightarrow> (('r, 'h, 's, 'a, 'd, 'k, 'f, 't) Conn, unit) sx" where
  "handle_register P e f =
     catchS (bindS (getS (\<lambda>_. decodeRegister (body f))) (\<lambda>pl.
             bindS (onAuth (registerUser (auth_service P) (rd1 e) (rd2 e) (rp_username pl) (rp_email pl) (rp_password pl) ''user'')) (\<lambda>res.
             let msg = (if ok res then formatSafeAuthMessage ''REGISTER_OK'' (rp_username pl)
                        else formatSafeAuthMessage ''REGISTER_FAIL'' (rp_username pl))
             in reply f REGISTER (bytes_of_string msg))))
            (\<lambda>_. reply f ERR [])"

definition handle_auth ::
  "('r, 'h, 's, 'a, 'd, 'k, 'f, 't) ServerPorts \<Rightarrow> env \<Rightarrow> Frame \<Rightarrow> (('r, 'h, 's, 'a, 'd, 'k, 'f, 't) Conn, unit) sx" where
  "handle_auth P e f =
     catchS (bindS (getS (\<lambda>_. decodeLogin (body f))) (\<lambda>pl.
             bindS (onAuth (login (auth_service P) (rd1 e) (now1 e) (lp_username pl) (lp_password pl))) (\<lambda>res.
             case got res of
               Some tok \<Rightarrow>
                 bindS (\<lambda>c. (Inr (), c\<lparr>connToken := sid tok\<rparr>)) (\<lambda>_.
                 reply f AUTH (bytes_of_string (sid tok)))
             | None \<Rightarrow>
                 let msg = (if ok res then formatSafeAuthMessage ''LOGIN_OK'' (lp_username pl)
                            else formatSafeAuthMessage ''LOGIN_FAIL'' (lp_username pl))
                 in reply f (if ok res then AUTH else ERR) (bytes_of_string msg))))
            (\<lambda>_. reply f ERR [])"

text \<open>Not inside a \<open>try\<close>: an exception of the audit log ends the connection.\<close>

definition handle_logout ::
  "('r, 'h, 's, 'a, 'd, 'k, 'f, 't) ServerPorts \<Rightarrow> Frame \<Rightarrow> (('r, 'h, 's, 'a, 'd, 'k, 'f, 't) Conn, unit) sx" where
  "handle_logout P f =
     (let tokStr = string_of_bytes (body f)
      in bindS (onAuth (logout (auth_service P) (SessionId tokStr))) (\<lambda>good.
         let msg = (if good then formatSafeAuthMessage ''LOGOUT'' '''' else ''Logout failed'')
         in bindS (reply f (if good then LOGOUT else ERR) (bytes_of_string msg)) (\<lambda>_ c.
            (Inr (), if good \<and> connToken c = tokStr then c\<lparr>connToken := ''''\<rparr> else c))))"

definition handle_admin ::
  "('r, 'h, 's, 'a, 'd, 'k, 'f, 't) ServerPorts \<Rightarrow> env \<Rightarrow> Frame \<Rightarrow> (('r, 'h, 's, 'a, 'd, 'k, 'f, 't) Conn, unit) sx" where
  "handle_admin P e f =
     catchS (bindS (getS (\<lambda>_. decodeAdmin (body f))) (\<lambda>pl.
             let token = SessionId (ap_token pl); target = UserId (ap_targetId pl); on = (ftype f = ADMIN_ACTIVATE)
             in bindS (onAuth (if on then activate (auth_service P) (now1 e) token target
                               else deactivate (auth_service P) (now1 e) token target)) (\<lambda>res.
                let msg = (if ok res then (if on then formatSafeAuthMessage ''ACTIVATE'' (ap_targetId pl)
                                           else formatSafeAuthMessage ''DEACTIVATE'' (ap_targetId pl))
                           else ''Admin denied'')
                in reply f (if ok res then ftype f else ERR) (bytes_of_string msg))))
            (\<lambda>_. reply f ERR [])"

text \<open>The bytes of a C string: up to the first NUL.\<close>

definition c_str :: "string \<Rightarrow> bytes" where
  "c_str s = bytes_of_string (takeWhile (\<lambda>c. c \<noteq> CHR 0x00) s)"

definition handle_upload_init ::
  "('r, 'h, 's, 'a, 'd, 'k, 'f, 't) ServerPorts \<Rightarrow> env \<Rightarrow> Frame \<Rightarrow> (('r, 'h, 's, 'a, 'd, 'k, 'f, 't) Conn, unit) sx" where
  "handle_upload_init P e f =
     catchS (bindS (getS (\<lambda>_. decodeUploadInit (body f))) (\<lambda>init c.
             if connToken c = [] then reply f ERR (bytes_of_string ''no token'') c
             else if \<not> isValid (sessions P) (SessionId (connToken c)) (now1 e) (sv_sessions (stores c))
             then reply f ERR [] c
             else case validate (ui_origName init) (ui_size init) fake_header of
                    Inl ex \<Rightarrow> reply f ERR (c_str (what ex)) c
                  | Inr _ \<Rightarrow>
                      reply f UPLOAD_INIT (bytes_of_string ''ok'')
                        (c\<lparr>pendingInit := AList.update (ui_uploadId init) init (pendingInit c),
                           pendingData := AList.update (ui_uploadId init) [] (pendingData c)\<rparr>)))
            (\<lambda>_. reply f ERR [])"

definition handle_upload_data :: "Frame \<Rightarrow> (('r, 'h, 's, 'a, 'd, 'k, 'f, 't) Conn, unit) sx" where
  "handle_upload_data f =
     catchS (bindS (getS (\<lambda>_. decodeUploadData (body f))) (\<lambda>data c.
             case map_of (pendingData c) (ud_uploadId data) of
               None \<Rightarrow> reply f ERR [] c
             | Some v \<Rightarrow>
                 if ud_offset data \<noteq> word_of_nat (length v) then reply f ERR [] c
                 else reply f UPLOAD_DATA (bytes_of_string ''ok'')
                        (c\<lparr>pendingData := AList.update (ud_uploadId data) (v @ ud_chunk data) (pendingData c)\<rparr>)))
            (\<lambda>_. reply f ERR [])"

text \<open>The upload a commit names, in any of the forms the handler accepts.\<close>

definition commit_id :: "bytes \<Rightarrow> string" where
  "commit_id b =
     (if b = [] then []
      else if length b \<ge> 4
      then (let len = get32be b 0
            in if unat (len + 4) = length b then string_of_bytes (drop 4 b)
               else case decodeUploadData b of Inr d \<Rightarrow> ud_uploadId d | Inl _ \<Rightarrow> string_of_bytes b)
      else string_of_bytes b)"

definition commit_target :: "bytes \<Rightarrow> (string \<times> UploadInit) list \<Rightarrow> string" where
  "commit_target b pend =
     (if commit_id b = [] \<and> length pend = 1 then fst (hd pend) else commit_id b)"

definition handle_upload_commit ::
  "('r, 'h, 's, 'a, 'd, 'k, 'f, 't) ServerPorts \<Rightarrow> env \<Rightarrow> Frame \<Rightarrow> (('r, 'h, 's, 'a, 'd, 'k, 'f, 't) Conn, unit) sx" where
  "handle_upload_commit P e f =
     catchS (\<lambda>c.
       let up = commit_target (body f) (pendingInit c)
       in case (map_of (pendingInit c) up, map_of (pendingData c) up) of
            (Some init, Some data) \<Rightarrow>
              if connToken c = [] \<or> \<not> isValid (sessions P) (SessionId (connToken c)) (now1 e) (sv_sessions (stores c))
              then reply f ERR [] c
              else bindS (onTransfer (upload (transfer_service P) (now2 e) (now3 e) (rd1 e) (rd2 e) (rd3 e)
                                 (SessionId (connToken c)) (ui_recipient init) (ui_origName init) data (ui_uploadId init)
                                 (ui_size init) (ui_digest init) (ui_wrapped init))) (\<lambda>res.
                   case got res of
                     Some t \<Rightarrow>
                       bindS (reply f UPLOAD_COMMIT (bytes_of_string (tid (transfer_id t)))) (\<lambda>_ c.
                       (Inr (), c\<lparr>pendingInit := AList.delete up (pendingInit c),
                                  pendingData := AList.delete up (pendingData c)\<rparr>))
                   | None \<Rightarrow> reply f ERR (bytes_of_string (error res))) c
          | _ \<Rightarrow> reply f ERR [] c)
       (\<lambda>_. reply f ERR [])"

definition handle_download ::
  "('r, 'h, 's, 'a, 'd, 'k, 'f, 't) ServerPorts \<Rightarrow> env \<Rightarrow> Frame \<Rightarrow> (('r, 'h, 's, 'a, 'd, 'k, 'f, 't) Conn, unit) sx" where
  "handle_download P e f =
     catchS (bindS (getS (\<lambda>_. decodeDownloadReq (body f))) (\<lambda>req c.
             let tok = (if dr_token req = [] then connToken c else dr_token req)
             in bindS (onTransfer (download (transfer_service P) (now1 e) (SessionId tok) (FileId (dr_fileId req)))) (\<lambda>res.
                case got res of
                  Some opaque \<Rightarrow> reply f DOWNLOAD_DATA opaque
                | None \<Rightarrow> reply f ERR (bytes_of_string (error res))) c))
            (\<lambda>_. reply f ERR [])"

definition handle ::
  "('r, 'h, 's, 'a, 'd, 'k, 'f, 't) ServerPorts \<Rightarrow> env \<Rightarrow> Frame \<Rightarrow> (('r, 'h, 's, 'a, 'd, 'k, 'f, 't) Conn, unit) sx" where
  "handle P e f =
     (case ftype f of
        REGISTER \<Rightarrow> handle_register P e f
      | AUTH \<Rightarrow> handle_auth P e f
      | LOGOUT \<Rightarrow> handle_logout P f
      | ADMIN_ACTIVATE \<Rightarrow> handle_admin P e f
      | ADMIN_DEACTIVATE \<Rightarrow> handle_admin P e f
      | UPLOAD_INIT \<Rightarrow> handle_upload_init P e f
      | UPLOAD_DATA \<Rightarrow> handle_upload_data f
      | UPLOAD_COMMIT \<Rightarrow> handle_upload_commit P e f
      | DOWNLOAD_REQ \<Rightarrow> handle_download P e f
      | LIST \<Rightarrow> reply f LIST []
      | DOWNLOAD_DATA \<Rightarrow> reply f LIST []
      | _ \<Rightarrow> reply f ERR [])"

section \<open>Connections and start-up\<close>

text \<open>The frames the connection delivers, until \<open>recvFrame\<close> returns false or a handler throws.\<close>

fun serve ::
  "('r, 'h, 's, 'a, 'd, 'k, 'f, 't) ServerPorts \<Rightarrow> (env \<times> Frame) list \<Rightarrow> ('r, 'h, 's, 'a, 'd, 'k, 'f, 't) Conn
   \<Rightarrow> ('r, 'h, 's, 'a, 'd, 'k, 'f, 't) Conn" where
  "serve P [] c = c"
| "serve P ((e, f) # fs) c = (case handle P e f c of (Inl _, c') \<Rightarrow> c' | (Inr _, c') \<Rightarrow> serve P fs c')"

definition accept :: "nat \<Rightarrow> ('r, 'h, 's, 'a, 'd, 'k, 'f, 't) Stores \<Rightarrow> ('r, 'h, 's, 'a, 'd, 'k, 'f, 't) Conn" where
  "accept n s = \<lparr>stores = s, pendingInit = [], pendingData = [], connToken = '''', written = [], link = n\<rparr>"

text \<open>The accept loop serves one connection after the other.\<close>

fun accept_loop ::
  "('r, 'h, 's, 'a, 'd, 'k, 'f, 't) ServerPorts \<Rightarrow> (nat \<times> (env \<times> Frame) list) list \<Rightarrow> ('r, 'h, 's, 'a, 'd, 'k, 'f, 't) Stores
   \<Rightarrow> ('r, 'h, 's, 'a, 'd, 'k, 'f, 't) Stores" where
  "accept_loop P [] s = s"
| "accept_loop P ((n, fs) # cs) s = accept_loop P cs (stores (serve P fs (accept n s)))"

text \<open>The sweep of staged files and, on an empty user table, the first administrator.\<close>

definition boot ::
  "('r, 'h, 's, 'a, BinaryFileStorage, 'k, 'f, 't) ServerPorts \<Rightarrow> bool \<Rightarrow> (string \<Rightarrow> bool) \<Rightarrow> random_device \<Rightarrow> random_device
   \<Rightarrow> string \<Rightarrow> string \<Rightarrow> string \<Rightarrow> (('r, 'h, 's, 'a, BinaryFileStorage, 'k, 'f, 't) Stores, unit) sx" where
  "boot P rootExists rmOk rdSalt rdId u mail pw s =
     (let b = sv_storage s;
          s = s\<lparr>sv_storage := b\<lparr>disk := snd (sweepOrphans rootExists rmOk (root b) (disk b))\<rparr>\<rparr>
      in case listAll (userRepo P) (sv_users s) of
           Inl ex \<Rightarrow> (Inl ex, s)
         | Inr us \<Rightarrow>
             if us = [] \<and> u \<noteq> [] \<and> mail \<noteq> [] \<and> length pw \<ge> 8
             then bindS (zoomS auth_view put_auth (registerUser (auth_service P) rdSalt rdId u mail pw ''admin'')) (\<lambda>_. retS ()) s
             else (Inr (), s))"

section \<open>Reasoning about handlers\<close>

text \<open>
  Two judgements, each with a rule per way handlers are put together: a handler keeps a
  reflexive and transitive relation between the states before and after, and a handler
  that returns has written one answer to the request, one that throws none.
\<close>

definition quiet :: "('r, 'h, 's, 'a, 'd, 'k, 'f, 't) Conn \<Rightarrow> ('r, 'h, 's, 'a, 'd, 'k, 'f, 't) Conn \<Rightarrow> bool" where
  "quiet c c' \<longleftrightarrow> written c' = written c \<and> link c' = link c"

definition answered :: "Frame \<Rightarrow> ('r, 'h, 's, 'a, 'd, 'k, 'f, 't) Conn \<Rightarrow> ('r, 'h, 's, 'a, 'd, 'k, 'f, 't) Conn \<Rightarrow> bool" where
  "answered f c c' \<longleftrightarrow> (\<exists>g. written c' = written c @ [g] \<and> requestId g = requestId f)"

definition answers :: "Frame \<Rightarrow> (('r, 'h, 's, 'a, 'd, 'k, 'f, 't) Conn, unit) sx \<Rightarrow> bool" where
  "answers f m \<longleftrightarrow> (\<forall>c. 0 < link c \<longrightarrow> (case m c of (Inl _, c') \<Rightarrow> quiet c c' | (Inr _, c') \<Rightarrow> answered f c c'))"

lemma answers_reply: "answers f (reply f t b)"
  by (simp add: answers_def reply_def sendFrame_def answered_def)

lemma answers_after:
  assumes "preserves quiet m" "\<And>x. answers f (k x)"
  shows "answers f (bindS m k)"
  unfolding answers_def
proof (intro allI impI)
  fix c :: "('a, 'b, 'c, 'd, 'e, 'f, 'g, 'h) Conn"
  assume up: "0 < link c"
  obtain r d where m: "m c = (r, d)" by (cases "m c")
  have q: "quiet c d" using assms(1) m by (auto simp: preserves_def dest: spec [of _ c])
  show "case bindS m k c of (Inl _, c') \<Rightarrow> quiet c c' | (Inr _, c') \<Rightarrow> answered f c c'"
  proof (cases r)
    case (Inl ex)
    then show ?thesis using m q by (simp add: bindS_def)
  next
    case (Inr x)
    have "0 < link d" using up q by (simp add: quiet_def)
    then have "case k x d of (Inl _, c') \<Rightarrow> quiet d c' | (Inr _, c') \<Rightarrow> answered f d c'"
      using assms(2) [of x] by (simp add: answers_def)
    then show ?thesis using m q Inr by (auto simp: bindS_def quiet_def answered_def split: prod.splits sum.splits)
  qed
qed

lemma answers_then_quiet:
  assumes "answers f m" "\<And>x c. fst (k x c) = Inr () \<and> quiet c (snd (k x c))"
  shows "answers f (bindS m k)"
  unfolding answers_def
proof (intro allI impI)
  fix c :: "('a, 'b, 'c, 'd, 'e, 'f, 'g, 'h) Conn"
  assume "0 < link c"
  with assms(1) have m: "case m c of (Inl _, c') \<Rightarrow> quiet c c' | (Inr _, c') \<Rightarrow> answered f c c'" by (simp add: answers_def)
  show "case bindS m k c of (Inl _, c') \<Rightarrow> quiet c c' | (Inr _, c') \<Rightarrow> answered f c c'"
  proof (cases "m c")
    case (Pair r d)
    show ?thesis
    proof (cases r)
      case (Inl ex)
      with Pair m show ?thesis by (simp add: bindS_def)
    next
      case (Inr x)
      obtain y e where "k x d = (y, e)" by (cases "k x d")
      with assms(2) [of x d] Pair Inr m show ?thesis by (auto simp: bindS_def quiet_def answered_def)
    qed
  qed
qed

lemma answers_caught:
  assumes "answers f m" "0 < link c"
  shows "\<exists>c'. catchS m (\<lambda>_. reply f t b) c = (Inr (), c') \<and> answered f c c'"
proof (cases "m c")
  case (Pair r d)
  have "case m c of (Inl _, c') \<Rightarrow> quiet c c' | (Inr _, c') \<Rightarrow> answered f c c'" using assms by (simp add: answers_def)
  with Pair assms(2) show ?thesis
    by (cases r) (auto simp: catchS_def reply_def sendFrame_def quiet_def answered_def)
qed

lemma quiet_refl_trans: "reflp quiet" "transp quiet"
  by (auto simp: reflp_def transp_def quiet_def)

lemma quiet_views: "preserves quiet (onAuth m)" "preserves quiet (onTransfer n)"
  by (auto simp: preserves_def onAuth_def onTransfer_def zoomS_def quiet_def split: prod.splits)

lemma quiet_getS: "preserves quiet (getS g)"
  by (rule preserves_getS) (rule quiet_refl_trans)

lemma answers_option: "(\<And>x. answers f (m x)) \<Longrightarrow> answers f n \<Longrightarrow> answers f (case y of None \<Rightarrow> n | Some x \<Rightarrow> m x)"
  by (cases y) simp_all

lemma quiet_set_token: "preserves quiet (\<lambda>c. (Inr (), c\<lparr>connToken := x\<rparr>))"
  by (simp add: preserves_def quiet_def)

lemma answers_reply_at:
  "quiet c d \<Longrightarrow> 0 < link c \<Longrightarrow>
    (case reply f t b d of (Inl _, c') \<Rightarrow> quiet c c' | (Inr _, c') \<Rightarrow> answered f c c')"
  by (simp add: reply_def sendFrame_def answered_def quiet_def)

lemma quiet_pending: "quiet c (c\<lparr>pendingInit := i, pendingData := d\<rparr>)" "quiet c (c\<lparr>pendingData := d\<rparr>)" "quiet c c"
  by (simp_all add: quiet_def)

lemma answers_local_case:
  "(\<And>c. 0 < link c \<Longrightarrow> case m c of (Inl _, c') \<Rightarrow> quiet c c' | (Inr _, c') \<Rightarrow> answered f c c') \<Longrightarrow> answers f m"
  by (simp add: answers_def)

lemma register_answers: "0 < link c \<Longrightarrow> \<exists>c'. handle_register P e f c = (Inr (), c') \<and> answered f c c'"
  unfolding handle_register_def Let_def
  by (intro answers_caught answers_after answers_reply quiet_views quiet_getS)

lemma auth_answers: "0 < link c \<Longrightarrow> \<exists>c'. handle_auth P e f c = (Inr (), c') \<and> answered f c c'"
  unfolding handle_auth_def Let_def
  by (intro answers_caught answers_option answers_after answers_reply quiet_views quiet_getS quiet_set_token)

lemma admin_answers: "0 < link c \<Longrightarrow> \<exists>c'. handle_admin P e f c = (Inr (), c') \<and> answered f c c'"
  unfolding handle_admin_def Let_def
  by (intro answers_caught answers_after answers_reply quiet_views quiet_getS)

lemma upload_init_answers: "0 < link c \<Longrightarrow> \<exists>c'. handle_upload_init P e f c = (Inr (), c') \<and> answered f c c'"
  unfolding handle_upload_init_def
  by (intro answers_caught answers_after quiet_getS answers_local_case)
     (simp_all add: answers_reply_at quiet_pending split: sum.split)

lemma upload_data_answers: "0 < link c \<Longrightarrow> \<exists>c'. handle_upload_data f c = (Inr (), c') \<and> answered f c c'"
  unfolding handle_upload_data_def
  by (intro answers_caught answers_after quiet_getS answers_local_case)
     (simp_all add: answers_reply_at quiet_pending split: option.split)

lemma answers_at: "answers f m \<Longrightarrow> 0 < link c \<Longrightarrow> case m c of (Inl _, c') \<Rightarrow> quiet c c' | (Inr _, c') \<Rightarrow> answered f c c'"
  by (simp add: answers_def)

lemma upload_commit_answers: "0 < link c \<Longrightarrow> \<exists>c'. handle_upload_commit P e f c = (Inr (), c') \<and> answered f c c'"
  unfolding handle_upload_commit_def Let_def
proof (rule answers_caught, rule answers_local_case, goal_cases)
  case (1 c)
  have body: "answers f (bindS (onTransfer m) (\<lambda>res.
       case (got res :: Transfer option) of
         Some t \<Rightarrow> bindS (reply f UPLOAD_COMMIT (bytes_of_string (tid (transfer_id t)))) (\<lambda>_ c.
           (Inr (), c\<lparr>pendingInit := AList.delete k (pendingInit c), pendingData := AList.delete k (pendingData c)\<rparr>))
       | None \<Rightarrow> reply f ERR (bytes_of_string (error res))))" for m k
    by (intro answers_after answers_option answers_then_quiet answers_reply quiet_views) (simp_all add: quiet_def)
  show ?case
    using answers_at [OF answers_reply 1(2)] answers_at [OF body 1(2)] by (simp split: option.split)
next
  case 2
  then show ?case .
qed

lemma download_answers: "0 < link c \<Longrightarrow> \<exists>c'. handle_download P e f c = (Inr (), c') \<and> answered f c c'"
  unfolding handle_download_def Let_def
proof (rule answers_caught, rule answers_after [OF quiet_getS], rule answers_local_case, goal_cases)
  case (1 req c)
  show ?case
    by (rule answers_at [OF _ 1(2)]) (intro answers_after answers_option answers_reply quiet_views)
next
  case 2
  then show ?case .
qed

lemma reply_answers: "0 < link c \<Longrightarrow> \<exists>c'. reply f t b c = (Inr (), c') \<and> answered f c c'"
  by (simp add: reply_def sendFrame_def answered_def)

lemma logout_answers: "answers f (handle_logout P f)"
  unfolding handle_logout_def Let_def
  by (intro answers_after answers_then_quiet answers_reply quiet_views) (simp_all add: quiet_def)

lemma handle_answers:
  assumes "0 < link c" "ftype f \<noteq> LOGOUT"
  shows "\<exists>c'. handle P e f c = (Inr (), c') \<and> answered f c c'"
  using assms
  by (cases "ftype f")
     (simp_all add: handle_def register_answers auth_answers admin_answers upload_init_answers upload_data_answers
       upload_commit_answers download_answers reply_answers)

section \<open>Relations every frame keeps\<close>

text \<open>
  A relation between the states of a connection that holds across each elementary change a
  handler of the server makes (a step of the authentication or administration service, an
  audit record, a frame sent) holds across every frame but a commit; one that also holds
  across the changes of a commit, which leave users and sessions alone, holds across whole
  connections.
\<close>

locale frame_relation =
  fixes P :: "('r, 'h, 's, 'a, 'd, 'k, 'f, 't) ServerPorts"
    and R :: "('r, 'h, 's, 'a, 'd, 'k, 'f, 't) Conn \<Rightarrow> ('r, 'h, 's, 'a, 'd, 'k, 'f, 't) Conn \<Rightarrow> bool"
  assumes R_refl: "R c c"
    and R_trans: "R c c' \<Longrightarrow> R c' c'' \<Longrightarrow> R c c''"
    and R_sent: "R c (c\<lparr>written := fs, link := n\<rparr>)"
    and R_auth: "service_step (auth_service P) (auth_view (stores c)) x \<Longrightarrow> R c (c\<lparr>stores := put_auth x (stores c)\<rparr>)"
    and R_audit: "R c (c\<lparr>stores := put_transfer (transfer_view (stores c)\<lparr>ts_audit := a\<rparr>) (stores c)\<rparr>)"
    and R_token: "R c (c\<lparr>connToken := t\<rparr>)"
    and R_init: "validate (ui_origName i) (ui_size i) fake_header = Inr () \<Longrightarrow>
       R c (c\<lparr>pendingInit := AList.update (ui_uploadId i) i (pendingInit c), pendingData := AList.update (ui_uploadId i) [] (pendingData c)\<rparr>)"
    and R_chunk: "map_of (pendingData c) k = Some v \<Longrightarrow> R c (c\<lparr>pendingData := AList.update k w (pendingData c)\<rparr>)"
begin

lemma refl_trans: "reflp R" "transp R"
  using R_refl R_trans by (auto simp: reflp_def transp_def)

lemma keeps_reply: "preserves R (reply f t b)"
  by (simp add: preserves_def reply_def sendFrame_def R_refl R_sent)

lemma keeps_auth: "(\<And>s. service_step (auth_service P) s (snd (m s))) \<Longrightarrow> preserves R (onAuth m)"
  by (simp add: preserves_def onAuth_def zoomS_def R_auth case_prod_beta)

lemma keeps_services:
  "preserves R (onAuth (registerUser (auth_service P) rdSalt rdId u mail pw rl))"
  "preserves R (onAuth (login (auth_service P) rd now u pw))"
  "preserves R (onAuth (logout (auth_service P) tok))"
  "preserves R (onAuth (if b then activate (auth_service P) now tok tgt else deactivate (auth_service P) now tok tgt))"
  by (auto intro!: keeps_auth intro: service_step.intros prod.collapse [symmetric])

lemma keeps_audits: "preserves only_audits m \<Longrightarrow> preserves R (onTransfer m)"
  unfolding preserves_def
proof (intro allI)
  fix c :: "('r, 'h, 's, 'a, 'd, 'k, 'f, 't) Conn"
  assume keep: "\<forall>s. only_audits s (snd (m s))"
  obtain r s where m: "m (transfer_view (stores c)) = (r, s)" by (cases "m (transfer_view (stores c))")
  then obtain a where "s = transfer_view (stores c)\<lparr>ts_audit := a\<rparr>"
    using spec [OF keep, of "transfer_view (stores c)"] by (auto simp: only_audits_def)
  with m show "R c (snd (onTransfer m c))" by (simp add: onTransfer_def zoomS_def R_audit)
qed

lemma keeps_token: "preserves R (\<lambda>c. (Inr (), c\<lparr>connToken := t\<rparr>))"
  by (simp add: preserves_def R_token)

lemma keeps_getS: "preserves R (getS g)"
  by (rule preserves_getS) (rule refl_trans)

lemma keeps_bindS: "preserves R m \<Longrightarrow> (\<And>x. preserves R (k x)) \<Longrightarrow> preserves R (bindS m k)"
  by (rule preserves_bindS) (rule refl_trans)

lemma keeps_catchS: "preserves R m \<Longrightarrow> (\<And>x. preserves R (h x)) \<Longrightarrow> preserves R (catchS m h)"
  by (rule preserves_catchS) (rule refl_trans)

lemma keeps_option: "(\<And>x. preserves R (m x)) \<Longrightarrow> preserves R n \<Longrightarrow> preserves R (case y of None \<Rightarrow> n | Some x \<Rightarrow> m x)"
  by (cases y) simp_all

lemma keeps_reply_at: "R c d \<Longrightarrow> R c (snd (reply f t b d))"
  using keeps_reply R_trans unfolding preserves_def by blast

lemmas keeps_rules = keeps_bindS keeps_catchS keeps_option keeps_reply keeps_services keeps_token keeps_getS

lemma keeps_register: "preserves R (handle_register P e f)"
  unfolding handle_register_def Let_def by (intro keeps_rules)

lemma keeps_login: "preserves R (handle_auth P e f)"
  unfolding handle_auth_def Let_def by (intro keeps_rules)

lemma keeps_admin: "preserves R (handle_admin P e f)"
  unfolding handle_admin_def Let_def by (intro keeps_rules)

lemma keeps_logout: "preserves R (handle_logout P f)"
  unfolding handle_logout_def Let_def
  by (intro keeps_bindS keeps_services keeps_reply) (simp add: preserves_def R_refl R_token)

lemma keeps_upload_init: "preserves R (handle_upload_init P e f)"
  unfolding handle_upload_init_def
  by (intro keeps_catchS keeps_bindS keeps_getS keeps_reply)
     (simp add: preserves_def keeps_reply_at R_refl R_init split: sum.split)

lemma keeps_upload_data: "preserves R (handle_upload_data f)"
  unfolding handle_upload_data_def
  by (intro keeps_catchS keeps_bindS keeps_getS keeps_reply)
     (simp add: preserves_def keeps_reply_at R_refl R_chunk split: option.split)

lemma keeps_download: "preserves R (handle_download P e f)"
  unfolding handle_download_def Let_def
proof (rule keeps_catchS, rule keeps_bindS [OF keeps_getS], unfold preserves_def, rule allI, goal_cases)
  case (1 req c)
  have "preserves R (bindS (onTransfer (download (transfer_service P) (now1 e) tok f')) (\<lambda>res.
      case got res of Some opaque \<Rightarrow> reply f DOWNLOAD_DATA opaque | None \<Rightarrow> reply f ERR (bytes_of_string (error res))))" for tok f'
    by (intro keeps_rules keeps_audits download_only_audits)
  then show ?case by (simp add: preserves_def)
next
  case (2 x)
  then show ?case using keeps_reply by (simp add: preserves_def)
qed

lemma keeps_frame: "ftype f \<noteq> UPLOAD_COMMIT \<Longrightarrow> preserves R (handle P e f)"
  by (cases "ftype f")
     (simp_all add: handle_def keeps_register keeps_login keeps_admin keeps_logout keeps_upload_init keeps_upload_data
       keeps_download keeps_reply)

end

locale connection_relation = frame_relation P R
  for P :: "('r, 'h, 's, 'a, 'd, 'k, 'f, 't) ServerPorts"
    and R :: "('r, 'h, 's, 'a, 'd, 'k, 'f, 't) Conn \<Rightarrow> ('r, 'h, 's, 'a, 'd, 'k, 'f, 't) Conn \<Rightarrow> bool" +
  assumes R_transfer: "same_accounts (transfer_view (stores c)) x \<Longrightarrow> R c (c\<lparr>stores := put_transfer x (stores c)\<rparr>)"
    and R_done: "R c (c\<lparr>pendingInit := AList.delete k (pendingInit c), pendingData := AList.delete k (pendingData c)\<rparr>)"
begin

lemma keeps_transfer: "preserves same_accounts m \<Longrightarrow> preserves R (onTransfer m)"
  by (simp add: preserves_def onTransfer_def zoomS_def R_transfer case_prod_beta)

lemma keeps_done:
  "preserves R (\<lambda>c. (Inr (), c\<lparr>pendingInit := AList.delete k (pendingInit c), pendingData := AList.delete k (pendingData c)\<rparr>))"
  by (simp add: preserves_def R_done)

lemma keeps_upload_commit: "preserves R (handle_upload_commit P e f)"
  unfolding handle_upload_commit_def Let_def
proof (rule keeps_catchS, unfold preserves_def, rule allI, goal_cases)
  case (1 c)
  have "preserves R (bindS (onTransfer m) (\<lambda>res.
       case (got res :: Transfer option) of
         Some t \<Rightarrow> bindS (reply f UPLOAD_COMMIT (bytes_of_string (tid (transfer_id t)))) (\<lambda>_ c.
           (Inr (), c\<lparr>pendingInit := AList.delete k (pendingInit c), pendingData := AList.delete k (pendingData c)\<rparr>))
       | None \<Rightarrow> reply f ERR (bytes_of_string (error res))))" if "preserves same_accounts m" for m k
    using that by (intro keeps_rules keeps_transfer keeps_done)
  from this [OF upload_same_accounts] show ?case using keeps_reply by (simp add: preserves_def split: option.split)
next
  case (2 x)
  then show ?case using keeps_reply by (simp add: preserves_def)
qed

lemma keeps_handle: "preserves R (handle P e f)"
  using keeps_frame [of f e] keeps_upload_commit [of e f] by (cases "ftype f = UPLOAD_COMMIT") (simp_all add: handle_def)

lemma keeps_serve: "R c (serve P fs c)"
proof (induction fs arbitrary: c)
  case (Cons p fs)
  obtain e f where p: "p = (e, f)" by (cases p)
  have h: "R c (snd (handle P e f c))" using keeps_handle by (simp add: preserves_def)
  show ?case
  proof (cases "handle P e f c")
    case (Pair r d)
    then show ?thesis using h Cons.IH [of d] R_trans p by (cases r) auto
  qed
qed (simp add: R_refl)

end

text \<open>
  The two relations: the records and blobs are as before; and the two maps of pending
  uploads go together, with every announced upload under its own identifier and its name
  and size validated.
\<close>

definition same_files :: "('r, 'h, 's, 'a, 'd, 'k, 'f, 't) Conn \<Rightarrow> ('r, 'h, 's, 'a, 'd, 'k, 'f, 't) Conn \<Rightarrow> bool" where
  "same_files c c' \<longleftrightarrow> sv_files (stores c') = sv_files (stores c) \<and> sv_storage (stores c') = sv_storage (stores c)"

definition pending_ok :: "('r, 'h, 's, 'a, 'd, 'k, 'f, 't) Conn \<Rightarrow> bool" where
  "pending_ok c \<longleftrightarrow> dom (map_of (pendingInit c)) = dom (map_of (pendingData c))
     \<and> (\<forall>k i. map_of (pendingInit c) k = Some i \<longrightarrow>
          ui_uploadId i = k \<and> validate (ui_origName i) (ui_size i) fake_header = Inr ())"

interpretation filesafe: frame_relation P same_files for P
  by unfold_locales (simp_all add: same_files_def put_auth_def put_transfer_def transfer_view_def)

lemma dom_update_alist: "dom (map_of (AList.update k v m)) = insert k (dom (map_of m))"
  by (auto simp: update_conv')

lemma dom_delete_alist: "dom (map_of (AList.delete k m)) = dom (map_of m) - {k}"
  by (auto simp: delete_conv')

lemma pending_ok_same:
  "pendingInit c' = pendingInit c \<Longrightarrow> pendingData c' = pendingData c \<Longrightarrow> pending_ok c \<longrightarrow> pending_ok c'"
  by (simp add: pending_ok_def)

interpretation pending: connection_relation P "\<lambda>c c'. pending_ok c \<longrightarrow> pending_ok c'" for P
proof (unfold_locales, goal_cases)
  case (7 i c)
  then show ?case unfolding pending_ok_def by (auto simp: dom_update_alist update_conv' simp del: dom_map_of_conv_image_fst)
next
  case (8 c k v w)
  then have "k \<in> dom (map_of (pendingData c))" by blast
  then show ?case by (simp add: pending_ok_def dom_update_alist insert_absorb)
next
  case (10 c k)
  then show ?case unfolding pending_ok_def by (auto simp: dom_delete_alist delete_conv' restrict_map_def)
qed (blast, blast, (rule pending_ok_same; simp)+)

text \<open>
  The invariants of the two services, for a server whose ports keep the laws of
  \<open>auth_core\<close>: the repository is consistent, and the administrators and live sessions are kept
  as each step of a service keeps them.
\<close>

definition accounts_kept ::
  "('r \<Rightarrow> bool) \<Rightarrow> ('r \<Rightarrow> string \<Rightarrow> User option) \<Rightarrow> ('s \<Rightarrow> SessionId \<Rightarrow> Session option)
   \<Rightarrow> ('r, 'h, 's, 'a, 'd, 'k, 'f, 't) Conn \<Rightarrow> ('r, 'h, 's, 'a, 'd, 'k, 'f, 't) Conn \<Rightarrow> bool" where
  "accounts_kept consistent users_of sess_of c c' \<longleftrightarrow> (consistent (sv_users (stores c)) \<longrightarrow> consistent (sv_users (stores c'))
     \<and> keeps (users_of (sv_users (stores c))) (sess_of (sv_sessions (stores c))) (users_of (sv_users (stores c'))) (sess_of (sv_sessions (stores c'))))"

lemma accounts_kept_trans:
  "accounts_kept i u se c c' \<Longrightarrow> accounts_kept i u se c' c'' \<Longrightarrow> accounts_kept i u se c c''"
  by (auto simp: accounts_kept_def keeps_def)

lemma accounts_relation:
  assumes "auth_core (auth_service P) consistent users_of hashes sess_of"
  shows "connection_relation P (accounts_kept consistent users_of sess_of)"
proof (unfold_locales, goal_cases)
  case 2
  then show ?case by (rule accounts_kept_trans)
next
  case (4 c x)
  then show ?case using auth_core.step_keeps [OF assms 4] by (simp add: accounts_kept_def auth_view_def put_auth_def)
qed (simp_all add: accounts_kept_def put_transfer_def transfer_view_def same_accounts_def)

text \<open>The server over the in-memory stores, with one user and a session, for the examples.\<close>

definition demo_transfers :: "unit ITransferRepository" where
  "demo_transfers = \<lparr>saveTransfer = (\<lambda>_. retS ()), findTransfer = (\<lambda>_ _. Inr (failure ''not found'')), listTransfers = (\<lambda>_ _. Inr [])\<rparr>"

definition demo_server ::
  "(MemoryUserRepository, FakeHasher, MemorySessionStore, VectorAudit, BinaryFileStorage, MemoryPubkeyDirectory, MemoryFileRepository, unit) ServerPorts" where
  "demo_server = \<lparr>userRepo = memory_users, hasher = fake_hasher, sessions = memory_sessions, audit = vector_audit,
     blobStore = binary_storage good_disk, pubkeyDir = memory_keys, fileRepo = memory_files, transferRepo = demo_transfers\<rparr>"

definition demo_stores ::
  "(MemoryUserRepository, FakeHasher, MemorySessionStore, VectorAudit, BinaryFileStorage, MemoryPubkeyDirectory, MemoryFileRepository, unit) Stores" where
  "demo_stores = \<lparr>sv_users = ts_users demo_transfer, sv_hasher = st_hasher (demo_state 0), sv_sessions = ts_sessions demo_transfer,
     sv_audit = \<lparr>vlog = []\<rparr>, sv_storage = ts_storage demo_transfer, sv_keys = ts_keys demo_transfer,
     sv_files = emptyMemoryFileRepository, sv_transfers = (), sv_cwd = []\<rparr>"

definition demo_env :: env where
  "demo_env = \<lparr>now1 = 2000, now2 = 2000, now3 = 2001, rd1 = (\<lambda>_. 1), rd2 = (\<lambda>_. 2), rd3 = (\<lambda>_. 3)\<rparr>"

section \<open>Accepted frames\<close>

abbreviation answer_frame :: "MsgType \<Rightarrow> Frame \<Rightarrow> bytes \<Rightarrow> Frame" where
  "answer_frame t f b \<equiv> \<lparr>ftype = t, requestId = requestId f, body = b\<rparr>"

lemma init_accepted:
  assumes "0 < link c" "ftype f = UPLOAD_INIT" "decodeUploadInit (body f) = Inr i" "connToken c \<noteq> []"
    "isValid (sessions P) (SessionId (connToken c)) (now1 e) (sv_sessions (stores c))"
    "validate (ui_origName i) (ui_size i) fake_header = Inr ()"
  shows "handle P e f c = (Inr (), c\<lparr>pendingInit := AList.update (ui_uploadId i) i (pendingInit c),
      pendingData := AList.update (ui_uploadId i) [] (pendingData c),
      written := written c @ [answer_frame UPLOAD_INIT f (bytes_of_string ''ok'')], link := link c - 1\<rparr>)"
  using assms by (simp add: handle_def handle_upload_init_def catchS_def bindS_def getS_def reply_def sendFrame_def)

lemma auth_accepted:
  assumes "0 < link c" "ftype f = AUTH" "decodeLogin (body f) = Inr pl"
    "login (auth_service P) (rd1 e) (now1 e) (lp_username pl) (lp_password pl) (auth_view (stores c)) = (Inr (success tok), x)"
  shows "handle P e f c = (Inr (), c\<lparr>stores := put_auth x (stores c), connToken := sid tok, link := link c - 1,
      written := written c @ [answer_frame AUTH f (bytes_of_string (sid tok))]\<rparr>)"
  using assms by (simp add: handle_def handle_auth_def catchS_def bindS_def getS_def onAuth_def zoomS_def reply_def sendFrame_def)

lemma demo_server_login:
  "\<exists>x. login (auth_service demo_server) (\<lambda>_. 1) 2000 ''bob'' ''password'' (auth_view demo_stores) = (Inr (success (generateSessionId (\<lambda>_. 1))), x)
     \<and> isValid memory_sessions (generateSessionId (\<lambda>_. 1)) 2000 (st_sessions x)"
proof -
  let ?P = "mem_ports vector_audit" and ?s = "auth_view demo_stores"
  have P: "auth_service demo_server = ?P" by (simp add: auth_service_def demo_server_def mem_ports_def)
  have r: "st_repo ?s = demo_repo 0" "st_hasher ?s = st_hasher (demo_state 0)"
    by (simp_all add: auth_view_def demo_stores_def demo_transfer_def)
  have p: "mem_inv (st_repo ?s)" "mem_users (st_repo ?s) ''1'' = Some (demo_user 0)"
    "username (demo_user 0) = ''bob''" "canLogin (demo_user 0) 2000" "mem_hashes (st_repo ?s) ''1'' = Some ''h''"
    by (simp_all add: r)
  have v: "verify_password (p_hasher ?P) ''h'' ''password'' (st_hasher ?s)"
    by (simp add: r fake_hasher_def FakeHasher_verify_def)
  obtain q ss where l: "login ?P (\<lambda>_. 1) 2000 ''bob'' ''password'' ?s
      = auditing ?P (event ''bob'' ''LOGIN_OK'' '''') (success (generateSessionId (\<lambda>_. 1))) (?s\<lparr>st_repo := q, st_sessions := ss\<rparr>)"
    "mem_sess ss (generateSessionId (\<lambda>_. 1)) = Some (new_session (generateSessionId (\<lambda>_. 1)) (user_id (demo_user 0)) 2000)"
    using memcore.login_right_password [OF p v, of "\<lambda>_. 1"] by blast
  obtain x where x: "auditing ?P (event ''bob'' ''LOGIN_OK'' '''') (success (generateSessionId (\<lambda>_. 1))) (?s\<lparr>st_repo := q, st_sessions := ss\<rparr>)
      = (Inr (success (generateSessionId (\<lambda>_. 1))), x)" "st_sessions x = ss"
    using memauth.auditing_ok [where e = "event ''bob'' ''LOGIN_OK'' ''''" and x = "success (generateSessionId (\<lambda>_. 1))"
        and s = "?s\<lparr>st_repo := q, st_sessions := ss\<rparr>"] by auto
  show ?thesis using l x by (auto simp: P memsess.isValid new_session_def session_isValid_def session_ms_def)
qed

section \<open>Properties\<close>

text \<open>
  C17. Every request is answered: while the peer is there, handling a frame writes exactly
  one frame, which carries the identifier of the request, and the loop goes on. The only
  exception is a logout whose audit record throws: it ends the connection without an answer.
\<close>

theorem every_frame_answered:
  assumes "0 < link c" "handle P e f c = (r, c')"
  shows "r = Inr () \<and> (\<exists>g. written c' = written c @ [g] \<and> requestId g = requestId f)
    \<or> ftype f = LOGOUT \<and> (\<exists>ex. r = Inl ex) \<and> written c' = written c"
proof (cases "ftype f = LOGOUT")
  case False
  then show ?thesis using handle_answers [OF assms(1), of f P e] assms(2) by (auto simp: answered_def)
next
  case True
  then have "handle P e f = handle_logout P f" by (simp add: handle_def)
  then show ?thesis
    using answers_at [OF logout_answers assms(1), of f P] assms(2) True
    by (cases r) (auto simp: answered_def quiet_def)
qed

text \<open>
  C18. On every connection, whatever frames arrive, the two maps of pending uploads have the
  same keys, and every pending upload is filed under its own identifier and has a name and
  size that passed the validator.
\<close>

theorem pending_uploads_validated:
  "dom (map_of (pendingInit (serve P fs (accept n s)))) = dom (map_of (pendingData (serve P fs (accept n s))))
   \<and> (\<forall>k i. map_of (pendingInit (serve P fs (accept n s))) k = Some i \<longrightarrow>
        ui_uploadId i = k \<and> validate (ui_origName i) (ui_size i) fake_header = Inr ())"
  using pending.keeps_serve [of "accept n s" P fs] by (simp add: pending_ok_def accept_def)

text \<open>
  C8. The invariants hold in the running server: whatever connections are served, one after
  the other, whatever frames arrive on them, whatever the audit log, the storage and the
  other repositories do, the user repository stays consistent, an active administrator
  remains once there is one, and every session that is not revoked belongs to an active user.
\<close>

theorem server_invariants:
  assumes "auth_core (auth_service P) consistent users_of hashes sess_of" "consistent (sv_users s)" "active_admins (users_of (sv_users s)) \<noteq> {}"
    "sessions_live (users_of (sv_users s)) (sess_of (sv_sessions s))"
  shows "let s' = accept_loop P cs s in consistent (sv_users s') \<and> active_admins (users_of (sv_users s')) \<noteq> {}
     \<and> sessions_live (users_of (sv_users s')) (sess_of (sv_sessions s'))"
  using assms(2-4)
proof (induction cs arbitrary: s)
  case (Cons p cs)
  obtain n fs where p: "p = (n, fs)" by (cases p)
  have "accounts_kept consistent users_of sess_of (accept n s) (serve P fs (accept n s))"
    by (rule connection_relation.keeps_serve [OF accounts_relation [OF assms(1)]])
  then show ?case using Cons.IH [of "stores (serve P fs (accept n s))"] Cons.prems p
    by (simp add: accounts_kept_def keeps_def accept_def)
qed simp

theorem every_frame_answered_witness:
  "\<exists>c'. handle demo_server demo_env \<lparr>ftype = LIST, requestId = 9, body = []\<rparr> (accept 1 demo_stores) = (Inr (), c')
     \<and> (\<exists>g. written c' = [g] \<and> requestId g = 9)"
proof -
  let ?f = "\<lparr>ftype = LIST, requestId = 9, body = []\<rparr>"
  obtain r c' where run: "handle demo_server demo_env ?f (accept 1 demo_stores) = (r, c')"
    by (cases "handle demo_server demo_env ?f (accept 1 demo_stores)")
  show ?thesis using every_frame_answered [OF _ run] run by (simp add: accept_def)
qed

text \<open>A client logs in and announces an upload, which the server accepts.\<close>

definition demo_init :: UploadInit where
  "demo_init = \<lparr>ui_recipient = ''bob'', ui_origName = ''a.pdf'', ui_uploadId = ''up1'', ui_size = 3, ui_digest = Digest (replicate 32 7),
     ui_wrapped = \<lparr>recipientId = UserId ''bob'', nonce = replicate 12 1, wbytes = replicate 64 2, alg = seal_alg\<rparr>\<rparr>"

theorem pending_uploads_validated_witness:
  "let c = serve demo_server
       [(demo_env, \<lparr>ftype = AUTH, requestId = 1, body = encodeLogin ''bob'' ''password''\<rparr>),
        (demo_env, \<lparr>ftype = UPLOAD_INIT, requestId = 2, body = encodeUploadInit demo_init\<rparr>)] (accept 9 demo_stores)
   in map_of (pendingInit c) ''up1'' = Some demo_init \<and> map_of (pendingData c) ''up1'' \<noteq> None
      \<and> validate (ui_origName demo_init) (ui_size demo_init) fake_header = Inr ()"
proof -
  let ?f = "\<lparr>ftype = AUTH, requestId = 1, body = encodeLogin ''bob'' ''password''\<rparr>"
  let ?g = "\<lparr>ftype = UPLOAD_INIT, requestId = 2, body = encodeUploadInit demo_init\<rparr>"
  let ?c = "serve demo_server [(demo_env, ?f), (demo_env, ?g)] (accept 9 demo_stores)"
  obtain x where x: "login (auth_service demo_server) (\<lambda>_. 1) 2000 ''bob'' ''password'' (auth_view demo_stores) = (Inr (success (generateSessionId (\<lambda>_. 1))), x)"
    "isValid memory_sessions (generateSessionId (\<lambda>_. 1)) 2000 (st_sessions x)" using demo_server_login by blast
  have dl: "decodeLogin (encodeLogin ''bob'' ''password'') = Inr \<lparr>lp_username = ''bob'', lp_password = ''password''\<rparr>"
    using decodeLogin_encode [of "''bob''" "''password''" "[]"] by simp
  have di: "decodeUploadInit (encodeUploadInit demo_init) = Inr demo_init"
    using decodeUploadInit_encode [of demo_init "[]"] by (simp add: demo_init_def init_fits_def digest_wf_def seal_alg_def)
  have v: "validate (ui_origName demo_init) (ui_size demo_init) fake_header = Inr ()" by code_simp
  define c1 where "c1 = snd (handle demo_server demo_env ?f (accept 9 demo_stores))"
  have c1: "handle demo_server demo_env ?f (accept 9 demo_stores) = (Inr (), c1)" "connToken c1 = sid (generateSessionId (\<lambda>_. 1))"
    "link c1 = 8" "sv_sessions (stores c1) = st_sessions x" "pendingInit c1 = []"
    using auth_accepted [of "accept 9 demo_stores" ?f _ demo_server demo_env] dl x(1)
    by (simp_all add: c1_def accept_def demo_env_def put_auth_def)
  have tok: "connToken c1 \<noteq> []" "SessionId (connToken c1) = generateSessionId (\<lambda>_. 1)"
    unfolding c1(2) by (simp_all add: generateSessionId_def Let_def)
  have "handle demo_server demo_env ?g c1 = (Inr (), c1\<lparr>pendingInit := AList.update ''up1'' demo_init (pendingInit c1),
      pendingData := AList.update ''up1'' [] (pendingData c1), written := written c1 @ [answer_frame UPLOAD_INIT ?g (bytes_of_string ''ok'')], link := link c1 - 1\<rparr>)"
    using init_accepted [of c1 ?g demo_init demo_server demo_env] c1(3,4) tok x(2) di v
    by (simp add: demo_server_def demo_env_def) (simp add: demo_init_def)
  then have "map_of (pendingInit ?c) ''up1'' = Some demo_init" using c1(1) by (simp add: update_conv')
  then show ?thesis unfolding Let_def
    using pending_uploads_validated [of demo_server "[(demo_env, ?f), (demo_env, ?g)]" 9 demo_stores] by (auto simp del: serve.simps)
qed

theorem server_invariants_witness:
  "let s = demo_stores\<lparr>sv_users := st_repo demo_admin_state, sv_sessions := st_sessions demo_admin_state\<rparr>;
       f = \<lparr>ftype = ADMIN_DEACTIVATE, requestId = 1, body = encodeAdmin ''t'' ''1''\<rparr>
   in active_admins (mem_users (sv_users (accept_loop demo_server [(9, [(demo_env, f)])] s))) \<noteq> {}"
proof -
  let ?s = "demo_stores\<lparr>sv_users := st_repo demo_admin_state, sv_sessions := st_sessions demo_admin_state\<rparr>"
  have "auth_service demo_server = mem_ports vector_audit" by (simp add: auth_service_def demo_server_def mem_ports_def)
  then have "auth_core (auth_service demo_server) mem_inv mem_users mem_hashes mem_sess" using memcore.auth_core_axioms by simp
  from server_invariants [OF this, of ?s] show ?thesis
    using demo_admin_facts demo_admin_live by (simp add: Let_def del: accept_loop.simps serve.simps)
qed

end
