(* ===== verification/EndToEnd.thy ===== *)
theory EndToEnd
  imports ServerApp ClientApp
begin

text \<open>
  The client and the server put together: a transport whose other end is one connection of
  the server. A frame crosses it as its encoding, so what the receiver's decoder refuses is
  lost with the connection. The properties follow a file from the client's disk through
  encryption, chunked upload, storage and back.
\<close>

section \<open>The connection between client and server\<close>

text \<open>The server's side of the connection, the frames handled and read so far, and whether it is open.\<close>

record ('r, 'h, 's, 'a, 'd, 'k, 'f, 't) World =
  sconn :: "('r, 'h, 's, 'a, 'd, 'k, 'f, 't) Conn"
  tick :: nat
  unread :: nat
  open_conn :: bool

definition world_send ::
  "('r, 'h, 's, 'a, 'd, 'k, 'f, 't) ServerPorts \<Rightarrow> (nat \<Rightarrow> env) \<Rightarrow> Frame \<Rightarrow> (('r, 'h, 's, 'a, 'd, 'k, 'f, 't) World, unit) sx" where
  "world_send P envs f w =
     (if \<not> open_conn w then (Inl (RuntimeError ''write''), w)
      else case tryDecode (encodeFrame f) of
             None \<Rightarrow> (Inr (), w\<lparr>open_conn := False\<rparr>)
           | Some (g, _) \<Rightarrow>
               (case handle P (envs (tick w)) g (sconn w) of
                  (Inl _, c') \<Rightarrow> (Inr (), w\<lparr>sconn := c', tick := Suc (tick w), open_conn := False\<rparr>)
                | (Inr _, c') \<Rightarrow> (Inr (), w\<lparr>sconn := c', tick := Suc (tick w)\<rparr>)))"

definition world_recv :: "(('r, 'h, 's, 'a, 'd, 'k, 'f, 't) World, Frame option) sx" where
  "world_recv w =
     (if unread w < length (written (sconn w))
      then (Inr (map_option fst (tryDecode (encodeFrame (written (sconn w) ! unread w)))), w\<lparr>unread := Suc (unread w)\<rparr>)
      else (Inr None, w))"

definition server_link ::
  "('r, 'h, 's, 'a, 'd, 'k, 'f, 't) ServerPorts \<Rightarrow> (nat \<Rightarrow> env) \<Rightarrow> ('r, 'h, 's, 'a, 'd, 'k, 'f, 't) World ITransport" where
  "server_link P envs = \<lparr>send_frame = world_send P envs, recv_frame = world_recv\<rparr>"

text \<open>The client has read every answer, and the connection is open.\<close>

definition in_step :: "('r, 'h, 's, 'a, 'd, 'k, 'f, 't) World \<Rightarrow> bool" where
  "in_step w \<longleftrightarrow> open_conn w \<and> unread w = length (written (sconn w))"

lemma request_served:
  assumes "in_step (wire c)" "sendable f" "handle P (envs (tick (wire c))) f (sconn (wire c)) = (Inr (), d)"
    "written d = written (sconn (wire c)) @ [g]" "sendable g"
  shows "request (server_link P envs) f c
     = (Inr (Some g), c\<lparr>wire := wire c\<lparr>sconn := d, tick := Suc (tick (wire c)), unread := Suc (unread (wire c))\<rparr>\<rparr>)"
    and "in_step (wire c\<lparr>sconn := d, tick := Suc (tick (wire c)), unread := Suc (unread (wire c))\<rparr>)"
  using assms tryDecode_encodeFrame [of f "[]"] tryDecode_encodeFrame [of g "[]"]
  by (auto simp: request_def server_link_def bindS_def onWire_def zoomS_def world_send_def world_recv_def in_step_def)

section \<open>The three frames of an upload\<close>

lemma chunk_accepted:
  assumes "0 < link c" "ftype f = UPLOAD_DATA" "decodeUploadData (body f) = Inr d"
    "map_of (pendingData c) (ud_uploadId d) = Some v" "ud_offset d = word_of_nat (length v)"
  shows "handle P e f c = (Inr (), c\<lparr>pendingData := AList.update (ud_uploadId d) (v @ ud_chunk d) (pendingData c),
      written := written c @ [answer_frame UPLOAD_DATA f (bytes_of_string ''ok'')], link := link c - 1\<rparr>)"
  using assms by (simp add: handle_def handle_upload_data_def catchS_def bindS_def getS_def reply_def sendFrame_def)

lemma commit_accepted:
  assumes "0 < link c" "ftype f = UPLOAD_COMMIT" "commit_id (body f) = k" "k \<noteq> []" "map_of (pendingInit c) k = Some i"
    "map_of (pendingData c) k = Some v" "connToken c \<noteq> []"
    "isValid (sessions P) (SessionId (connToken c)) (now1 e) (sv_sessions (stores c))"
    "upload (transfer_service P) (now2 e) (now3 e) (rd1 e) (rd2 e) (rd3 e) (SessionId (connToken c)) (ui_recipient i)
       (ui_origName i) v (ui_uploadId i) (ui_size i) (ui_digest i) (ui_wrapped i) (transfer_view (stores c)) = (Inr (success t), s')"
  shows "\<exists>d. handle P e f c = (Inr (), d) \<and> stores d = put_transfer s' (stores c)
     \<and> written d = written c @ [answer_frame UPLOAD_COMMIT f (bytes_of_string (tid (transfer_id t)))]
     \<and> map_of (pendingInit d) k = None \<and> map_of (pendingData d) k = None"
proof -
  have "commit_target (body f) (pendingInit c) = k" using assms(3,4) by (simp add: commit_target_def)
  then show ?thesis
    using assms
    by (simp add: handle_def handle_upload_commit_def catchS_def bindS_def onTransfer_def zoomS_def reply_def sendFrame_def
        delete_conv')
qed

lemma commit_id_body:
  assumes "up \<noteq> []" "length up + 4 < 2 ^ 32"
  shows "commit_id (commit_body up) = up"
proof -
  have "word_of_nat (length up) + 4 = (word_of_nat (length up + 4) :: u32)" by simp
  then have "unat (word_of_nat (length up) + 4 :: u32) = length up + 4"
    using unat_word_of_nat_less [of "length up + 4", where ?'a = 32] assms(2) by simp
  then show ?thesis
    using get32be_put32be [of "word_of_nat (length up)" "bytes_of_string up"] assms(1)
    by (simp add: commit_id_def commit_body_def Let_def) (simp add: bytes_of_string_def)
qed

section \<open>The chunk loop\<close>

text \<open>
  The server holds the first \<open>offset\<close> bytes; the loop leaves it with all of them, and
  everything else as it was.
\<close>

lemma chunk_sendable:
  assumes "length up \<le> 1000" "length chunk \<le> CHUNK"
  shows "sendable \<lparr>ftype = UPLOAD_DATA, requestId = 4, body = encodeUploadData \<lparr>ud_uploadId = up, ud_offset = o', ud_chunk = chunk\<rparr>\<rparr>"
  using assms by (simp add: sendable_def encode_fields CHUNK_def canonical_type_def byte_of_MsgType_def MsgType_of_byte_def)

lemma chunks_delivered:
  assumes "in_step (wire c)" "map_of (pendingData (sconn (wire c))) up = Some (take offset cipher)"
    "length cipher - offset < link (sconn (wire c))" "length up \<le> 1000" "offset \<le> length cipher"
  shows "\<exists>w. send_chunks (server_link P envs) up cipher offset c = (Inr (), c\<lparr>wire := w\<rparr>) \<and> in_step w
     \<and> map_of (pendingData (sconn w)) up = Some cipher \<and> pendingInit (sconn w) = pendingInit (sconn (wire c))
     \<and> stores (sconn w) = stores (sconn (wire c)) \<and> connToken (sconn w) = connToken (sconn (wire c)) \<and> 0 < link (sconn w)"
  using assms
proof (induction "server_link P envs" up cipher offset arbitrary: c rule: send_chunks.induct)
  case (1 up cipher offset)
  show ?case
  proof (cases "offset < length cipher")
    case False
    then have "send_chunks (server_link P envs) up cipher offset c = (Inr (), c)"
      by (subst send_chunks.simps) (simp add: retS_def)
    with False show ?thesis using 1(2-6) by (intro exI [of _ "wire c"]) simp
  next
    case True
    let ?n = "min CHUNK (length cipher - offset)"
    let ?chunk = "take ?n (drop offset cipher)"
    let ?d = "\<lparr>ud_uploadId = up, ud_offset = word_of_nat offset, ud_chunk = ?chunk\<rparr>"
    let ?f = "\<lparr>ftype = UPLOAD_DATA, requestId = 4, body = encodeUploadData ?d\<rparr>"
    let ?w = "wire c"
    let ?g = "answer_frame UPLOAD_DATA ?f (bytes_of_string ''ok'')"
    let ?s = "sconn ?w\<lparr>pendingData := AList.update up (take offset cipher @ ?chunk) (pendingData (sconn ?w)),
        written := written (sconn ?w) @ [?g], link := link (sconn ?w) - 1\<rparr>"
    let ?w' = "?w\<lparr>sconn := ?s, tick := Suc (tick ?w), unread := Suc (unread ?w)\<rparr>"
    have n: "0 < ?n" "?n \<le> CHUNK" "offset + ?n \<le> length cipher" using True by (auto simp: CHUNK_def)
    have "decodeUploadData (encodeUploadData ?d) = Inr ?d"
      using decodeUploadData_encode [of ?d "[]"] 1(5) n(2) by (simp add: CHUNK_def)
    then have h: "handle P (envs (tick ?w)) ?f (sconn ?w) = (Inr (), ?s)"
      using chunk_accepted [of "sconn ?w" ?f ?d "take offset cipher" P "envs (tick ?w)"] 1(3,4,6) by simp
    have "sendable ?g" by (simp add: sendable_def bytes_of_string_def canonical_type_def byte_of_MsgType_def MsgType_of_byte_def)
    then have r: "request (server_link P envs) ?f c = (Inr (Some ?g), c\<lparr>wire := ?w'\<rparr>)" "in_step ?w'"
      using request_served [where envs = envs, OF 1(2) chunk_sendable [OF 1(5)] h] n(2) by simp_all
    have run: "send_chunks (server_link P envs) up cipher offset c
        = send_chunks (server_link P envs) up cipher (offset + ?n) (c\<lparr>wire := ?w'\<rparr>)"
      using True r(1) by (simp add: send_chunks.simps [of _ _ _ offset] bindS_def Let_def)
    have "take offset cipher @ ?chunk = take (offset + ?n) cipher" by (simp add: take_add)
    then have "\<exists>w. send_chunks (server_link P envs) up cipher (offset + ?n) (c\<lparr>wire := ?w'\<rparr>) = (Inr (), (c\<lparr>wire := ?w'\<rparr>)\<lparr>wire := w\<rparr>) \<and> in_step w
     \<and> map_of (pendingData (sconn w)) up = Some cipher \<and> pendingInit (sconn w) = pendingInit (sconn (wire (c\<lparr>wire := ?w'\<rparr>)))
     \<and> stores (sconn w) = stores (sconn (wire (c\<lparr>wire := ?w'\<rparr>))) \<and> connToken (sconn w) = connToken (sconn (wire (c\<lparr>wire := ?w'\<rparr>)))
     \<and> 0 < link (sconn w)"
      using 1(4,5) n r(2) True
      by (intro 1(1) [OF True refl refl, of "Some ?g"]) (simp_all add: update_conv')
    then show ?thesis using run by simp
  qed
qed

section \<open>The client's upload against the server\<close>

definition mem_server ::
  "'a IAuditLogger \<Rightarrow> 't ITransferRepository
   \<Rightarrow> (MemoryUserRepository, FakeHasher, MemorySessionStore, 'a, BinaryFileStorage, MemoryPubkeyDirectory, MemoryFileRepository, 't) ServerPorts" where
  "mem_server A T = \<lparr>userRepo = memory_users, hasher = fake_hasher, sessions = memory_sessions, audit = A,
     blobStore = binary_storage good_disk, pubkeyDir = memory_keys, fileRepo = memory_files, transferRepo = T\<rparr>"

lemma mem_server_transfer [simp]:
  "transfer_service (mem_server A T) = mem_transfer (binary_storage good_disk) (Some T) (Some A)"
  "sessions (mem_server A T) = memory_sessions"
  by (simp_all add: transfer_service_def mem_server_def mem_transfer_def)

lemma transfer_view_put: "transfer_view (put_transfer s' s) = s'"
  by (simp add: transfer_view_def put_transfer_def)

text \<open>A name without a slash is its own normal form, so a validated one ends in \<open>.pdf\<close> as written.\<close>

lemma split_on_plain: "d \<notin> set s \<Longrightarrow> split_on d s = [s]"
  by (induction s) auto

lemma split_on_words: "w \<in> set (split_on d s) \<Longrightarrow> d \<notin> set w"
  by (induction d s arbitrary: w rule: split_on.induct) (auto split: if_splits list.splits)

lemma split_on_nonempty: "split_on d s \<noteq> []"
  by (cases s) (auto split: list.split)

lemma filename_plain: "CHR ''/'' \<notin> set (filename p)"
  unfolding filename_def by (rule split_on_words [OF last_in_set [OF split_on_nonempty]])

lemma validator_header_ok:
  assumes "CHR ''/'' \<notin> set name" "validate name sz fake_header = Inr ()"
  shows "validate name sz (validator_header name opaque) = Inr ()"
proof -
  have v: "name \<noteq> []" "ends_with (lexically_normal name) ''.pdf''" "\<not> contains (lexically_normal name) ''..''"
    using assms(2) by (auto simp: validate_def Let_def split: if_splits)
  have sp: "split_on (CHR ''/'') name = [name]" and hd: "hd name \<noteq> CHR ''/''"
    using assms(1) v(1) by (auto simp: split_on_plain dest: hd_in_set)
  have "lexically_normal name = name \<or> lexically_normal name \<in> {''.'', ''..''}"
    using v(1) sp hd by (auto simp: lexically_normal_def push_def Let_def)
  moreover have "\<not> ends_with ''.'' ''.pdf''" "\<not> ends_with ''..'' ''.pdf''" by (simp_all add: ends_with_def)
  ultimately have "ends_with name ''.pdf''" using v(2) by auto
  then have "length name \<ge> 4 \<and> drop (length name - 4) name = ''.pdf''" by (auto simp: ends_with_def numeral_eq_Suc split: if_splits)
  then have "validator_header name opaque = fake_header \<or> pdf_magic (validator_header name opaque)"
    by (auto simp: validator_header_def Let_def)
  then show ?thesis using assms(2) by (auto simp: validate_def Let_def split: if_splits)
qed

text \<open>The size limit of the validator is below the range of the \<open>int\<close> the cipher takes.\<close>

lemma validated_size:
  assumes "validate name (word_of_nat k) h = Inr ()" "k < 2 ^ 64"
  shows "k < 2 ^ 31"
proof -
  have "unat (word_of_nat k :: u64) \<le> 104857600"
    using assms(1) by (auto simp: validate_def Let_def word_less_nat_alt word_le_nat_alt not_less split: if_splits)
  then show ?thesis using assms(2) unat_word_of_nat_less [of k, where 'a = 64] by simp
qed

lemma init_sendable:
  assumes "length (ui_recipient i) \<le> 1000000" "length (ui_origName i) \<le> 1000000" "length (ui_uploadId i) = 36"
    "length (dbytes (ui_digest i)) = 32" "uid (recipientId (ui_wrapped i)) = ui_recipient i" "length (nonce (ui_wrapped i)) = 12"
    "length (wbytes (ui_wrapped i)) = 64" "alg (ui_wrapped i) = seal_alg"
  shows "sendable \<lparr>ftype = UPLOAD_INIT, requestId = 4, body = encodeUploadInit i\<rparr>"
    and "decodeUploadInit (encodeUploadInit i) = Inr i"
  using assms decodeUploadInit_encode [of i "[]"]
  by (simp_all add: init_fits_def sendable_def encode_fields seal_alg_def digest_wf_def canonical_type_def byte_of_MsgType_def MsgType_of_byte_def)

lemma length_generated [simp]: "length (uid (generateUserId rd)) = 36"
  by (simp add: generateUserId_def Let_def)

text \<open>A commit frame and its answer are small.\<close>

lemma small_sendable:
  assumes "length b \<le> 1000" "t \<in> {UPLOAD_INIT, UPLOAD_DATA, UPLOAD_COMMIT}"
  shows "sendable \<lparr>ftype = t, requestId = r, body = b\<rparr>"
  using assms by (auto simp: sendable_def canonical_type_def byte_of_MsgType_def MsgType_of_byte_def)

lemma vector_audits: "fst (audited (mem_transfer B T (Some vector_audit)) e s) = Inr ()"
  by (simp add: audited_def mem_transfer_def zoomS_def vector_audit_def Vector_record_def Let_def)

text \<open>
  What an upload under the identifier \<open>up\<close> finds at the server: a connection logged in with
  a session that stays valid, a recipient with a public key, consistent stores, and
  identifiers that are not in use.
\<close>

definition can_store ::
  "(nat \<Rightarrow> env) \<Rightarrow> (MemoryUserRepository, 'h, MemorySessionStore, 'a, BinaryFileStorage, MemoryPubkeyDirectory, MemoryFileRepository, 't) Conn
   \<Rightarrow> Session \<Rightarrow> User \<Rightarrow> string \<Rightarrow> string \<Rightarrow> bool" where
  "can_store envs c x ru recip up \<longleftrightarrow>
     connToken c \<noteq> [] \<and> mem_sess (sv_sessions (stores c)) (SessionId (connToken c)) = Some x
     \<and> (\<forall>i. session_isValid x (now1 (envs i)) \<and> session_isValid x (now2 (envs i)))
     \<and> MemUser_findByUsername recip (sv_users (stores c)) = Inr (success ru) \<and> uid (user_id ru) \<noteq> []
     \<and> map_of (store (sv_keys (stores c))) (uid (user_id ru)) \<noteq> None
     \<and> mem_inv (sv_users (stores c)) \<and> memfile_inv (sv_files (stores c))
     \<and> up \<noteq> [] \<and> up \<notin> uploadId ` ran (mem_files (sv_files (stores c)))
     \<and> (\<forall>i. mem_files (sv_files (stores c)) (uid (generateUserId (rd1 (envs i)))) = None
          \<and> uid (generateUserId (rd2 (envs i))) @ ''.bin'' \<notin> storageId ` ran (mem_files (sv_files (stores c))))"

lemma can_store_valid:
  "can_store envs c x ru recip up \<Longrightarrow> isValid memory_sessions (SessionId (connToken c)) (now1 (envs i)) (sv_sessions (stores c))"
  by (simp add: can_store_def memsess.isValid)

lemma can_store_upload:
  assumes "can_store envs c x ru recip up" "CHR ''/'' \<notin> set name" "validate name sz fake_header = Inr ()"
    and fr: "fr = new_record (rd1 (envs i)) (rd2 (envs i)) (now3 (envs i)) (userId x) (user_id ru) name up sz dig wk"
  shows "\<exists>s'. upload (mem_transfer (binary_storage good_disk) T (Some vector_audit)) (now2 (envs i)) (now3 (envs i)) (rd1 (envs i))
        (rd2 (envs i)) (rd3 (envs i)) (SessionId (connToken c)) recip name opaque up sz dig wk (transfer_view (stores c))
      = (Inr (success (new_transfer (rd3 (envs i)) fr)), s')
    \<and> memfile_inv (ts_files s') \<and> mem_files (ts_files s') = (mem_files (sv_files (stores c)))(fid (file_id fr) \<mapsto> fr)
    \<and> bin_blobs (ts_storage s') (storageId fr) = Some opaque"
proof -
  let ?s = "transfer_view (stores c)"
  have v: "ts_users ?s = sv_users (stores c)" "ts_files ?s = sv_files (stores c)" "ts_sessions ?s = sv_sessions (stores c)"
    "ts_keys ?s = sv_keys (stores c)" by (simp_all add: transfer_view_def)
  have ids: "fid (file_id fr) = uid (generateUserId (rd1 (envs i)))" "storageId fr = uid (generateUserId (rd2 (envs i))) @ ''.bin''"
    "uploadId fr = up" by (simp_all add: fr new_record_def)
  have "uid (generateUserId rd) \<noteq> []" for rd using length_generated [of rd] by (metis list.size(3) zero_neq_numeral)
  then have ins: "insertable fr (mem_files (ts_files ?s))"
    using assms(1) unfolding can_store_def insertable_def ids v by (metis image_eqI append_is_Nil_conv)
  have hyps: "mem_inv (ts_users ?s)" "memfile_inv (ts_files ?s)"
    "mem_sess (ts_sessions ?s) (SessionId (connToken c)) = Some x" "session_isValid x (now2 (envs i))"
    "findByUsername memory_users recip (ts_users ?s) = Inr (success ru)" "uid (user_id ru) \<noteq> []"
    "map_of (store (ts_keys ?s)) (uid (user_id ru)) \<noteq> None" "validate name sz (validator_header name opaque) = Inr ()"
    "up \<noteq> []" "up \<notin> uploadId ` ran (mem_files (ts_files ?s))"
    using assms(1) validator_header_ok [OF assms(2,3)] by (simp_all add: can_store_def v memory_users_def)
  show ?thesis
    using disktransfer.upload_succeeds [OF hyps fr ins, where rdT = "rd3 (envs i)" and T = T and A = "Some vector_audit"]
    by (auto simp: vector_audits v(2))
qed

section \<open>An upload at any server\<close>

text \<open>
  The frames of one upload as the client sends them, at a server whose transfer service
  accepts it, whenever the commit is handled: the answers, and the stores the service leaves.
\<close>

lemma upload_frames:
  fixes cl :: "('r, 'h, 's, 'a, 'd, 'k, 'f, 't) World Client" and i :: UploadInit
  defines "f \<equiv> \<lparr>ftype = UPLOAD_INIT, requestId = 4, body = encodeUploadInit i\<rparr>"
    and "g \<equiv> \<lparr>ftype = UPLOAD_COMMIT, requestId = 4, body = commit_body (ui_uploadId i)\<rparr>"
  assumes "in_step (wire cl)" "connToken (sconn (wire cl)) \<noteq> []"
    and valid: "\<And>j. isValid (sessions P) (SessionId (connToken (sconn (wire cl)))) (now1 (envs j)) (sv_sessions (stores (sconn (wire cl))))"
    and accepts: "\<And>j. upload (transfer_service P) (now2 (envs j)) (now3 (envs j)) (rd1 (envs j)) (rd2 (envs j)) (rd3 (envs j))
        (SessionId (connToken (sconn (wire cl)))) (ui_recipient i) (ui_origName i) cipher (ui_uploadId i) (ui_size i) (ui_digest i) (ui_wrapped i)
        (transfer_view (stores (sconn (wire cl)))) = (Inr (success (tr j)), s' j)"
    and small: "\<And>j. length (tid (transfer_id (tr j))) \<le> 1000"
    and "length cipher + 2 < link (sconn (wire cl))" "sendable f" "decodeUploadInit (encodeUploadInit i) = Inr i"
    "validate (ui_origName i) (ui_size i) fake_header = Inr ()" "length (ui_uploadId i) = 36"
  shows "\<exists>w1 w2 w3 b j. request (server_link P envs) f cl = (Inr (Some (answer_frame UPLOAD_INIT f b)), cl\<lparr>wire := w1\<rparr>)
     \<and> send_chunks (server_link P envs) (ui_uploadId i) cipher 0 (cl\<lparr>wire := w1\<rparr>) = (Inr (), cl\<lparr>wire := w2\<rparr>)
     \<and> request (server_link P envs) g (cl\<lparr>wire := w2\<rparr>)
        = (Inr (Some (answer_frame UPLOAD_COMMIT g (bytes_of_string (tid (transfer_id (tr j)))))), cl\<lparr>wire := w3\<rparr>) \<and> in_step w3
     \<and> stores (sconn w3) = put_transfer (s' j) (stores (sconn (wire cl)))"
proof -
  let ?up = "ui_uploadId i" and ?c0 = "sconn (wire cl)"
  let ?ok = "answer_frame UPLOAD_INIT f (bytes_of_string ''ok'')"
  have ok: "sendable ?ok" by (rule small_sendable) (simp_all add: bytes_of_string_def)
  obtain c1 where c1: "handle P (envs (tick (wire cl))) f ?c0 = (Inr (), c1)" "written c1 = written ?c0 @ [?ok]"
    "map_of (pendingInit c1) ?up = Some i" "map_of (pendingData c1) ?up = Some (take 0 cipher)" "stores c1 = stores ?c0"
    "connToken c1 = connToken ?c0" "length cipher - 0 < link c1"
    using init_accepted [of ?c0 f i P "envs (tick (wire cl))"] assms(4,8,10,11) valid
    by (simp add: f_def update_conv')
  let ?w1 = "(wire cl)\<lparr>sconn := c1, tick := Suc (tick (wire cl)), unread := Suc (unread (wire cl))\<rparr>"
  note r1 = request_served [where envs = envs, OF assms(3,9) c1(1,2) ok]
  have pre: "in_step (wire (cl\<lparr>wire := ?w1\<rparr>))" "map_of (pendingData (sconn (wire (cl\<lparr>wire := ?w1\<rparr>)))) ?up = Some (take 0 cipher)"
    "length cipher - 0 < link (sconn (wire (cl\<lparr>wire := ?w1\<rparr>)))" "length ?up \<le> 1000" "0 \<le> length cipher"
    using r1(2) c1(4,7) assms(12) by simp_all
  obtain w2 where "send_chunks (server_link P envs) ?up cipher 0 (cl\<lparr>wire := ?w1\<rparr>) = (Inr (), (cl\<lparr>wire := ?w1\<rparr>)\<lparr>wire := w2\<rparr>) \<and> in_step w2
     \<and> map_of (pendingData (sconn w2)) ?up = Some cipher \<and> pendingInit (sconn w2) = pendingInit (sconn (wire (cl\<lparr>wire := ?w1\<rparr>)))
     \<and> stores (sconn w2) = stores (sconn (wire (cl\<lparr>wire := ?w1\<rparr>))) \<and> connToken (sconn w2) = connToken (sconn (wire (cl\<lparr>wire := ?w1\<rparr>)))
     \<and> 0 < link (sconn w2)"
    using chunks_delivered [OF pre, of P envs] by (rule exE)
  then have w2: "send_chunks (server_link P envs) ?up cipher 0 (cl\<lparr>wire := ?w1\<rparr>) = (Inr (), cl\<lparr>wire := w2\<rparr>)" "in_step w2"
    "map_of (pendingData (sconn w2)) ?up = Some cipher" "pendingInit (sconn w2) = pendingInit c1" "stores (sconn w2) = stores ?c0"
    "connToken (sconn w2) = connToken ?c0" "0 < link (sconn w2)"
    using c1(5,6) by simp_all
  let ?j = "tick w2"
  let ?t = "tid (transfer_id (tr ?j))"
  let ?g = "answer_frame UPLOAD_COMMIT g (bytes_of_string ?t)"
  have ne: "?up \<noteq> []" using assms(12) by auto
  obtain c3 where c3: "handle P (envs ?j) g (sconn w2) = (Inr (), c3)" "stores c3 = put_transfer (s' ?j) (stores (sconn w2))"
    "written c3 = written (sconn w2) @ [?g]"
    using commit_accepted [OF w2(7), of g ?up i cipher P "envs ?j" "tr ?j" "s' ?j"] accepts valid [of ?j] assms(4) w2(3-6) c1(3) ne
      commit_id_body [OF ne] assms(12) by (auto simp: g_def)
  have sg: "sendable g" "sendable ?g"
    unfolding g_def by (rule small_sendable; simp add: commit_body_def assms(12) small)+
  note r3 = request_served [where envs = envs and c = "cl\<lparr>wire := w2\<rparr>" and P = P, simplified, OF w2(2) sg(1) c3(1,3) sg(2)]
  let ?w3 = "w2\<lparr>sconn := c3, tick := Suc (tick w2), unread := Suc (unread w2)\<rparr>"
  show ?thesis
    using r1(1) w2(1,5) r3 c3(2) by (intro exI [of _ ?w1] exI [of _ w2] exI [of _ ?w3] exI [of _ "bytes_of_string ''ok''"] exI [of _ ?j]) simp
qed

text \<open>
  The whole command: the client encrypts the file and the server accepts what it sends, with
  \<open>Q\<close> what the transfer service establishes. What it was given decrypts to the file.
\<close>

lemma client_upload_served:
  fixes cl :: "('r, 'h, 's, 'a, 'd, 'k, 'f, 't) World Client" and e :: "('pk, 'dc, 'cc) client_env"
  defines "up \<equiv> uid (generateUserId (rdUpload e))"
  assumes "openssl_ok (ssl e) pubOf dh E G" "\<forall>i n. \<exists>b. rndFile e i n = Some b \<and> length b = n" "length sk = 32"
    and client: "sessionToken cl \<noteq> []" "askYesNo answer" "map_of (cfiles cl) path = Some plain"
      "map_of (pubCache cl) recip = Some (pubOf sk)" "length recip \<le> 1000000" "length (filename path) \<le> 1000000"
    and valid: "validate (filename path) (word_of_nat (length plain)) fake_header = Inr ()" and sized: "length plain < 2 ^ 64"
    and server: "in_step (wire cl)" "connToken (sconn (wire cl)) \<noteq> []" "length plain + 20 < link (sconn (wire cl))"
      "\<And>j. isValid (sessions P) (SessionId (connToken (sconn (wire cl)))) (now1 (envs j)) (sv_sessions (stores (sconn (wire cl))))"
    and accepts: "\<And>j opaque dig wk. length (dbytes dig) = 32 \<Longrightarrow> length (nonce wk) = 12 \<Longrightarrow> length (wbytes wk) = 64 \<Longrightarrow>
      \<exists>s'. upload (transfer_service P) (now2 (envs j)) (now3 (envs j)) (rd1 (envs j)) (rd2 (envs j)) (rd3 (envs j))
          (SessionId (connToken (sconn (wire cl)))) recip (filename path) opaque up (word_of_nat (length plain)) dig wk
          (transfer_view (stores (sconn (wire cl)))) = (Inr (success (new_transfer (rd3 (envs j)) (fr j dig wk))), s') \<and> Q j opaque dig wk s'"
  shows "\<exists>w t j opaque dig wk s'. client_upload (server_link P envs) e path recip answer cl
        = (Inr (), cl\<lparr>wire := w, printed := printed cl @ [Safe (''UPLOAD ok transfer '' @ t)]\<rparr>)
     \<and> stores (sconn w) = put_transfer s' (stores (sconn (wire cl))) \<and> Q j opaque dig wk s'
     \<and> decryptAndVerify (ssl e) opaque wk dig sk = Inr plain"
proof -
  let ?sz = "word_of_nat (length plain) :: u64"
  obtain dek iv eph where r: "rndFile e 0 32 = Some dek" "length dek = 32" "rndFile e 1 12 = Some iv" "length iv = 12"
    "rndFile e 2 32 = Some eph" "length eph = 32" using assms(3) by metis
  obtain out where out: "doEncrypt (ssl e) (rndFile e) plain (UserId recip) (pubOf sk) = Inr out"
    "eo_cipher out = E dek iv plain @ G dek iv plain" "eo_digest out = digestFromPlain (ssl e) plain" "nonce (eo_wrapped out) = iv"
    "recipientId (eo_wrapped out) = UserId recip" "alg (eo_wrapped out) = seal_alg" "length (wbytes (eo_wrapped out)) = 64"
    "unsealDEK (ssl e) (wbytes (eo_wrapped out)) sk = Inr dek"
    using encrypt_runs [OF assms(2,4) r validated_size [OF valid sized]] by blast
  have len: "length (eo_cipher out) = length plain + 16" "length (dbytes (eo_digest out)) = 32"
    using assms(2) r(2,4) out(2,3) by (simp_all add: openssl_ok_def digestFromPlain_def sha256_bytes_def)
  have dec: "decryptAndVerify (ssl e) (eo_cipher out) (eo_wrapped out) (eo_digest out) sk = Inr plain"
    using out r(4) len(1) validated_size [OF valid sized] by (auto simp: decrypt_Inr_iff [OF assms(2)])
  define i where "i = \<lparr>ui_recipient = recip, ui_origName = filename path, ui_uploadId = up, ui_size = ?sz,
      ui_digest = eo_digest out, ui_wrapped = eo_wrapped out\<rparr>"
  let ?f = "\<lparr>ftype = UPLOAD_INIT, requestId = 4, body = encodeUploadInit i\<rparr>"
  have fi: "sendable ?f" "decodeUploadInit (encodeUploadInit i) = Inr i"
    using init_sendable [of i] client len out r by (simp_all add: i_def up_def)
  obtain s' where s': "upload (transfer_service P) (now2 (envs j)) (now3 (envs j)) (rd1 (envs j)) (rd2 (envs j)) (rd3 (envs j))
          (SessionId (connToken (sconn (wire cl)))) (ui_recipient i) (ui_origName i) (eo_cipher out) (ui_uploadId i) (ui_size i) (ui_digest i) (ui_wrapped i)
          (transfer_view (stores (sconn (wire cl)))) = (Inr (success (new_transfer (rd3 (envs j)) (fr j (eo_digest out) (eo_wrapped out)))), s' j)"
      "Q j (eo_cipher out) (eo_digest out) (eo_wrapped out) (s' j)" for j
    using accepts [OF len(2), of "eo_wrapped out" _ "eo_cipher out"] out(4,7) r(4) by (simp add: i_def) metis
  have small: "length (tid (transfer_id (new_transfer (rd3 (envs j)) (fr j (eo_digest out) (eo_wrapped out))))) \<le> 1000" for j
    by (simp add: new_transfer_def)
  have pre: "length (eo_cipher out) + 2 < link (sconn (wire cl))" "validate (ui_origName i) (ui_size i) fake_header = Inr ()" "length (ui_uploadId i) = 36"
    using server(3) valid len by (simp_all add: i_def up_def)
  obtain w1 w2 w3 b t j where u: "request (server_link P envs) ?f cl = (Inr (Some (answer_frame UPLOAD_INIT ?f b)), cl\<lparr>wire := w1\<rparr>)"
    "send_chunks (server_link P envs) (ui_uploadId i) (eo_cipher out) 0 (cl\<lparr>wire := w1\<rparr>) = (Inr (), cl\<lparr>wire := w2\<rparr>)"
    "request (server_link P envs) \<lparr>ftype = UPLOAD_COMMIT, requestId = 4, body = commit_body (ui_uploadId i)\<rparr> (cl\<lparr>wire := w2\<rparr>)
       = (Inr (Some \<lparr>ftype = UPLOAD_COMMIT, requestId = 4, body = bytes_of_string t\<rparr>), cl\<lparr>wire := w3\<rparr>)"
    "stores (sconn w3) = put_transfer (s' j) (stores (sconn (wire cl)))"
    using upload_frames [where envs = envs and s' = s' and tr = "\<lambda>j. new_transfer (rd3 (envs j)) (fr j (eo_digest out) (eo_wrapped out))",
        OF server(1,2,4) s'(1) small pre(1) fi pre(2,3)] by auto
  have enc: "Client_encrypt_for (ssl e) (rndFile e) plain (UserId recip) (pubOf sk) = Inr out"
    using out(1) assms(2,4) by (simp add: Client_encrypt_for_def openssl_ok_def)
  have "client_upload (server_link P envs) e path recip answer cl
      = (Inr (), cl\<lparr>wire := w3, printed := printed cl @ [Safe (''UPLOAD ok transfer '' @ t)]\<rparr>)"
    using client enc u(1,2,3)
    by (simp add: client_upload_def catchS_def bindS_def getS_def readFileBytes_def Let_def printLine_def i_def up_def)
  then show ?thesis using u(4) s'(2) dec by blast
qed

section \<open>Properties\<close>

text \<open>
  C2. A file uploaded by the client arrives, encrypted, and only as a whole: the client
  encrypts the file to the recipient's key, announces it, sends it in chunks over the
  framed connection and commits it. Then it reports success, the server has added exactly
  one record, owned by the session's user and addressed to the recipient, and the blob it
  stores decrypts with the recipient's private key, under the wrapped key and digest of
  the record, to exactly the bytes of the file. (The size of the file is a 64-bit number.)
\<close>

theorem client_upload_delivers:
  assumes "openssl_ok (ssl e) pubOf dh E G" "\<forall>i n. \<exists>b. rndFile e i n = Some b \<and> length b = n" "length sk = 32"
    and client: "sessionToken cl \<noteq> []" "askYesNo answer" "map_of (cfiles cl) path = Some plain"
      "map_of (pubCache cl) recip = Some (pubOf sk)" "length recip \<le> 1000000" "length (filename path) \<le> 1000000"
    and valid: "validate (filename path) (word_of_nat (length plain)) fake_header = Inr ()" and sized: "length plain < 2 ^ 64"
    and server: "in_step (wire cl)" "can_store envs (sconn (wire cl)) x ru recip (uid (generateUserId (rdUpload e)))"
      "length plain + 20 < link (sconn (wire cl))"
  shows "\<exists>w fr t. client_upload (server_link (mem_server vector_audit T) envs) e path recip answer cl
        = (Inr (), cl\<lparr>wire := w, printed := printed cl @ [Safe (''UPLOAD ok transfer '' @ t)]\<rparr>)
     \<and> mem_files (sv_files (stores (sconn w))) = (mem_files (sv_files (stores (sconn (wire cl)))))(fid (file_id fr) \<mapsto> fr)
     \<and> owner fr = userId x \<and> recipient fr = user_id ru \<and> origName fr = filename path
     \<and> (\<exists>blob. bin_blobs (sv_storage (stores (sconn w))) (storageId fr) = Some blob
          \<and> decryptAndVerify (ssl e) blob (wrapped fr) (digest fr) sk = Inr plain)"
proof -
  let ?c = "sconn (wire cl)" and ?up = "uid (generateUserId (rdUpload e))"
  let ?fr = "\<lambda>j dig wk. new_record (rd1 (envs j)) (rd2 (envs j)) (now3 (envs j)) (userId x) (user_id ru) (filename path) ?up (word_of_nat (length plain)) dig wk"
  let ?Q = "\<lambda>j opaque dig wk s'. mem_files (ts_files s') = (mem_files (sv_files (stores ?c)))(fid (file_id (?fr j dig wk)) \<mapsto> ?fr j dig wk)
      \<and> bin_blobs (ts_storage s') (storageId (?fr j dig wk)) = Some opaque"
  have tok: "connToken ?c \<noteq> []" using server(2) by (simp add: can_store_def)
  have val: "isValid (sessions (mem_server vector_audit T)) (SessionId (connToken ?c)) (now1 (envs j)) (sv_sessions (stores ?c))" for j
    using can_store_valid [OF server(2)] by simp
  have acc: "\<exists>s'. upload (transfer_service (mem_server vector_audit T)) (now2 (envs j)) (now3 (envs j)) (rd1 (envs j)) (rd2 (envs j)) (rd3 (envs j))
          (SessionId (connToken ?c)) recip (filename path) opaque ?up (word_of_nat (length plain)) dig wk
          (transfer_view (stores ?c)) = (Inr (success (new_transfer (rd3 (envs j)) (?fr j dig wk))), s') \<and> ?Q j opaque dig wk s'" for j opaque dig wk
    using can_store_upload [OF server(2) filename_plain valid refl, of "Some T" j opaque dig wk] by auto
  have "\<exists>w t j opaque dig wk s'. client_upload (server_link (mem_server vector_audit T) envs) e path recip answer cl
        = (Inr (), cl\<lparr>wire := w, printed := printed cl @ [Safe (''UPLOAD ok transfer '' @ t)]\<rparr>)
     \<and> stores (sconn w) = put_transfer s' (stores ?c) \<and> ?Q j opaque dig wk s' \<and> decryptAndVerify (ssl e) opaque wk dig sk = Inr plain"
    by (rule client_upload_served [where fr = ?fr and Q = ?Q, OF assms(1-3) client valid sized server(1) tok server(3) val]) (rule acc)
  then obtain w t j opaque dig wk s' where w: "client_upload (server_link (mem_server vector_audit T) envs) e path recip answer cl
        = (Inr (), cl\<lparr>wire := w, printed := printed cl @ [Safe (''UPLOAD ok transfer '' @ t)]\<rparr>)"
    "stores (sconn w) = put_transfer s' (stores ?c)" "?Q j opaque dig wk s'" "decryptAndVerify (ssl e) opaque wk dig sk = Inr plain"
    by blast
  then show ?thesis
    by (intro exI [of _ w] exI [of _ "?fr j dig wk"] exI [of _ t]) (simp add: put_transfer_def new_record_def)
qed

text \<open>A connection of the example server, logged in as the user \<open>bob\<close>, and a client on the other side.\<close>

definition demo_conn ::
  "nat \<Rightarrow> (MemoryUserRepository, FakeHasher, MemorySessionStore, VectorAudit, BinaryFileStorage, MemoryPubkeyDirectory, MemoryFileRepository, unit) Conn" where
  "demo_conn n = accept n demo_stores\<lparr>connToken := sid demo_token\<rparr>"

definition demo_client ::
  "(MemoryUserRepository, FakeHasher, MemorySessionStore, VectorAudit, BinaryFileStorage, MemoryPubkeyDirectory, MemoryFileRepository, unit) World Client" where
  "demo_client = \<lparr>sessionToken = sid demo_token, loggedUser = ''bob'', localKeys = [], pubCache = [(''bob'', replicate 32 9)],
     cfiles = [(''a.pdf'', [1, 2, 3])], printed = [], wire = \<lparr>sconn = demo_conn 100, tick = 0, unread = 0, open_conn = True\<rparr>\<rparr>"

definition demo_client_env :: "(bytes, bytes \<times> bytes, bytes \<times> bytes) client_env" where
  "demo_client_env = \<lparr>ssl = demo_openssl, rndKey = (\<lambda>i n. Some (replicate n 9)), rndFile = (\<lambda>i n. Some (replicate n (word_of_nat i))),
     rdUpload = (\<lambda>_. 4), writable = (\<lambda>_. True)\<rparr>"

lemma demo_conn_empty [simp]: "mem_files (sv_files (stores (demo_conn n))) = Map.empty"
  by (simp add: demo_conn_def accept_def demo_stores_def mem_files_def emptyMemoryFileRepository_def)

lemma demo_can_store:
  assumes "up \<noteq> []"
  shows "can_store (\<lambda>_. demo_env) (demo_conn n) (new_session demo_token (UserId ''1'') 1000) (demo_user 0) ''bob'' up"
proof -
  have tok: "sid demo_token \<noteq> []" by (simp add: demo_token_def generateSessionId_def Let_def)
  have sess: "mem_sess (sv_sessions demo_stores) demo_token = Some (new_session demo_token (UserId ''1'') 1000)"
    using demo_transfer_session by (simp add: demo_stores_def)
  have "findByUsername memory_users ''bob'' (demo_repo 0) = Inr (success (demo_user 0))"
    using mem.findByUsername_hit [of "demo_repo 0" "''1''" "demo_user 0"] by simp
  then have user: "MemUser_findByUsername ''bob'' (sv_users demo_stores) = Inr (success (demo_user 0))"
    by (simp add: memory_users_def demo_stores_def demo_transfer_def)
  have "SessionId (sid demo_token) = demo_token" by (cases demo_token) simp
  then show ?thesis
    using tok sess user demo_transfer_ok assms
    by (simp add: can_store_def demo_conn_def accept_def demo_env_def session_ms_def session_isValid_def new_session_def)
       (simp add: demo_stores_def demo_transfer_def memfile_inv_def mem_files_def emptyMemoryFileRepository_def)
qed

lemma demo_client_facts:
  "uid (generateUserId (rdUpload demo_client_env)) \<noteq> []" "filename ''a.pdf'' = ''a.pdf''"
  "validate ''a.pdf'' 3 fake_header = Inr ()"
  "ssl demo_client_env = demo_openssl" "rndFile demo_client_env = (\<lambda>i n. Some (replicate n (word_of_nat i)))"
  "sessionToken demo_client \<noteq> []" "map_of (cfiles demo_client) ''a.pdf'' = Some [1, 2, 3]"
  "map_of (pubCache demo_client) ''bob'' = Some (replicate 32 9)" "printed demo_client = []"
proof -
  show "uid (generateUserId (rdUpload demo_client_env)) \<noteq> []"
    using length_generated [of "rdUpload demo_client_env"] by (metis list.size(3) zero_neq_numeral)
  show "validate ''a.pdf'' 3 fake_header = Inr ()" by code_simp
qed (simp_all add: demo_client_env_def demo_client_def filename_def demo_token_def generateSessionId_def Let_def)

theorem client_upload_delivers_witness:
  "\<exists>w fr t. client_upload (server_link (mem_server vector_audit demo_transfers) (\<lambda>_. demo_env)) demo_client_env ''a.pdf'' ''bob'' ''y'' demo_client
        = (Inr (), demo_client\<lparr>wire := w, printed := [Safe (''UPLOAD ok transfer '' @ t)]\<rparr>)
     \<and> mem_files (sv_files (stores (sconn w))) = [fid (file_id fr) \<mapsto> fr]
     \<and> owner fr = UserId ''1'' \<and> recipient fr = UserId ''1'' \<and> origName fr = ''a.pdf''
     \<and> (\<exists>blob. bin_blobs (sv_storage (stores (sconn w))) (storageId fr) = Some blob
          \<and> decryptAndVerify demo_openssl blob (wrapped fr) (digest fr) (replicate 32 9) = Inr [1, 2, 3])"
proof -
  have cl: "in_step (wire demo_client)" "sconn (wire demo_client) = demo_conn 100" "link (demo_conn 100) = 100" "stores (demo_conn 100) = demo_stores"
    by (simp_all add: demo_client_def in_step_def demo_conn_def accept_def)
  have files: "mem_files (sv_files demo_stores) = Map.empty"
    by (simp add: demo_stores_def mem_files_def emptyMemoryFileRepository_def)
  show ?thesis
    using client_upload_delivers [of demo_client_env "\<lambda>a. a" xor_bytes "\<lambda>k n p. p" "\<lambda>k n p. replicate 16 0" "replicate 32 9" demo_client "''y''" "''a.pdf''"
        "[1, 2, 3]" "''bob''" "\<lambda>_. demo_env" "new_session demo_token (UserId ''1'') 1000" "demo_user 0" demo_transfers]
      demo_openssl_ok cl demo_can_store [OF demo_client_facts(1)] files
    by (simp add: demo_client_facts askYesNo_def new_session_def)
qed

text \<open>
  C5. Nothing is stored without a session: a frame changes the file records or the blobs
  only if it is a commit on a connection whose token is a valid session at that moment.
\<close>

theorem stores_need_session:
  assumes "handle P e f c = (r, c')"
    "sv_files (stores c') \<noteq> sv_files (stores c) \<or> sv_storage (stores c') \<noteq> sv_storage (stores c)"
  shows "ftype f = UPLOAD_COMMIT \<and> connToken c \<noteq> []
    \<and> isValid (sessions P) (SessionId (connToken c)) (now1 e) (sv_sessions (stores c))"
proof -
  have changed: "\<not> same_files c c'" using assms(2) by (simp add: same_files_def)
  have commit: "ftype f = UPLOAD_COMMIT"
    using filesafe.keeps_frame [of f P e] changed assms(1) by (metis preserves_def snd_conv)
  moreover have "connToken c \<noteq> [] \<and> isValid (sessions P) (SessionId (connToken c)) (now1 e) (sv_sessions (stores c))"
  proof (rule ccontr)
    assume no: "\<not> (connToken c \<noteq> [] \<and> isValid (sessions P) (SessionId (connToken c)) (now1 e) (sv_sessions (stores c)))"
    have "same_files c (snd (handle_upload_commit P e f c))"
      using no by (auto simp: handle_upload_commit_def catchS_def Let_def reply_def sendFrame_def same_files_def split: option.splits)
    with changed commit assms(1) show False by (simp add: handle_def)
  qed
  ultimately show ?thesis by blast
qed

theorem stores_need_session_witness:
  "\<exists>c c'. handle (mem_server vector_audit demo_transfers) demo_env \<lparr>ftype = UPLOAD_COMMIT, requestId = 4, body = commit_body ''up1''\<rparr> c = (Inr (), c')
     \<and> sv_files (stores c') \<noteq> sv_files (stores c)
     \<and> isValid memory_sessions (SessionId (connToken c)) 2000 (sv_sessions (stores c))"
proof -
  let ?P = "mem_server vector_audit demo_transfers" and ?f = "\<lparr>ftype = UPLOAD_COMMIT, requestId = 4, body = commit_body ''up1''\<rparr>"
  let ?i = "\<lparr>ui_recipient = ''bob'', ui_origName = ''a.pdf'', ui_uploadId = ''up1'', ui_size = 3, ui_digest = Digest [], ui_wrapped = emptyWrappedKey\<rparr>"
  let ?c = "demo_conn 1\<lparr>pendingInit := [(''up1'', ?i)], pendingData := [(''up1'', [1, 2, 3])]\<rparr>" and ?x = "new_session demo_token (UserId ''1'') 1000"
  have st: "stores ?c = demo_stores" "connToken ?c = sid demo_token" "link ?c = 1" by (simp_all add: demo_conn_def accept_def)
  have cs: "can_store (\<lambda>_. demo_env) ?c ?x (demo_user 0) ''bob'' ''up1''"
    using demo_can_store [of "''up1''" 1] by (simp add: can_store_def)
  have v: "validate ''a.pdf'' 3 fake_header = Inr ()" by code_simp
  define fr where "fr = new_record (rd1 demo_env) (rd2 demo_env) (now3 demo_env) (userId ?x) (user_id (demo_user 0)) ''a.pdf'' ''up1'' 3 (Digest []) emptyWrappedKey"
  obtain s' where up: "upload (transfer_service ?P) (now2 demo_env) (now3 demo_env) (rd1 demo_env) (rd2 demo_env) (rd3 demo_env)
      (SessionId (connToken ?c)) ''bob'' ''a.pdf'' [1, 2, 3] ''up1'' 3 (Digest []) emptyWrappedKey (transfer_view (stores ?c))
      = (Inr (success (new_transfer (rd3 demo_env) fr)), s')" "mem_files (ts_files s') = [fid (file_id fr) \<mapsto> fr]"
    using can_store_upload [OF cs _ v fr_def, of "Some demo_transfers" "[1, 2, 3]"] by auto
  obtain c' where c': "handle ?P demo_env ?f ?c = (Inr (), c')" "stores c' = put_transfer s' (stores ?c)"
    using commit_accepted [of ?c ?f "''up1''" ?i "[1, 2, 3]" ?P demo_env "new_transfer (rd3 demo_env) fr" s'] up(1) st
      commit_id_body [of "''up1''"] can_store_valid [OF cs] cs by (auto simp: can_store_def)
  have "mem_files (sv_files (stores c')) \<noteq> mem_files (sv_files (stores ?c))"
    using up(2) c'(2) by (simp add: put_transfer_def)
  then have ch: "sv_files (stores c') \<noteq> sv_files (stores ?c)" by auto
  with stores_need_session [OF c'(1)] have "isValid (sessions ?P) (SessionId (connToken ?c)) (now1 demo_env) (sv_sessions (stores ?c))" by blast
  then have "isValid memory_sessions (SessionId (connToken ?c)) 2000 (sv_sessions (stores ?c))" by (simp add: demo_env_def)
  with c'(1) ch show ?thesis by blast
qed

end
