(* ===== verification/SqliteServer.thy ===== *)
theory SqliteServer
  imports SqliteAuth SqliteFiles EndToEnd
begin

text \<open>
  The whole server on the persistent user, file and key repositories, as \<^verbatim>\<open>server_app.cpp\<close>
  wires it: frame by frame it answers as the server on the in-memory repositories does, so
  what is proved of that one holds in production as long as the databases work.
\<close>

section \<open>Runs that are alike\<close>

text \<open>
  Like \<^const>\<open>agree\<close>, but two exceptions need not be the same: the repositories word their
  errors differently, and the handlers answer every exception with the same frame.
\<close>

definition similar :: "exn + 'x \<Rightarrow> exn + 'x \<Rightarrow> bool" where
  "similar r r' \<longleftrightarrow> (case r of Inl _ \<Rightarrow> isl r' | Inr x \<Rightarrow> r' = Inr x)"

definition alike :: "('s \<Rightarrow> 't \<Rightarrow> bool) \<Rightarrow> ('s, 'x) sx \<Rightarrow> 's \<Rightarrow> ('t, 'x) sx \<Rightarrow> 't \<Rightarrow> bool" where
  "alike A m s m' t \<longleftrightarrow> similar (fst (m s)) (fst (m' t)) \<and> A (snd (m s)) (snd (m' t))"

lemma similar_simps [simp]:
  "similar r r" "similar (Inr x) r' \<longleftrightarrow> r' = Inr x" "similar r (Inr x) \<longleftrightarrow> r = Inr x" "similar (Inl e) (Inl e')"
  by (auto simp: similar_def split: sum.split)

lemma alike_agree: "agree A m s m' t \<Longrightarrow> alike A m s m' t"
  by (simp add: agree_def alike_def)

lemma alike_ret: "A s t \<Longrightarrow> alike A (retS x) s (retS x) t"
  by (simp add: alike_def retS_def)

lemma alike_throw: "A s t \<Longrightarrow> alike A (throwS e) s (throwS e') t"
  by (simp add: alike_def throwS_def)

lemma alike_cases:
  assumes "alike A m s m' t"
  obtains (throws) e s' e' t' where "m s = (Inl e, s')" "m' t = (Inl e', t')" "A s' t'"
  | (returns) x s' t' where "m s = (Inr x, s')" "m' t = (Inr x, t')" "A s' t'"
proof -
  obtain r s' r' t' where m: "m s = (r, s')" "m' t = (r', t')" by (metis prod.collapse)
  with assms have "similar r r'" "A s' t'" by (simp_all add: alike_def)
  with m that show thesis by (cases r; cases r') auto
qed

lemma alike_bind:
  assumes "alike A m s m' t"
    and "\<And>x s' t'. A s' t' \<Longrightarrow> m s = (Inr x, s') \<Longrightarrow> m' t = (Inr x, t') \<Longrightarrow> alike A (f x) s' (f' x) t'"
  shows "alike A (bindS m f) s (bindS m' f') t"
  using assms(1)
proof (cases rule: alike_cases)
  case throws
  then show ?thesis by (simp add: alike_def bindS_def)
next
  case (returns x s' t')
  with assms(2) show ?thesis by (simp add: alike_def bindS_def)
qed

lemma alike_bind_get:
  assumes "A s t" "g s = g' t" "\<And>x. g' t = Inr x \<Longrightarrow> alike A (f x) s (f' x) t"
  shows "alike A (bindS (getS g) f) s (bindS (getS g') f') t"
  using assms by (cases "g' t") (auto simp: alike_def bindS_def getS_def)

lemma alike_if:
  "(b \<Longrightarrow> alike A m s m' t) \<Longrightarrow> (\<not> b \<Longrightarrow> alike A n s n' t) \<Longrightarrow> alike A (if b then m else n) s (if b then m' else n') t"
  by simp

lemma alike_catch:
  assumes "alike A m s m' t" and "\<And>e e' s' t'. A s' t' \<Longrightarrow> alike A (h e) s' (h' e') t'"
  shows "alike A (catchS m h) s (catchS m' h') t"
  using assms(1)
proof (cases rule: alike_cases)
  case (throws e s' e' t')
  then show ?thesis using assms(2) [OF throws(3), of e e'] by (simp add: alike_def catchS_def)
next
  case (returns x s' t')
  then show ?thesis by (simp add: alike_def catchS_def)
qed

text \<open>A part of the state that both sides work on, the rest being kept.\<close>

lemma alike_zoom:
  assumes "alike B m (rd s) m' (rd' t)" and "\<And>x y. B x y \<Longrightarrow> A (wr x s) (wr' y t)"
  shows "alike A (zoomS rd wr m) s (zoomS rd' wr' m') t"
  using assms(1)
proof (cases rule: alike_cases)
  case (throws e x e' y)
  then show ?thesis using assms(2) by (simp add: alike_def zoomS_def)
next
  case (returns z x y)
  then show ?thesis using assms(2) by (simp add: alike_def zoomS_def)
qed

text \<open>Work whose outcome is ignored, on parts of the state that are not related.\<close>

lemma alike_ignored:
  assumes "\<And>x y. A (wr x s) (wr' y t)"
  shows "alike A (catchS (zoomS rd wr (m :: ('u, unit) sx)) (\<lambda>_. retS ())) s (catchS (zoomS rd' wr' (m' :: ('v, unit) sx)) (\<lambda>_. retS ())) t"
  using assms by (simp add: alike_def catchS_def zoomS_def retS_def split: prod.split sum.split)

section \<open>The repositories, related\<close>

text \<open>
  How the contents of the databases and the transactions open on them are read off their
  states: one database for each of the three repositories.
\<close>

record ('u, 'f, 'k) databases =
  users_in :: "'u \<Rightarrow> sqlval list list"
  users_tx :: "'u \<Rightarrow> sqlval list list option"
  files_in :: "'f \<Rightarrow> sqlval list list"
  files_tx :: "'f \<Rightarrow> sqlval list list option"
  keys_in :: "'k \<Rightarrow> sqlval list list"
  keys_tx :: "'k \<Rightarrow> sqlval list list option"

text \<open>The file table holds the records of the in-memory repository, in any order.\<close>

definition files_sim :: "sqlval list list \<Rightarrow> MemoryFileRepository \<Rightarrow> bool" where
  "files_sim R m \<longleftrightarrow> memfile_inv m \<and> (\<exists>fs. holds_files fs R \<and> set fs = ran (mem_files m))"

definition keys_sim :: "sqlval list list \<Rightarrow> MemoryPubkeyDirectory \<Rightarrow> bool" where
  "keys_sim R m \<longleftrightarrow> (\<exists>ks. holds_keys ks R \<and> (\<forall>u. map_option fst (map_of ks u) = map_of (store m) u))"

text \<open>The transfers need not be related: the server never reads them, and ignores errors of saving one.\<close>

definition transfer_sim ::
  "('u, 'f, 'k) databases \<Rightarrow> ('d, 'k, 'f, 't, 'a, 's, 'u) TransferState
   \<Rightarrow> ('d, MemoryPubkeyDirectory, MemoryFileRepository, 'v, 'a, 's, MemoryUserRepository) TransferState \<Rightarrow> bool" where
  "transfer_sim D s t \<longleftrightarrow>
     users_tx D (ts_users s) = None \<and> users_sim (users_in D (ts_users s)) (ts_users t)
     \<and> files_tx D (ts_files s) = None \<and> files_sim (files_in D (ts_files s)) (ts_files t)
     \<and> keys_sim (keys_in D (ts_keys s)) (ts_keys t)
     \<and> ts_storage s = ts_storage t \<and> ts_audit s = ts_audit t \<and> ts_sessions s = ts_sessions t \<and> ts_cwd s = ts_cwd t"

locale server_dbs = users: users_db Lu "users_in D" "users_tx D" + files: files_db Lf "files_in D" "files_tx D"
    + keys: keys_db Lk "keys_in D" "keys_tx D"
  for Lu :: "'u sqlite3" and Lf :: "'f sqlite3" and Lk :: "'k sqlite3" and D :: "('u, 'f, 'k) databases"

definition ref_databases :: "(refdb, refdb, refdb) databases" where
  "ref_databases = \<lparr>users_in = rcontent, users_tx = rsaved, files_in = rcontent, files_tx = rsaved, keys_in = rcontent, keys_tx = rsaved\<rparr>"

interpretation refserver: server_dbs "ref_sqlite users_schema users_stmts" "ref_sqlite files_schema files_stmts"
  "ref_sqlite keys_schema keys_stmts" ref_databases
  unfolding server_dbs_def ref_databases_def
  using refusers.users_db_axioms reffiles.files_db_axioms refkeys.keys_db_axioms by simp

lemma listed_records:
  assumes "memfile_inv m" "set fs = ran (mem_files m)"
  shows "mem_files m i = Some r \<Longrightarrow> r \<in> set fs \<and> fid (file_id r) = i"
    and "mem_files m i = None \<Longrightarrow> q \<in> set fs \<Longrightarrow> fid (file_id q) \<noteq> i"
  using memfile_invD(1) [OF assms(1)] unfolding assms(2) by (force simp: mem_files_def ran_def)+

context files_db
begin

lemma findFile_sim:
  assumes "files_sim (content d) m" "plain_text (fid i)"
  shows "SqliteFile_findById L i d = Inr (lookup (map_option stored_file (mem_files m (fid i))))"
proof -
  obtain fs where fs: "holds_files fs (content d)" "set fs = ran (mem_files m)" and inv: "memfile_inv m"
    using assms(1) by (auto simp: files_sim_def)
  have R: "content d = map file_row fs" using fs(1) by (simp add: holds_files_def)
  show ?thesis
  proof (cases "mem_files m (fid i)")
    case (Some r)
    with file_found [OF fs(1)] listed_records(1) [OF inv fs(2) Some] show ?thesis using Some by (metis FileId.expand lookup_simps(2) option.simps(9))
  next
    case None
    have st: "Select (columns files_schema) [''id''] \<in> set files_stmts" by (simp add: files_stmts_def)
    have "filter (\<lambda>x. matches files_schema [''id''] [SText (fid i)] (file_row x)) fs = []"
      using listed_records(2) [OF inv fs(2) None] by (simp add: filter_empty_conv matches_def file_row_field sql_eq_def)
    then have "rows_of L files_byid_sql [SText (fid i)] d = []"
      using key_rows [OF st, of d file_row fs "SText (fid i)" "[]"] R by (simp add: files_sql)
    then show ?thesis using prepare_ok [OF st, of d] assms(2) None by (simp add: SqliteFile_findById_def files_sql)
  qed
qed

lemma upload_known_sim:
  assumes "files_sim (content d) m" "plain_text x"
  shows "SqliteFile_existsUploadId L x d = MemFile_existsUploadId x m"
proof -
  obtain fs where fs: "holds_files fs (content d)" "set fs = ran (mem_files m)" and inv: "memfile_inv m"
    using assms(1) by (auto simp: files_sim_def)
  then show ?thesis
    using upload_known [OF fs(1) assms(2)] memfiles.existsUploadId [OF inv, of x] by (simp add: memory_files_def)
qed

lemma save_sim:
  assumes "files_sim (content d) m" "saved d = None" "storable_file r"
    "fid (file_id r) \<noteq> []" "uploadId r \<noteq> []" "storageId r \<noteq> []"
  shows "alike (\<lambda>d m. files_sim (content d) m \<and> saved d = None) (SqliteFile_save L r) d (MemFile_save r) m"
proof -
  obtain fs where fs: "holds_files fs (content d)" "set fs = ran (mem_files m)" and inv: "memfile_inv m"
    using assms(1) by (auto simp: files_sim_def)
  have known: "mem_files m (fid (file_id r)) = None \<longleftrightarrow> (\<forall>q\<in>set fs. file_id q \<noteq> file_id r)"
    using listed_records [OF inv fs(2)] by (metis FileId.expand not_None_eq)
  have ins: "insertable r (mem_files m) \<longleftrightarrow> \<not> (\<exists>q\<in>set fs. shares_id q r)"
    using assms(4-6) unfolding insertable_def known shares_id_def fs(2) [symmetric] by auto
  note sv = file_saved [OF assms(2) fs(1) assms(3)]
  show ?thesis
  proof (cases "insertable r (mem_files m)")
    case True
    obtain m' where m': "MemFile_save r m = (Inr (), m')" "memfile_inv m'" "mem_files m' = (mem_files m)(fid (file_id r) \<mapsto> r)"
      using memfiles.save_new [OF inv True] by (auto simp: memory_files_def)
    obtain d' where d': "SqliteFile_save L r d = (Inr (), d')" "holds_files (fs @ [r]) (content d')" "saved d' = None"
      using sv True ins by auto
    have "set (fs @ [r]) = ran (mem_files m')"
      using fs(2) True unfolding m'(3) insertable_def by (simp add: ran_map_upd)
    then show ?thesis using m' d' by (auto simp: alike_def files_sim_def)
  next
    case False
    then show ?thesis using sv ins memfiles.save_bad [OF inv False] assms(1)
      by (auto simp: alike_def memory_files_def)
  qed
qed

end

context keys_db
begin

lemma key_known_sim:
  assumes "keys_sim (content d) m" "plain_text (uid u)"
  shows "SqliteKeys_exists L u d = MemKeys_exists u m"
proof (cases "uid u = []")
  case False
  obtain ks where ks: "holds_keys ks (content d)" "\<forall>u. map_option fst (map_of ks u) = map_of (store m) u"
    using assms(1) by (auto simp: keys_sim_def)
  have "map_of ks (uid u) = None \<longleftrightarrow> map_of (store m) (uid u) = None" using ks(2) by (metis map_option_is_None)
  then show ?thesis using key_lookup(2) [OF ks(1) assms(2) False] False
    by (simp add: MemKeys_exists_def del: map_of_eq_None_iff)
qed (simp add: SqliteKeys_exists_def MemKeys_exists_def)

end

section \<open>The transfer service\<close>

text \<open>The objects \<open>run\<close> creates, one database for each repository, and the same server in memory.\<close>

definition sqlite_server ::
  "'u sqlite3 \<Rightarrow> 'f sqlite3 \<Rightarrow> 'k sqlite3 \<Rightarrow> string \<Rightarrow> 't sqlite3 \<Rightarrow> 'h IPasswordHasher \<Rightarrow> 's ISessionStore \<Rightarrow> 'a IAuditLogger
   \<Rightarrow> 'd IStorage \<Rightarrow> ('u, 'h, 's, 'a, 'd, 'k, 'f, 't) ServerPorts" where
  "sqlite_server Lu Lf Lk nowStr Lt H S A B = \<lparr>userRepo = sqlite_users Lu, hasher = H, sessions = S, audit = A, blobStore = B,
     pubkeyDir = sqlite_keys Lk nowStr, fileRepo = sqlite_files Lf, transferRepo = sqlite_transfers Lt\<rparr>"

definition memory_server ::
  "'h IPasswordHasher \<Rightarrow> 's ISessionStore \<Rightarrow> 'a IAuditLogger \<Rightarrow> 'd IStorage \<Rightarrow> 'v ITransferRepository
   \<Rightarrow> (MemoryUserRepository, 'h, 's, 'a, 'd, MemoryPubkeyDirectory, MemoryFileRepository, 'v) ServerPorts" where
  "memory_server H S A B T = \<lparr>userRepo = memory_users, hasher = H, sessions = S, audit = A, blobStore = B,
     pubkeyDir = memory_keys, fileRepo = memory_files, transferRepo = T\<rparr>"

lemma server_services [simp]:
  "auth_service (sqlite_server Lu Lf Lk n Lt H S A B) = wired (sqlite_users Lu) H S A"
  "auth_service (memory_server H S A B T) = wired memory_users H S A"
  "sessions (sqlite_server Lu Lf Lk n Lt H S A B) = S" "sessions (memory_server H S A B T) = S"
  by (simp_all add: auth_service_def wired_def sqlite_server_def memory_server_def)

lemma server_transfer_ports [simp]:
  "t_storage (transfer_service P) = Some (blobStore P)" "t_keys (transfer_service P) = Some (pubkeyDir P)"
  "t_files (transfer_service P) = Some (fileRepo P)" "t_transfers (transfer_service P) = Some (transferRepo P)"
  "t_audit (transfer_service P) = Some (audit P)" "t_validator (transfer_service P) = Some validate" "t_clock (transfer_service P)"
  "t_sessions (transfer_service P) = Some (sessions P)" "t_users (transfer_service P) = Some (userRepo P)"
  by (simp_all add: transfer_service_def)

lemma server_objects [simp]:
  "blobStore (sqlite_server Lu Lf Lk n Lt H S A B) = B" "blobStore (memory_server H S A B T) = B"
  "audit (sqlite_server Lu Lf Lk n Lt H S A B) = A" "audit (memory_server H S A B T) = A"
  "userRepo (sqlite_server Lu Lf Lk n Lt H S A B) = sqlite_users Lu" "userRepo (memory_server H S A B T) = memory_users"
  "fileRepo (sqlite_server Lu Lf Lk n Lt H S A B) = sqlite_files Lf" "fileRepo (memory_server H S A B T) = memory_files"
  "pubkeyDir (sqlite_server Lu Lf Lk n Lt H S A B) = sqlite_keys Lk n" "pubkeyDir (memory_server H S A B T) = memory_keys"
  by (simp_all add: sqlite_server_def memory_server_def)

lemma alike_audited:
  "transfer_sim D s t \<Longrightarrow> audit P = audit P' \<Longrightarrow>
   alike (transfer_sim D) (audited (transfer_service P) e) s (audited (transfer_service P') e) t"
  by (auto simp: alike_def audited_def zoomS_def transfer_sim_def split: prod.split)

lemma alike_session_user:
  assumes "transfer_sim D s t" "audit P = audit P'" "sessions P = sessions P'"
  shows "alike (transfer_sim D) (session_user (transfer_service P) now tok x) s (session_user (transfer_service P') now tok x) t"
proof -
  have "alike (transfer_sim D) (bindS (audited (transfer_service P) e) (\<lambda>_. throwS z)) s
      (bindS (audited (transfer_service P') e) (\<lambda>_. throwS z :: (_, UserId) sx)) t" for e z
    by (intro alike_bind alike_audited alike_throw assms)
  moreover have "ts_sessions s = ts_sessions t" using assms(1) by (simp add: transfer_sim_def)
  ultimately show ?thesis using assms by (simp add: alike_def session_user_def)
qed

text \<open>What reading a record back loses matters to no caller of the service.\<close>

lemma stored_file_sel [simp]:
  "owner (stored_file r) = owner r" "recipient (stored_file r) = recipient r" "storageId (stored_file r) = storageId r"
  by (simp_all add: stored_file_def)

context server_dbs
begin

lemma download_alike:
  assumes "transfer_sim D s t" "plain_text (fid f)"
  shows "alike (transfer_sim D) (download (transfer_service (sqlite_server Lu Lf Lk n Lt H S A B)) now tok f) s
    (download (transfer_service (memory_server H S A B T)) now tok f) t"
  unfolding download_def server_transfer_ports option.case
proof (rule alike_bind [OF alike_session_user [OF assms(1)]], goal_cases)
  case (3 u s' t')
  have sim: "files_sim (files_in D (ts_files s')) (ts_files t')" "ts_storage s' = ts_storage t'" using 3(1) by (simp_all add: transfer_sim_def)
  let ?P = "sqlite_server Lu Lf Lk n Lt H S A B" and ?P' = "memory_server H S A B T"
  have au: "alike (transfer_sim D) (bindS (audited (transfer_service ?P) e) (\<lambda>_. retS y)) s'
      (bindS (audited (transfer_service ?P') e) (\<lambda>_. retS y)) t'" for e and y :: "bytes Result"
    by (intro alike_bind alike_audited alike_ret 3(1)) simp_all
  have fd: "findFile (sqlite_files Lf) f (ts_files s') = Inr (lookup (map_option stored_file (mem_files (ts_files t') (fid f))))"
    "findFile memory_files f (ts_files t') = Inr (lookup (mem_files (ts_files t') (fid f)))"
    using files.findFile_sim [OF sim(1) assms(2)] memfiles.findFile sim(1) by (simp_all add: sqlite_files_def files_sim_def)
  show ?case
  proof (cases "mem_files (ts_files t') (fid f)")
    case None
    then show ?thesis using 3(1) fd by (simp add: alike_def bindS_def getS_def retS_def)
  next
    case (Some r)
    then show ?thesis using 3(1) fd sim(2) au [unfolded alike_def]
      by (auto simp: alike_def bindS_def [of "getS g" for g] getS_def split: sum.split)
  qed
qed simp_all

end

text \<open>Work on the blobs, which both servers keep in the same storage.\<close>

lemma alike_storage: "transfer_sim D s t \<Longrightarrow> alike (transfer_sim D) (onStorage m) s (onStorage m) t"
  by (auto simp: alike_def onStorage_def zoomS_def transfer_sim_def split: prod.split)

lemma alike_rollback:
  assumes "transfer_sim D s t"
  shows "alike (transfer_sim D) (rollback B k e) s (rollback B k e') t"
  unfolding rollback_def
proof (rule alike_bind [OF alike_catch [OF alike_storage [OF assms]]], goal_cases)
  case (2 x s' t')
  then show ?case by (auto simp: alike_def transfer_sim_def)
qed (rule alike_ret)

definition uploadable :: "FileRecord \<Rightarrow> bool" where
  "uploadable r \<longleftrightarrow> storable_file r \<and> fid (file_id r) \<noteq> [] \<and> uploadId r \<noteq> [] \<and> storageId r \<noteq> []"

lemma new_record_uploadable:
  assumes "plain_text (uid u)" "plain_text (uid v)" "plain_text name" "plain_text upId" "upId \<noteq> []" "length (dbytes dig) = 32" "blob_sized wk"
    "- (2 ^ 63) \<le> now" "now < 2 ^ 63"
  shows "uploadable (new_record rdFile rdBlob now u v name upId sz dig wk)"
proof -
  have "uid (generateUserId rdFile) \<noteq> []" using length_generated [of rdFile] by (metis list.size(3) zero_neq_numeral)
  moreover have "plain_text ''.bin''" by (simp add: plain_text_def)
  ultimately show ?thesis
    using assms plain_generateUserId [of rdFile] plain_generateUserId [of rdBlob]
    by (simp add: uploadable_def storable_file_def new_record_def plain_text_def)
qed

context server_dbs
begin

lemma alike_save:
  assumes "transfer_sim D s t" "uploadable r"
  shows "alike (transfer_sim D) (onFiles (saveFile (sqlite_files Lf) r)) s (onFiles (saveFile memory_files r)) t"
  unfolding onFiles_def
proof (rule alike_zoom)
  show "alike (\<lambda>d m. files_sim (files_in D d) m \<and> files_tx D d = None) (saveFile (sqlite_files Lf) r) (ts_files s)
      (saveFile memory_files r) (ts_files t)"
    using files.save_sim [of "ts_files s" "ts_files t" r] assms by (simp add: transfer_sim_def uploadable_def sqlite_files_def memory_files_def)
qed (use assms(1) in \<open>simp add: transfer_sim_def\<close>)

lemma upload_store_alike:
  assumes "transfer_sim D s t" "uploadable r"
  shows "alike (transfer_sim D) (upload_store (transfer_service (sqlite_server Lu Lf Lk n Lt H S A B)) r opaque tr) s
    (upload_store (transfer_service (memory_server H S A B T)) r opaque tr) t"
  unfolding upload_store_def server_transfer_ports option.case server_objects
proof (rule alike_bind [OF alike_storage [OF assms(1)]], rule alike_bind [OF alike_catch [OF alike_save [OF _ assms(2)]]], goal_cases)
  case (3 x s1 t1 y s2 t2)
  show ?case
    by (rule alike_bind, unfold onTransfers_def, rule alike_ignored, insert 3(4), simp add: transfer_sim_def)
       (rule alike_bind [OF alike_audited], auto intro: alike_ret)
qed (simp_all add: alike_rollback)

lemma upload_alike:
  assumes sim: "transfer_sim D s t" and plain: "plain_text recip" "plain_text name" "plain_text upId" "length (dbytes dig) = 32" "blob_sized wk"
    and clk: "- (2 ^ 63) \<le> at2" "at2 < 2 ^ 63"
    and caller: "\<And>u. userFor S tok (ts_sessions t) = Inr u \<Longrightarrow> plain_text (uid u)"
  shows "alike (transfer_sim D)
      (upload (transfer_service (sqlite_server Lu Lf Lk n Lt H S A B)) now at2 rdFile rdBlob rdTransfer tok recip name opaque upId sz dig wk) s
      (upload (transfer_service (memory_server H S A B T)) now at2 rdFile rdBlob rdTransfer tok recip name opaque upId sz dig wk) t"
  unfolding upload_def server_transfer_ports option.case server_objects
proof (rule alike_bind [OF alike_session_user [OF sim]], goal_cases)
  case (3 u s1 t1)
  have u: "plain_text (uid u)" using 3(3) caller
    by (auto simp: session_user_def bindS_def throwS_def split: if_splits prod.splits sum.splits)
  have us: "users_sim (users_in D (ts_users s1)) (ts_users t1)" and ks: "keys_sim (keys_in D (ts_keys s1)) (ts_keys t1)"
    and fs: "files_sim (files_in D (ts_files s1)) (ts_files t1)" using 3(1) by (simp_all add: transfer_sim_def)
  have fnd: "findByUsername (sqlite_users Lu) recip (ts_users s1) = findByUsername memory_users recip (ts_users t1)"
    using users.find_sim(2) [OF us plain(1)] by (simp add: sqlite_users_def memory_users_def)
  show ?case
  proof (rule alike_bind_get, rule 3(1), rule fnd, goal_cases)
    case (1 found)
    show ?case
    proof (cases "got found")
      case None
      then show ?thesis using alike_throw [of "transfer_sim D", OF 3(1)] by simp
    next
      case (Some v)
      have v: "plain_text (uid (user_id v))"
        using found_stored [OF us _ Some] 1 by (simp add: memory_users_def storable_user_def)
      have rec: "uploadable (new_record rdFile rdBlob at2 u (user_id v) name upId sz dig wk)" if "upId \<noteq> []"
        by (rule new_record_uploadable [OF u v plain(2,3) that plain(4,5) clk])
      have ex: "keyExists (sqlite_keys Lk n) (user_id v) (ts_keys s1) = keyExists memory_keys (user_id v) (ts_keys t1)"
        "existsUploadId (sqlite_files Lf) upId (ts_files s1) = existsUploadId memory_files upId (ts_files t1)"
        using keys.key_known_sim [OF ks v] files.upload_known_sim [OF fs plain(3)]
        by (simp_all add: sqlite_keys_def memory_keys_def sqlite_files_def memory_files_def)
      note th = alike_throw [of "transfer_sim D", OF 3(1)] and rt = alike_ret [of "transfer_sim D", OF 3(1)]
      show ?thesis unfolding Some option.case
      proof (intro alike_bind_get [where A = "transfer_sim D"] alike_if 3(1) ex refl th rt, goal_cases)
        case (1 hasKey chk dup)
        then show ?case using upload_store_alike [OF 3(1) rec] by (simp add: Let_def)
      qed
    qed
  qed
qed simp_all

end

section \<open>The server\<close>

definition plain_init :: "UploadInit \<Rightarrow> bool" where
  "plain_init i \<longleftrightarrow> plain_text (ui_recipient i) \<and> plain_text (ui_origName i) \<and> plain_text (ui_uploadId i) \<and> blob_sized (ui_wrapped i)"

definition stores_sim ::
  "('u, 'f, 'k) databases \<Rightarrow> ('u, 'h, 's, 'a, 'd, 'k, 'f, 't) Stores
   \<Rightarrow> (MemoryUserRepository, 'h, 's, 'a, 'd, MemoryPubkeyDirectory, MemoryFileRepository, 'v) Stores \<Rightarrow> bool" where
  "stores_sim D s t \<longleftrightarrow> sv_hasher s = sv_hasher t \<and> transfer_sim D (transfer_view s) (transfer_view t)"

definition conn_sim ::
  "('u, 'f, 'k) databases \<Rightarrow> ('u, 'h, 's, 'a, 'd, 'k, 'f, 't) Conn
   \<Rightarrow> (MemoryUserRepository, 'h, 's, 'a, 'd, MemoryPubkeyDirectory, MemoryFileRepository, 'v) Conn \<Rightarrow> bool" where
  "conn_sim D c c' \<longleftrightarrow> stores_sim D (stores c) (stores c')
     \<and> pendingInit c = pendingInit c' \<and> pendingData c = pendingData c' \<and> connToken c = connToken c' \<and> written c = written c' \<and> link c = link c'
     \<and> (\<forall>k i. map_of (pendingInit c') k = Some i \<longrightarrow> plain_init i \<and> length (dbytes (ui_digest i)) = 32)"

lemma stores_sim_sessions: "stores_sim D s t \<Longrightarrow> sv_sessions s = sv_sessions t"
  by (simp add: stores_sim_def transfer_sim_def transfer_view_def)

lemma stores_auth_sim: "stores_sim D s t \<Longrightarrow> auth_sim (users_in D) (users_tx D) (auth_view s) (auth_view t)"
  by (simp add: stores_sim_def transfer_sim_def transfer_view_def auth_sim_def auth_view_def)

lemma put_auth_sim:
  "stores_sim D s t \<Longrightarrow> auth_sim (users_in D) (users_tx D) x y \<Longrightarrow> stores_sim D (put_auth x s) (put_auth y t)"
  by (simp add: stores_sim_def transfer_sim_def transfer_view_def auth_sim_def put_auth_def)

lemma put_transfer_sim:
  "stores_sim D s t \<Longrightarrow> transfer_sim D x y \<Longrightarrow> stores_sim D (put_transfer x s) (put_transfer y t)"
  by (simp add: stores_sim_def transfer_view_put) (simp add: put_transfer_def)

lemma alike_onAuth:
  assumes "conn_sim D c c'" "agree (auth_sim (users_in D) (users_tx D)) m (auth_view (stores c)) m' (auth_view (stores c'))"
  shows "alike (conn_sim D) (onAuth m) c (onAuth m') c'"
  unfolding onAuth_def
  by (rule alike_zoom, rule alike_agree, rule assms(2)) (use assms(1) put_auth_sim in \<open>auto simp: conn_sim_def\<close>)

lemma alike_onTransfer:
  assumes "conn_sim D c c'" "alike (transfer_sim D) m (transfer_view (stores c)) m' (transfer_view (stores c'))"
  shows "alike (conn_sim D) (onTransfer m) c (onTransfer m') c'"
  unfolding onTransfer_def
  by (rule alike_zoom, rule assms(2)) (use assms(1) put_transfer_sim in \<open>auto simp: conn_sim_def\<close>)

lemma alike_reply: "conn_sim D c c' \<Longrightarrow> alike (conn_sim D) (reply f x b) c (reply f x b) c'"
  by (auto simp: alike_def reply_def sendFrame_def conn_sim_def)

text \<open>A change of the connection's own fields, the same on both sides.\<close>

lemma alike_local: "(\<And>c c'. conn_sim D c c' \<Longrightarrow> conn_sim D (g c) (g' c')) \<Longrightarrow> conn_sim D c c' \<Longrightarrow>
    alike (conn_sim D) (\<lambda>c. (Inr (), g c)) c (\<lambda>c. (Inr (), g' c)) c'"
  by (simp add: alike_def)

lemma alike_option:
  "(x = None \<Longrightarrow> alike A m s m' t) \<Longrightarrow> (\<And>v. x = Some v \<Longrightarrow> alike A (n v) s (n' v) t) \<Longrightarrow>
   alike A (case x of None \<Rightarrow> m | Some v \<Rightarrow> n v) s (case x of None \<Rightarrow> m' | Some v \<Rightarrow> n' v) t"
  by (cases x) simp_all

lemma decoded_digest: "decodeUploadInit b = Inr i \<Longrightarrow> length (dbytes (ui_digest i)) = 32"
  by (auto simp: decodeUploadInit_def bindE_def Let_def split: sum.splits if_splits prod.splits)

text \<open>
  What a frame may carry: text without a NUL byte, which C strings cut, values within the
  integer columns, and blobs of a size an \<open>int\<close> counts. An undecodable frame is always admissible.
\<close>

definition caller_plain :: "'s ISessionStore \<Rightarrow> string \<Rightarrow> 's \<Rightarrow> bool" where
  "caller_plain S tok ss \<longleftrightarrow> (case userFor S (SessionId tok) ss of Inl _ \<Rightarrow> True | Inr u \<Rightarrow> plain_text (uid u))"

definition if_decoded :: "('x \<Rightarrow> bool) \<Rightarrow> exn + 'x \<Rightarrow> bool" where
  "if_decoded Q r \<longleftrightarrow> (case r of Inl _ \<Rightarrow> True | Inr x \<Rightarrow> Q x)"

definition admissible_frame ::
  "(MemoryUserRepository, 'h, 's, 'a, 'd, 'k, 'f, 't) ServerPorts \<Rightarrow> env \<Rightarrow> Frame \<Rightarrow> (MemoryUserRepository, 'h, 's, 'a, 'd, 'k, 'f, 't) Conn \<Rightarrow> bool" where
  "admissible_frame P e f c \<longleftrightarrow>
     (case ftype f of
        REGISTER \<Rightarrow> if_decoded (\<lambda>pl. plain_text (rp_username pl) \<and> plain_text (rp_email pl)) (decodeRegister (body f))
      | AUTH \<Rightarrow> if_decoded (\<lambda>pl. admissible (CallLogin (rd1 e) (now1 e) (lp_username pl) (lp_password pl)) (sessions P) (auth_view (stores c)))
                  (decodeLogin (body f))
      | ADMIN_ACTIVATE \<Rightarrow> if_decoded (\<lambda>pl. plain_text (ap_targetId pl) \<and> token_plain (sessions P) (SessionId (ap_token pl)) (sv_sessions (stores c)))
                  (decodeAdmin (body f))
      | ADMIN_DEACTIVATE \<Rightarrow> if_decoded (\<lambda>pl. plain_text (ap_targetId pl) \<and> token_plain (sessions P) (SessionId (ap_token pl)) (sv_sessions (stores c)))
                  (decodeAdmin (body f))
      | UPLOAD_INIT \<Rightarrow> if_decoded plain_init (decodeUploadInit (body f))
      | UPLOAD_COMMIT \<Rightarrow> caller_plain (sessions P) (connToken c) (sv_sessions (stores c)) \<and> - (2 ^ 63) \<le> now3 e \<and> now3 e < 2 ^ 63
      | DOWNLOAD_REQ \<Rightarrow> if_decoded (\<lambda>req. plain_text (dr_fileId req)) (decodeDownloadReq (body f))
      | _ \<Rightarrow> True)"

lemma if_decodedD: "if_decoded Q r \<Longrightarrow> r = Inr x \<Longrightarrow> Q x"
  by (simp add: if_decoded_def)

lemma conn_simD:
  assumes "conn_sim D c c'"
  shows "stores_sim D (stores c) (stores c')" "auth_sim (users_in D) (users_tx D) (auth_view (stores c)) (auth_view (stores c'))"
    "transfer_sim D (transfer_view (stores c)) (transfer_view (stores c'))" "sv_sessions (stores c) = sv_sessions (stores c')"
    "connToken c = connToken c'" "pendingInit c = pendingInit c'" "pendingData c = pendingData c'"
proof -
  show s: "stores_sim D (stores c) (stores c')" using assms by (simp add: conn_sim_def)
  show "auth_sim (users_in D) (users_tx D) (auth_view (stores c)) (auth_view (stores c'))" by (rule stores_auth_sim [OF s])
  show "sv_sessions (stores c) = sv_sessions (stores c')" by (rule stores_sim_sessions [OF s])
  show "transfer_sim D (transfer_view (stores c)) (transfer_view (stores c'))" using s by (simp add: stores_sim_def)
qed (use assms in \<open>simp_all add: conn_sim_def\<close>)

lemma alike_set_token:
  assumes "conn_sim D c c'"
  shows "alike (conn_sim D) (bindS (\<lambda>c. (Inr (), c\<lparr>connToken := x\<rparr>)) (\<lambda>_. reply f y b)) c
    (bindS (\<lambda>c. (Inr (), c\<lparr>connToken := x\<rparr>)) (\<lambda>_. reply f y b)) c'"
proof -
  have "conn_sim D (c\<lparr>connToken := x\<rparr>) (c'\<lparr>connToken := x\<rparr>)" using assms by (simp add: conn_sim_def)
  from alike_reply [OF this] show ?thesis by (simp add: alike_def bindS_def)
qed

lemma upload_init_alike:
  assumes "conn_sim D c c'" "if_decoded plain_init (decodeUploadInit (body f))" "sessions P = sessions P'"
  shows "alike (conn_sim D) (handle_upload_init P e f) c (handle_upload_init P' e f) c'"
  unfolding handle_upload_init_def
proof (rule alike_catch, rule alike_bind_get, rule assms(1), rule refl, goal_cases)
  case (1 i)
  have i: "plain_init i" "length (dbytes (ui_digest i)) = 32" using if_decodedD [OF assms(2) 1] decoded_digest [OF 1] by simp_all
  note rep = alike_reply [OF assms(1)]
  have "conn_sim D
      (c\<lparr>pendingInit := AList.update (ui_uploadId i) i (pendingInit c), pendingData := AList.update (ui_uploadId i) [] (pendingData c)\<rparr>)
      (c'\<lparr>pendingInit := AList.update (ui_uploadId i) i (pendingInit c'), pendingData := AList.update (ui_uploadId i) [] (pendingData c')\<rparr>)"
    using assms(1) i by (auto simp: conn_sim_def update_conv')
  then show ?case using alike_reply rep conn_simD(4,5) [OF assms(1)] assms(3)
    by (fastforce simp: alike_def split: sum.split)
qed (rule alike_reply)

lemma upload_data_alike:
  assumes "conn_sim D c c'"
  shows "alike (conn_sim D) (handle_upload_data f) c (handle_upload_data f) c'"
  unfolding handle_upload_data_def
proof (rule alike_catch, rule alike_bind_get, rule assms, rule refl, goal_cases)
  case (1 x)
  have "conn_sim D (c\<lparr>pendingData := AList.update k v (pendingData c)\<rparr>) (c'\<lparr>pendingData := AList.update k v (pendingData c')\<rparr>)" for k v
    using assms by (simp add: conn_sim_def)
  note up = alike_reply [OF this]
  show ?case using up alike_reply [OF assms] conn_simD(7) [OF assms] by (auto simp: alike_def split: option.split)
qed (rule alike_reply)

text \<open>How a commit is answered once the service has returned.\<close>

lemma commit_reply_alike:
  assumes "alike (conn_sim D) m c m' c'"
  shows "alike (conn_sim D)
    (bindS m (\<lambda>res. case got res of
        Some t \<Rightarrow> bindS (reply f UPLOAD_COMMIT (bytes_of_string (tid (transfer_id t)))) (\<lambda>_ c.
          (Inr (), c\<lparr>pendingInit := AList.delete up (pendingInit c), pendingData := AList.delete up (pendingData c)\<rparr>))
      | None \<Rightarrow> reply f ERR (bytes_of_string (error res)))) c
    (bindS m' (\<lambda>res. case got res of
        Some t \<Rightarrow> bindS (reply f UPLOAD_COMMIT (bytes_of_string (tid (transfer_id t)))) (\<lambda>_ c.
          (Inr (), c\<lparr>pendingInit := AList.delete up (pendingInit c), pendingData := AList.delete up (pendingData c)\<rparr>))
      | None \<Rightarrow> reply f ERR (bytes_of_string (error res)))) c'"
  by (intro alike_bind [OF assms] alike_option alike_bind [OF alike_reply] alike_local alike_reply)
     (auto simp: conn_sim_def delete_conv' split: if_splits)

context server_dbs
begin

lemma register_alike:
  assumes "conn_sim D c c'" "plain_hashes H"
    "if_decoded (\<lambda>pl. plain_text (rp_username pl) \<and> plain_text (rp_email pl)) (decodeRegister (body f))"
  shows "alike (conn_sim D) (handle_register (sqlite_server Lu Lf Lk n Lt H S A B) e f) c (handle_register (memory_server H S A B T) e f) c'"
  unfolding handle_register_def server_services Let_def
proof (rule alike_catch, rule alike_bind_get, rule assms(1), rule refl, goal_cases)
  case (1 pl)
  have "plain_text ''user''" by (simp add: plain_text_def)
  then have "agree (auth_sim (users_in D) (users_tx D))
      (registerUser (wired (sqlite_users Lu) H S A) (rd1 e) (rd2 e) (rp_username pl) (rp_email pl) (rp_password pl) ''user'') (auth_view (stores c))
      (registerUser (wired memory_users H S A) (rd1 e) (rd2 e) (rp_username pl) (rp_email pl) (rp_password pl) ''user'') (auth_view (stores c'))"
    using if_decodedD [OF assms(3) 1] plain_hashesD [OF assms(2)] by (intro users.register_agrees conn_simD(2) assms(1)) auto
  then show ?case by (rule alike_bind [OF alike_onAuth [OF assms(1)]]) (rule alike_reply)
qed (rule alike_reply)

lemma auth_alike:
  assumes "conn_sim D c c'"
    "if_decoded (\<lambda>pl. admissible (CallLogin (rd1 e) (now1 e) (lp_username pl) (lp_password pl)) S (auth_view (stores c'))) (decodeLogin (body f))"
  shows "alike (conn_sim D) (handle_auth (sqlite_server Lu Lf Lk n Lt H S A B) e f) c (handle_auth (memory_server H S A B T) e f) c'"
  unfolding handle_auth_def server_services Let_def
proof (rule alike_catch, rule alike_bind_get, rule assms(1), rule refl, goal_cases)
  case (1 pl)
  have adm: "admissible (CallLogin (rd1 e) (now1 e) (lp_username pl) (lp_password pl)) S (auth_view (stores c'))"
    using if_decodedD [OF assms(2) 1] .
  have "agree (auth_sim (users_in D) (users_tx D))
      (login (wired (sqlite_users Lu) H S A) (rd1 e) (now1 e) (lp_username pl) (lp_password pl)) (auth_view (stores c))
      (login (wired memory_users H S A) (rd1 e) (now1 e) (lp_username pl) (lp_password pl)) (auth_view (stores c'))"
    by (rule users.admissible_login [OF conn_simD(2) [OF assms(1)] adm])
  then show ?case
    by (rule alike_bind [OF alike_onAuth [OF assms(1)]])
       (intro alike_option alike_set_token alike_reply)
qed (rule alike_reply)

lemma logout_alike:
  assumes "conn_sim D c c'"
  shows "alike (conn_sim D) (handle_logout (sqlite_server Lu Lf Lk n Lt H S A B) f) c (handle_logout (memory_server H S A B T) f) c'"
  unfolding handle_logout_def server_services Let_def
proof (rule alike_bind [OF alike_onAuth [OF assms users.logout_agrees [OF conn_simD(2) [OF assms]]]], rule alike_bind [OF alike_reply], goal_cases)
  case (2 good s t u s' t')
  then show ?case by (auto simp: alike_def conn_sim_def)
qed

lemma admin_alike:
  assumes "conn_sim D c c'"
    "if_decoded (\<lambda>pl. plain_text (ap_targetId pl) \<and> token_plain S (SessionId (ap_token pl)) (sv_sessions (stores c'))) (decodeAdmin (body f))"
  shows "alike (conn_sim D) (handle_admin (sqlite_server Lu Lf Lk n Lt H S A B) e f) c (handle_admin (memory_server H S A B T) e f) c'"
  unfolding handle_admin_def server_services Let_def
proof (rule alike_catch, rule alike_bind_get, rule assms(1), rule refl, goal_cases)
  case (1 pl)
  let ?tok = "SessionId (ap_token pl)" and ?tgt = "UserId (ap_targetId pl)"
  have pl: "plain_text (uid ?tgt)" using if_decodedD [OF assms(2) 1] by simp
  have tk: "plain_text (uid (userId x))" if "got (findByToken S ?tok (st_sessions (auth_view (stores c')))) = Some x" for x
    using if_decodedD [OF assms(2) 1] that by (simp add: token_plain_def auth_view_def)
  note ag = users.activate_agrees [OF conn_simD(2) [OF assms(1)] pl tk] users.deactivate_agrees [OF conn_simD(2) [OF assms(1)] pl tk]
  show ?case
    by (rule alike_bind [OF alike_onAuth [OF assms(1)]]) (use ag in \<open>auto intro: alike_reply\<close>)
qed (rule alike_reply)

lemma handle_download_alike:
  assumes "conn_sim D c c'" "if_decoded (\<lambda>req. plain_text (dr_fileId req)) (decodeDownloadReq (body f))"
  shows "alike (conn_sim D) (handle_download (sqlite_server Lu Lf Lk n Lt H S A B) e f) c (handle_download (memory_server H S A B T) e f) c'"
  unfolding handle_download_def Let_def
proof (rule alike_catch, rule alike_bind_get, rule assms(1), rule refl, goal_cases)
  case (1 req)
  have "plain_text (fid (FileId (dr_fileId req)))" using if_decodedD [OF assms(2) 1] by simp
  note dl = alike_onTransfer [OF assms(1) download_alike [OF conn_simD(3) [OF assms(1)] this]]
  have "alike (conn_sim D)
      (bindS (onTransfer (download (transfer_service (sqlite_server Lu Lf Lk n Lt H S A B)) (now1 e) (SessionId tok) (FileId (dr_fileId req)))) (\<lambda>res.
         case got res of Some opaque \<Rightarrow> reply f DOWNLOAD_DATA opaque | None \<Rightarrow> reply f ERR (bytes_of_string (error res)))) c
      (bindS (onTransfer (download (transfer_service (memory_server H S A B T)) (now1 e) (SessionId tok) (FileId (dr_fileId req)))) (\<lambda>res.
         case got res of Some opaque \<Rightarrow> reply f DOWNLOAD_DATA opaque | None \<Rightarrow> reply f ERR (bytes_of_string (error res)))) c'" for tok
    by (rule alike_bind [OF dl]) (intro alike_option alike_reply)
  then show ?case using conn_simD(5) [OF assms(1)] by (simp add: alike_def)
qed (rule alike_reply)

lemma upload_commit_alike:
  assumes "conn_sim D c c'" "caller_plain S (connToken c') (sv_sessions (stores c'))" "- (2 ^ 63) \<le> now3 e" "now3 e < 2 ^ 63"
  shows "alike (conn_sim D) (handle_upload_commit (sqlite_server Lu Lf Lk n Lt H S A B) e f) c (handle_upload_commit (memory_server H S A B T) e f) c'"
  unfolding handle_upload_commit_def Let_def
proof (rule alike_catch, goal_cases)
  case 1
  note same = conn_simD(4-7) [OF assms(1)] and rep = alike_reply [OF assms(1)]
  let ?up = "commit_target (body f) (pendingInit c')" and ?tok = "SessionId (connToken c')"
  show ?case
  proof (cases "map_of (pendingInit c') ?up"; cases "map_of (pendingData c') ?up")
    fix i v assume pend: "map_of (pendingInit c') ?up = Some i" "map_of (pendingData c') ?up = Some v"
    have i: "plain_text (ui_recipient i)" "plain_text (ui_origName i)" "plain_text (ui_uploadId i)" "length (dbytes (ui_digest i)) = 32"
      "blob_sized (ui_wrapped i)"
      using assms(1) pend(1) by (auto simp: conn_sim_def plain_init_def)
    have who: "plain_text (uid u)" if "userFor S ?tok (ts_sessions (transfer_view (stores c'))) = Inr u" for u
      using assms(2) that by (simp add: caller_plain_def transfer_view_def)
    have "alike (conn_sim D)
        (onTransfer (upload (transfer_service (sqlite_server Lu Lf Lk n Lt H S A B)) (now2 e) (now3 e) (rd1 e) (rd2 e) (rd3 e) ?tok
           (ui_recipient i) (ui_origName i) v (ui_uploadId i) (ui_size i) (ui_digest i) (ui_wrapped i))) c
        (onTransfer (upload (transfer_service (memory_server H S A B T)) (now2 e) (now3 e) (rd1 e) (rd2 e) (rd3 e) ?tok
           (ui_recipient i) (ui_origName i) v (ui_uploadId i) (ui_size i) (ui_digest i) (ui_wrapped i))) c'"
      by (intro alike_onTransfer upload_alike conn_simD(3) assms i who)
    from commit_reply_alike [OF this, of f ?up] show ?thesis
      using rep pend same by (simp add: alike_def cong: option.case_cong)
  qed (use rep same in \<open>simp_all add: alike_def\<close>)
qed (rule alike_reply)

end

section \<open>Connections and start-up\<close>

fun admissible_frames ::
  "(MemoryUserRepository, 'h, 's, 'a, 'd, 'k, 'f, 't) ServerPorts \<Rightarrow> (env \<times> Frame) list \<Rightarrow> (MemoryUserRepository, 'h, 's, 'a, 'd, 'k, 'f, 't) Conn \<Rightarrow> bool" where
  "admissible_frames P [] c \<longleftrightarrow> True"
| "admissible_frames P ((e, f) # fs) c \<longleftrightarrow> admissible_frame P e f c
     \<and> (case handle P e f c of (Inl _, c') \<Rightarrow> True | (Inr _, c') \<Rightarrow> admissible_frames P fs c')"

fun admissible_conns ::
  "(MemoryUserRepository, 'h, 's, 'a, 'd, 'k, 'f, 't) ServerPorts \<Rightarrow> (nat \<times> (env \<times> Frame) list) list
   \<Rightarrow> (MemoryUserRepository, 'h, 's, 'a, 'd, 'k, 'f, 't) Stores \<Rightarrow> bool" where
  "admissible_conns P [] s \<longleftrightarrow> True"
| "admissible_conns P ((n, fs) # cs) s \<longleftrightarrow> admissible_frames P fs (accept n s) \<and> admissible_conns P cs (stores (serve P fs (accept n s)))"

text \<open>The frames every client receives, connection by connection.\<close>

fun transcripts ::
  "('r, 'h, 's, 'a, 'd, 'k, 'f, 't) ServerPorts \<Rightarrow> (nat \<times> (env \<times> Frame) list) list \<Rightarrow> ('r, 'h, 's, 'a, 'd, 'k, 'f, 't) Stores \<Rightarrow> Frame list list" where
  "transcripts P [] s = []"
| "transcripts P ((n, fs) # cs) s = (let c = serve P fs (accept n s) in written c # transcripts P cs (stores c))"

context server_dbs
begin

lemma handle_alike:
  assumes "conn_sim D c c'" "plain_hashes H" "admissible_frame (memory_server H S A B T) e f c'"
  shows "alike (conn_sim D) (handle (sqlite_server Lu Lf Lk n Lt H S A B) e f) c (handle (memory_server H S A B T) e f) c'"
  using assms(3) register_alike [OF assms(1,2)] auth_alike [OF assms(1)] logout_alike [OF assms(1)] admin_alike [OF assms(1)]
    upload_init_alike [OF assms(1)] upload_data_alike [OF assms(1)] upload_commit_alike [OF assms(1)] handle_download_alike [OF assms(1)]
    alike_reply [OF assms(1)]
  by (cases "ftype f") (simp_all add: handle_def admissible_frame_def)

lemma serve_alike:
  assumes "conn_sim D c c'" "plain_hashes H" "admissible_frames (memory_server H S A B T) fs c'"
  shows "conn_sim D (serve (sqlite_server Lu Lf Lk n Lt H S A B) fs c) (serve (memory_server H S A B T) fs c')"
  using assms(1,3)
proof (induction fs arbitrary: c c')
  case (Cons p fs)
  obtain e f where p: "p = (e, f)" by (cases p)
  have "alike (conn_sim D) (handle (sqlite_server Lu Lf Lk n Lt H S A B) e f) c (handle (memory_server H S A B T) e f) c'"
    using Cons.prems p by (intro handle_alike assms(2)) simp_all
  then show ?case
  proof (cases rule: alike_cases)
    case (returns x d d')
    then show ?thesis using Cons.IH [of d d'] Cons.prems(2) p by simp
  qed (use p in simp)
qed simp

lemma accept_sim: "stores_sim D s t \<Longrightarrow> conn_sim D (accept k s) (accept k t)"
  by (simp add: conn_sim_def accept_def)

lemma accept_loop_alike:
  assumes "stores_sim D s t" "plain_hashes H" "admissible_conns (memory_server H S A B T) cs t"
  shows "transcripts (sqlite_server Lu Lf Lk n Lt H S A B) cs s = transcripts (memory_server H S A B T) cs t
    \<and> stores_sim D (accept_loop (sqlite_server Lu Lf Lk n Lt H S A B) cs s) (accept_loop (memory_server H S A B T) cs t)"
  using assms(1,3)
proof (induction cs arbitrary: s t)
  case (Cons p cs)
  obtain k fs where p: "p = (k, fs)" by (cases p)
  let ?c = "serve (sqlite_server Lu Lf Lk n Lt H S A B) fs (accept k s)" and ?c' = "serve (memory_server H S A B T) fs (accept k t)"
  have "conn_sim D ?c ?c'" using Cons.prems p by (intro serve_alike accept_sim assms(2)) simp_all
  then show ?case using Cons.IH [of "stores ?c" "stores ?c'"] Cons.prems(2) p by (simp add: Let_def conn_sim_def)
qed simp

lemma boot_alike:
  assumes "stores_sim D s t" "plain_hashes H" "plain_text u" "plain_text mail"
  shows "alike (stores_sim D) (boot (sqlite_server Lu Lf Lk n Lt H S A B) ex rm rdSalt rdId u mail pw) s
    (boot (memory_server H S A B T) ex rm rdSalt rdId u mail pw) t"
proof -
  define s1 where "s1 = s\<lparr>sv_storage := (sv_storage s)\<lparr>disk := snd (sweepOrphans ex rm (root (sv_storage s)) (disk (sv_storage s)))\<rparr>\<rparr>"
  define t1 where "t1 = t\<lparr>sv_storage := (sv_storage t)\<lparr>disk := snd (sweepOrphans ex rm (root (sv_storage t)) (disk (sv_storage t)))\<rparr>\<rparr>"
  have sim: "stores_sim D s1 t1" using assms(1) by (simp add: s1_def t1_def stores_sim_def transfer_sim_def transfer_view_def)
  then have us: "users_sim (users_in D (sv_users s1)) (sv_users t1)" by (simp add: stores_sim_def transfer_sim_def transfer_view_def)
  obtain l where l: "SqliteUser_listAll Lu (sv_users s1) = Inr l" "mset l = mset (map snd (usersById (sv_users t1)))"
    using users.list_sim [OF us] by blast
  have empty: "l = [] \<longleftrightarrow> map snd (usersById (sv_users t1)) = []" using l(2) by (metis mset_zero_iff)
  have "plain_text ''admin''" by (simp add: plain_text_def)
  then have "agree (auth_sim (users_in D) (users_tx D)) (registerUser (wired (sqlite_users Lu) H S A) rdSalt rdId u mail pw ''admin'') (auth_view s1)
      (registerUser (wired memory_users H S A) rdSalt rdId u mail pw ''admin'') (auth_view t1)"
    using plain_hashesD [OF assms(2)] by (intro users.register_agrees stores_auth_sim sim assms) auto
  note reg = alike_agree [OF this]
  have "alike (stores_sim D) (bindS (zoomS auth_view put_auth (registerUser (wired (sqlite_users Lu) H S A) rdSalt rdId u mail pw ''admin'')) (\<lambda>_. retS ())) s1
      (bindS (zoomS auth_view put_auth (registerUser (wired memory_users H S A) rdSalt rdId u mail pw ''admin'')) (\<lambda>_. retS ())) t1"
    by (rule alike_bind, rule alike_zoom, rule reg, erule put_auth_sim [OF sim], rule alike_ret)
  moreover have "listAll (sqlite_users Lu) (sv_users s1) = Inr l" "listAll memory_users (sv_users t1) = Inr (map snd (usersById (sv_users t1)))"
    using l(1) by (simp_all add: sqlite_users_def memory_users_def MemUser_listAll_def)
  ultimately show ?thesis
    using empty sim unfolding alike_def boot_def Let_def s1_def [symmetric] t1_def [symmetric] server_services server_objects by simp
qed

end

section \<open>Properties\<close>

text \<open>
  C14. The server in production behaves as the server verified, on what its tables can hold.
  Over databases that work, the server wired to the persistent repositories starts, the
  sweep and the first administrator included, and then answers every admissible sequence of
  connections, frame by frame, exactly as the server on the in-memory repositories does:
  every client receives the same frames. Afterwards the tables hold what the in-memory
  repositories hold, and the blobs, the sessions and the audit log are the same. A sequence
  is admissible if names, identifiers and file names in it have no NUL byte (C strings cut
  there, so that with \<open>bob\<close> registered the two servers answer a login as \<open>bob\<close> with a NUL and
  more behind it differently), clocks and failure counters stay within their integer
  columns, and the blobs of a wrapped key are below 2 GiB. Nothing is assumed of the
  transfer database, which may fail in any way.
\<close>

theorem server_on_sqlite:
  assumes "server_dbs Lu Lf Lk D" "stores_sim D s t" "plain_hashes H" "plain_text u" "plain_text mail"
    "boot (memory_server H S A B T) ex rm rdSalt rdId u mail pw t = (Inr (), t1)" "admissible_conns (memory_server H S A B T) cs t1"
  shows "\<exists>s1. boot (sqlite_server Lu Lf Lk n Lt H S A B) ex rm rdSalt rdId u mail pw s = (Inr (), s1)
     \<and> transcripts (sqlite_server Lu Lf Lk n Lt H S A B) cs s1 = transcripts (memory_server H S A B T) cs t1
     \<and> stores_sim D (accept_loop (sqlite_server Lu Lf Lk n Lt H S A B) cs s1) (accept_loop (memory_server H S A B T) cs t1)"
proof -
  have "alike (stores_sim D) (boot (sqlite_server Lu Lf Lk n Lt H S A B) ex rm rdSalt rdId u mail pw) s
      (boot (memory_server H S A B T) ex rm rdSalt rdId u mail pw) t"
    by (rule server_dbs.boot_alike [OF assms(1-5)])
  then show ?thesis
  proof (cases rule: alike_cases)
    case (returns x s1 t2)
    then show ?thesis using server_dbs.accept_loop_alike [OF assms(1) _ assms(3,7), of s1] assms(6) by auto
  qed (use assms(6) in simp)
qed

definition demo_owner :: string where
  "demo_owner = uid (generateUserId (\<lambda>_. 4))"

definition new_sqlite_stores :: "(refdb, FakeHasher, MemorySessionStore, VectorAudit, BinaryFileStorage, refdb, refdb, refdb) Stores" where
  "new_sqlite_stores = \<lparr>sv_users = empty_db, sv_hasher = \<lparr>known = [], ctr = 0\<rparr>, sv_sessions = emptyMemorySessionStore, sv_audit = \<lparr>vlog = []\<rparr>,
     sv_storage = \<lparr>root = ''/s'', disk = []\<rparr>, sv_keys = empty_db\<lparr>rcontent := [key_row (demo_owner, replicate 32 9, ''t'')]\<rparr>,
     sv_files = empty_db, sv_transfers = empty_db, sv_cwd = []\<rparr>"

definition new_memory_stores ::
  "(MemoryUserRepository, FakeHasher, MemorySessionStore, VectorAudit, BinaryFileStorage, MemoryPubkeyDirectory, MemoryFileRepository, unit) Stores" where
  "new_memory_stores = \<lparr>sv_users = emptyMemoryUserRepository, sv_hasher = \<lparr>known = [], ctr = 0\<rparr>, sv_sessions = emptyMemorySessionStore,
     sv_audit = \<lparr>vlog = []\<rparr>, sv_storage = \<lparr>root = ''/s'', disk = []\<rparr>, sv_keys = \<lparr>store = [(demo_owner, replicate 32 9)]\<rparr>,
     sv_files = emptyMemoryFileRepository, sv_transfers = (), sv_cwd = []\<rparr>"

lemma new_stores_sim: "stores_sim ref_databases new_sqlite_stores new_memory_stores"
proof -
  have "users_sim [] emptyMemoryUserRepository" using mem_inv_empty by (simp add: users_sim_def emptyMemoryUserRepository_def)
  moreover have "files_sim [] emptyMemoryFileRepository"
    by (auto simp: files_sim_def memfile_inv_def emptyMemoryFileRepository_def mem_files_def holds_files_def)
  moreover have "keys_sim [key_row (demo_owner, replicate 32 9, ''t'')] \<lparr>store = [(demo_owner, replicate 32 9)]\<rparr>"
    unfolding keys_sim_def by (rule exI [of _ "[(demo_owner, replicate 32 9, ''t'')]"]) (simp add: holds_keys_def demo_owner_def plain_generateUserId)
  ultimately show ?thesis
    by (simp add: stores_sim_def transfer_sim_def transfer_view_def new_sqlite_stores_def new_memory_stores_def ref_databases_def empty_db_def)
qed

text \<open>No administrator is set up; a client registers and then sends a wrong password.\<close>

definition sample_conns :: "(nat \<times> (env \<times> Frame) list) list" where
  "sample_conns = [(9, map (Pair demo_env)
     [\<lparr>ftype = REGISTER, requestId = 1, body = encodeRegister ''bob'' ''b@x'' ''password''\<rparr>,
      \<lparr>ftype = AUTH, requestId = 2, body = encodeLogin ''bob'' ''guess''\<rparr>])]"

abbreviation memory_auth :: "(MemoryUserRepository, FakeHasher, MemorySessionStore, VectorAudit) AuthPorts" where
  "memory_auth \<equiv> wired memory_users fake_hasher memory_sessions vector_audit"

abbreviation sample_register where
  "sample_register \<equiv> registerUser memory_auth (\<lambda>_. 1) (\<lambda>_. 2) ''bob'' ''b@x'' ''password'' ''user'' (auth_view new_memory_stores)"

abbreviation sample_login where
  "sample_login \<equiv> login memory_auth (\<lambda>_. 1) 2000 ''bob'' ''guess'' (snd sample_register)"

lemma sample_runs:
  "fst sample_register = Inr (success (generateUserId (\<lambda>_. 2)))" "fst sample_login = Inr (failure ''Login failed'')"
  "admissible (CallLogin (\<lambda>_. 1) 2000 ''bob'' ''guess'') memory_sessions (snd sample_register)"
  by code_simp+

lemma sample_payloads:
  "decodeRegister (encodeRegister ''bob'' ''b@x'' ''password'') = Inr \<lparr>rp_username = ''bob'', rp_email = ''b@x'', rp_password = ''password''\<rparr>"
  "decodeLogin (encodeLogin ''bob'' ''guess'') = Inr \<lparr>lp_username = ''bob'', lp_password = ''guess''\<rparr>"
  by code_simp+

lemma register_run:
  assumes "ftype f = REGISTER" "decodeRegister (body f) = Inr pl" "0 < link c"
    "registerUser (auth_service P) (rd1 e) (rd2 e) (rp_username pl) (rp_email pl) (rp_password pl) ''user'' (auth_view (stores c)) = (Inr (success i), x)"
  shows "handle P e f c = (Inr (), c\<lparr>stores := put_auth x (stores c), link := link c - 1,
    written := written c @ [\<lparr>ftype = REGISTER, requestId = requestId f, body = bytes_of_string (formatSafeAuthMessage ''REGISTER_OK'' (rp_username pl))\<rparr>]\<rparr>)"
  using assms by (simp add: handle_def handle_register_def catchS_def bindS_def getS_def onAuth_def zoomS_def reply_def sendFrame_def Let_def)

lemma auth_refused_run:
  assumes "ftype f = AUTH" "decodeLogin (body f) = Inr pl" "0 < link c"
    "login (auth_service P) (rd1 e) (now1 e) (lp_username pl) (lp_password pl) (auth_view (stores c)) = (Inr (failure m), x)"
  shows "handle P e f c = (Inr (), c\<lparr>stores := put_auth x (stores c), link := link c - 1,
    written := written c @ [\<lparr>ftype = ERR, requestId = requestId f, body = bytes_of_string (formatSafeAuthMessage ''LOGIN_FAIL'' (lp_username pl))\<rparr>]\<rparr>)"
  using assms by (simp add: handle_def handle_auth_def catchS_def bindS_def getS_def onAuth_def zoomS_def reply_def sendFrame_def Let_def)

lemma auth_view_put: "auth_view (put_auth x s) = x"
  by (simp add: auth_view_def put_auth_def)

theorem server_on_sqlite_witness:
  "let P = sqlite_server (ref_sqlite users_schema users_stmts) (ref_sqlite files_schema files_stmts) (ref_sqlite keys_schema keys_stmts) ''t''
         (ref_sqlite transfers_schema transfers_stmts) fake_hasher memory_sessions vector_audit (binary_storage good_disk)
   in \<exists>s1. boot P True (\<lambda>_. True) (\<lambda>_. 3) (\<lambda>_. 4) '''' '''' '''' new_sqlite_stores = (Inr (), s1)
        \<and> transcripts P sample_conns s1 =
            [[\<lparr>ftype = REGISTER, requestId = 1, body = bytes_of_string (formatSafeAuthMessage ''REGISTER_OK'' ''bob'')\<rparr>,
              \<lparr>ftype = ERR, requestId = 2, body = bytes_of_string (formatSafeAuthMessage ''LOGIN_FAIL'' ''bob'')\<rparr>]]"
proof -
  let ?M = "memory_server fake_hasher memory_sessions vector_audit (binary_storage good_disk) demo_transfers"
  let ?f = "\<lparr>ftype = REGISTER, requestId = 1, body = encodeRegister ''bob'' ''b@x'' ''password''\<rparr>"
  let ?g = "\<lparr>ftype = AUTH, requestId = 2, body = encodeLogin ''bob'' ''guess''\<rparr>"
  obtain x where x: "sample_register = (Inr (success (generateUserId (\<lambda>_. 2))), x)" using sample_runs(1) by (metis prod.collapse)
  obtain y where y: "sample_login = (Inr (failure ''Login failed''), y)" using sample_runs(2) by (metis prod.collapse)
  have boot: "boot ?M True (\<lambda>_. True) (\<lambda>_. 3) (\<lambda>_. 4) '''' '''' '''' new_memory_stores = (Inr (), new_memory_stores)"
    by (simp add: boot_def Let_def memory_users_def MemUser_listAll_def new_memory_stores_def emptyMemoryUserRepository_def
        sweepOrphans_def dir_entries_def)
  have c0: "stores (accept 9 new_memory_stores) = new_memory_stores" "link (accept 9 new_memory_stores) = 9"
    "written (accept 9 new_memory_stores) = []" by (simp_all add: accept_def)
  define c1 where "c1 = snd (handle ?M demo_env ?f (accept 9 new_memory_stores))"
  have c1: "handle ?M demo_env ?f (accept 9 new_memory_stores) = (Inr (), c1)" "auth_view (stores c1) = x" "link c1 = 8"
    "written c1 = [\<lparr>ftype = REGISTER, requestId = 1, body = bytes_of_string (formatSafeAuthMessage ''REGISTER_OK'' ''bob'')\<rparr>]"
    using register_run [of ?f _ "accept 9 new_memory_stores" ?M demo_env] x c0 sample_payloads(1)
    by (simp_all add: c1_def demo_env_def auth_view_put)
  have c2: "\<exists>c2. handle ?M demo_env ?g c1 = (Inr (), c2)
      \<and> written c2 = written c1 @ [\<lparr>ftype = ERR, requestId = 2, body = bytes_of_string (formatSafeAuthMessage ''LOGIN_FAIL'' ''bob'')\<rparr>]"
    using auth_refused_run [of ?g _ c1 ?M demo_env] x y c1(2,3) sample_payloads(2) by (simp add: demo_env_def)
  have adm: "admissible_conns ?M sample_conns new_memory_stores"
    using c1 c2 x sample_runs(3) sample_payloads
    by (auto simp: sample_conns_def admissible_frame_def if_decoded_def demo_env_def plain_text_def)
  have "plain_hashes fake_hasher" "plain_text ''''" by (rule plain_fake_hashes) (simp add: plain_text_def)
  from server_on_sqlite [OF refserver.server_dbs_axioms new_stores_sim this(1,2,2) boot adm] show ?thesis
    using c1 c2 by (fastforce simp: Let_def sample_conns_def)
qed

end
