(* ===== verification/SqliteClient.thy ===== *)
theory SqliteClient
  imports SqliteServer
begin

text \<open>
  The client against the server as it runs in production: the upload of a file over the
  framed connection into the databases. It joins what is proved of the frames for any server
  whose transfer service accepts the upload with the agreement of the persistent and the
  in-memory repositories.
\<close>

text \<open>A connection of the server in memory, its stores, and what its transfer service works on.\<close>

type_synonym ('h, 'v) mem_conn =
  "(MemoryUserRepository, 'h, MemorySessionStore, VectorAudit, BinaryFileStorage, MemoryPubkeyDirectory, MemoryFileRepository, 'v) Conn"

type_synonym ('h, 'v) mem_stores =
  "(MemoryUserRepository, 'h, MemorySessionStore, VectorAudit, BinaryFileStorage, MemoryPubkeyDirectory, MemoryFileRepository, 'v) Stores"

type_synonym 'v mem_transfer_state =
  "(BinaryFileStorage, MemoryPubkeyDirectory, MemoryFileRepository, 'v, VectorAudit, MemorySessionStore, MemoryUserRepository) TransferState"

section \<open>What the service leaves in the databases\<close>

lemma stored_wrapped_decrypts:
  "decryptAndVerify L blob (wrapped (stored_file r)) dig sk = decryptAndVerify L blob (wrapped r) dig sk"
  by (simp add: decryptAndVerify_def stored_file_def)

lemma stored_file_names [simp]:
  "origName (stored_file r) = origName r" "digest (stored_file r) = digest r" "file_id (stored_file r) = file_id r"
  by (simp_all add: stored_file_def)

lemma wrapped_sized: "length (nonce wk) = 12 \<Longrightarrow> length (wbytes wk) = 64 \<Longrightarrow> blob_sized wk"
  by (simp add: blob_sized_def)

lemma memory_server_transfer:
  "transfer_service (memory_server H memory_sessions A B T) = mem_transfer B (Some T) (Some A)"
  by (simp add: transfer_service_def memory_server_def mem_transfer_def)

context server_dbs
begin

lemma upload_on_sqlite:
  fixes c :: "('h, 'v) mem_conn"
  assumes sim: "transfer_sim D s (transfer_view (stores c))" and can: "can_store envs c x ru recip up"
    and plain: "plain_text recip" "plain_text name" "plain_text up" "plain_text (uid (userId x))"
    and name: "CHR ''/'' \<notin> set name" "validate name sz fake_header = Inr ()"
    and dig: "length (dbytes dig) = 32" "blob_sized wk" and clk: "- (2 ^ 63) \<le> now3 (envs j)" "now3 (envs j) < 2 ^ 63"
    and fr: "fr = new_record (rd1 (envs j)) (rd2 (envs j)) (now3 (envs j)) (userId x) (user_id ru) name up sz dig wk"
  shows "\<exists>s'. \<exists>t' :: 'v mem_transfer_state.
      upload (transfer_service (sqlite_server Lu Lf Lk n Lt H memory_sessions vector_audit (binary_storage good_disk)))
        (now2 (envs j)) (now3 (envs j)) (rd1 (envs j)) (rd2 (envs j)) (rd3 (envs j)) (SessionId (connToken c)) recip name opaque up sz dig wk s
      = (Inr (success (new_transfer (rd3 (envs j)) fr)), s')
    \<and> transfer_sim D s' t' \<and> mem_files (ts_files t') = (mem_files (sv_files (stores c)))(fid (file_id fr) \<mapsto> fr)
    \<and> bin_blobs (ts_storage s') (storageId fr) = Some opaque"
proof -
  define M where "M = memory_server H memory_sessions vector_audit (binary_storage good_disk) (undefined :: 'v ITransferRepository)"
  obtain t' where t': "upload (transfer_service M) (now2 (envs j)) (now3 (envs j)) (rd1 (envs j)) (rd2 (envs j)) (rd3 (envs j))
        (SessionId (connToken c)) recip name opaque up sz dig wk (transfer_view (stores c))
      = (Inr (success (new_transfer (rd3 (envs j)) fr)), t')"
    "mem_files (ts_files t') = (mem_files (sv_files (stores c)))(fid (file_id fr) \<mapsto> fr)"
    "bin_blobs (ts_storage t') (storageId fr) = Some opaque"
    unfolding M_def memory_server_transfer using can_store_upload [OF can name fr] by blast
  have who: "plain_text (uid u)" if "userFor memory_sessions (SessionId (connToken c)) (ts_sessions (transfer_view (stores c))) = Inr u" for u
    using that can plain(4) by (simp add: memsess.userFor can_store_def transfer_view_def)
  have "alike (transfer_sim D)
      (upload (transfer_service (sqlite_server Lu Lf Lk n Lt H memory_sessions vector_audit (binary_storage good_disk)))
        (now2 (envs j)) (now3 (envs j)) (rd1 (envs j)) (rd2 (envs j)) (rd3 (envs j)) (SessionId (connToken c)) recip name opaque up sz dig wk) s
      (upload (transfer_service M) (now2 (envs j)) (now3 (envs j)) (rd1 (envs j)) (rd2 (envs j)) (rd3 (envs j))
        (SessionId (connToken c)) recip name opaque up sz dig wk) (transfer_view (stores c))"
    unfolding M_def by (rule upload_alike [OF sim plain(1-3) dig clk who])
  then show ?thesis
  proof (cases rule: alike_cases)
    case (returns r s' t'')
    then have "ts_storage s' = ts_storage t'" using t'(1) by (simp add: transfer_sim_def)
    with returns t' show ?thesis by auto
  qed (use t'(1) in simp)
qed

end

section \<open>Properties\<close>

text \<open>
  C15. An upload into the databases arrives. The client encrypts the file, announces it,
  sends it in chunks over the framed connection and commits it at the server wired to the
  persistent repositories, over databases that work and hold what consistent in-memory
  stores hold. Then the client reports success, the tables hold exactly one record more,
  which the file repository finds under its identifier, owned by the session's user and
  addressed to the recipient, and the blob it names decrypts with the recipient's private
  key, under the wrapped key and digest read back from the row, to exactly the bytes of the
  file. The transfer database may fail in any way.
\<close>

theorem client_upload_on_sqlite:
  fixes m :: "('h, 'v) mem_conn"
  assumes dbs: "server_dbs Lu Lf Lk D"
    and crypto: "openssl_ok (ssl e) pubOf dh E G" "\<forall>i n. \<exists>b. rndFile e i n = Some b \<and> length b = n" "length sk = 32"
    and client: "sessionToken cl \<noteq> []" "askYesNo answer" "map_of (cfiles cl) path = Some plain"
      "map_of (pubCache cl) recip = Some (pubOf sk)" "length recip \<le> 1000000" "length (filename path) \<le> 1000000"
    and valid: "validate (filename path) (word_of_nat (length plain)) fake_header = Inr ()" and sized: "length plain < 2 ^ 64"
    and server: "in_step (wire cl)" "conn_sim D (sconn (wire cl)) m" "can_store envs m x ru recip (uid (generateUserId (rdUpload e)))"
      "length plain + 20 < link (sconn (wire cl))"
    and texts: "plain_text recip" "plain_text (filename path)" "plain_text (uid (userId x))"
    and clk: "\<forall>j. - (2 ^ 63) \<le> now3 (envs j) \<and> now3 (envs j) < 2 ^ 63"
  shows "\<exists>w fr t. \<exists>m' :: ('h, 'v) mem_stores. client_upload (server_link (sqlite_server Lu Lf Lk n Lt H memory_sessions vector_audit (binary_storage good_disk)) envs)
          e path recip answer cl
        = (Inr (), cl\<lparr>wire := w, printed := printed cl @ [Safe (''UPLOAD ok transfer '' @ t)]\<rparr>)
     \<and> stores_sim D (stores (sconn w)) m' \<and> mem_files (sv_files m') = (mem_files (sv_files (stores m)))(fid (file_id fr) \<mapsto> fr)
     \<and> SqliteFile_findById Lf (file_id fr) (sv_files (stores (sconn w))) = Inr (success (stored_file fr))
     \<and> owner fr = userId x \<and> recipient fr = user_id ru \<and> origName fr = filename path
     \<and> (\<exists>blob. bin_blobs (sv_storage (stores (sconn w))) (storageId fr) = Some blob
          \<and> decryptAndVerify (ssl e) blob (wrapped (stored_file fr)) (digest (stored_file fr)) sk = Inr plain)"
proof -
  let ?P = "sqlite_server Lu Lf Lk n Lt H memory_sessions vector_audit (binary_storage good_disk)"
  let ?c = "sconn (wire cl)" and ?up = "uid (generateUserId (rdUpload e))"
  let ?fr = "\<lambda>j dig wk. new_record (rd1 (envs j)) (rd2 (envs j)) (now3 (envs j)) (userId x) (user_id ru) (filename path) ?up (word_of_nat (length plain)) dig wk"
  let ?Q = "\<lambda>j opaque dig wk s'.
      \<exists>t' :: 'v mem_transfer_state.
      transfer_sim D s' t'
      \<and> mem_files (ts_files t') = (mem_files (sv_files (stores m)))(fid (file_id (?fr j dig wk)) \<mapsto> ?fr j dig wk)
      \<and> bin_blobs (ts_storage s') (storageId (?fr j dig wk)) = Some opaque"
  note sim = conn_simD [OF server(2)]
  have tok: "connToken ?c \<noteq> []" using server(3) sim(5) by (simp add: can_store_def)
  have val: "isValid (sessions ?P) (SessionId (connToken ?c)) (now1 (envs j)) (sv_sessions (stores ?c))" for j
    using can_store_valid [OF server(3)] sim(4,5) by simp
  have acc: "\<exists>s'. upload (transfer_service ?P) (now2 (envs j)) (now3 (envs j)) (rd1 (envs j)) (rd2 (envs j)) (rd3 (envs j))
          (SessionId (connToken ?c)) recip (filename path) opaque ?up (word_of_nat (length plain)) dig wk
          (transfer_view (stores ?c)) = (Inr (success (new_transfer (rd3 (envs j)) (?fr j dig wk))), s') \<and> ?Q j opaque dig wk s'"
    if dig: "length (dbytes dig) = 32" and wk: "length (nonce wk) = 12" "length (wbytes wk) = 64" for j opaque dig wk
    using server_dbs.upload_on_sqlite [OF dbs sim(3) server(3) texts(1,2) plain_generateUserId texts(3) filename_plain valid dig
        wrapped_sized [OF wk] clk [rule_format, THEN conjunct1] clk [rule_format, THEN conjunct2] refl,
        where j = j and n = n and Lt = Lt and H = H and opaque = opaque]
    unfolding sim(5) by blast
  have "\<exists>w t j opaque dig wk s'. client_upload (server_link ?P envs) e path recip answer cl
        = (Inr (), cl\<lparr>wire := w, printed := printed cl @ [Safe (''UPLOAD ok transfer '' @ t)]\<rparr>)
     \<and> stores (sconn w) = put_transfer s' (stores ?c) \<and> ?Q j opaque dig wk s' \<and> decryptAndVerify (ssl e) opaque wk dig sk = Inr plain"
    by (rule client_upload_served [where fr = ?fr and Q = ?Q, OF crypto client valid sized server(1) tok server(4) val]) (rule acc)
  then obtain w t j opaque dig wk s' and t' :: "'v mem_transfer_state" where w: "client_upload (server_link ?P envs) e path recip answer cl
        = (Inr (), cl\<lparr>wire := w, printed := printed cl @ [Safe (''UPLOAD ok transfer '' @ t)]\<rparr>)"
    "stores (sconn w) = put_transfer s' (stores ?c)" "transfer_sim D s' t'"
    "mem_files (ts_files t') = (mem_files (sv_files (stores m)))(fid (file_id (?fr j dig wk)) \<mapsto> ?fr j dig wk)"
    "bin_blobs (ts_storage s') (storageId (?fr j dig wk)) = Some opaque" "decryptAndVerify (ssl e) opaque wk dig sk = Inr plain"
    by blast
  have st: "stores_sim D (stores (sconn w)) (put_transfer t' (stores m))"
    unfolding w(2) by (rule put_transfer_sim [OF sim(1) w(3)])
  define fr where "fr = ?fr j dig wk"
  have sel: "owner fr = userId x" "recipient fr = user_id ru" "origName fr = filename path" "wrapped fr = wk" "digest fr = dig"
    "plain_text (fid (file_id fr))"
    using plain_generateUserId by (simp_all add: fr_def new_record_def)
  have put: "sv_files (stores (sconn w)) = ts_files s'" "sv_storage (stores (sconn w)) = ts_storage s'"
    "sv_files (put_transfer t' (stores m)) = ts_files t'" by (simp_all add: w(2) put_transfer_def)
  have "SqliteFile_findById Lf (file_id fr) (ts_files s') = Inr (success (stored_file fr))"
    using files_db.findFile_sim [OF server_dbs.axioms(2) [OF dbs] _ sel(6), of "ts_files s'" "ts_files t'"] w(3,4)
    by (simp add: transfer_sim_def fr_def)
  then show ?thesis
    using w(1,4,5,6) st sel put unfolding fr_def [symmetric]
    by (intro exI [of _ w] exI [of _ fr] exI [of _ t] exI [of _ "put_transfer t' (stores m)"]) (simp add: stored_wrapped_decrypts)
qed

text \<open>The stores of the example server, with the user, the key and no file in tables.\<close>

definition demo_sqlite_stores :: "(refdb, FakeHasher, MemorySessionStore, VectorAudit, BinaryFileStorage, refdb, refdb, refdb) Stores" where
  "demo_sqlite_stores = \<lparr>sv_users = empty_db\<lparr>rcontent := [user_row (demo_user 0) ''h'']\<rparr>, sv_hasher = sv_hasher demo_stores,
     sv_sessions = sv_sessions demo_stores, sv_audit = sv_audit demo_stores, sv_storage = sv_storage demo_stores,
     sv_keys = empty_db\<lparr>rcontent := [key_row (''1'', replicate 32 9, ''t'')]\<rparr>, sv_files = empty_db, sv_transfers = empty_db, sv_cwd = []\<rparr>"

definition demo_sqlite_client ::
  "(refdb, FakeHasher, MemorySessionStore, VectorAudit, BinaryFileStorage, refdb, refdb, refdb) World Client" where
  "demo_sqlite_client = \<lparr>sessionToken = sid demo_token, loggedUser = ''bob'', localKeys = [], pubCache = [(''bob'', replicate 32 9)],
     cfiles = [(''a.pdf'', [1, 2, 3])], printed = [],
     wire = \<lparr>sconn = accept 100 demo_sqlite_stores\<lparr>connToken := sid demo_token\<rparr>, tick = 0, unread = 0, open_conn = True\<rparr>\<rparr>"

lemma demo_stores_sim: "stores_sim ref_databases demo_sqlite_stores demo_stores"
proof -
  have "users_sim [user_row (demo_user 0) ''h''] (demo_repo 0)"
    using demo_inv [of 0] by (simp add: users_sim_def demo_repo_def mem_hashes_def)
      (simp add: demo_user_def storable_user_def plain_text_def in_range_def)
  moreover have "files_sim [] emptyMemoryFileRepository"
    by (auto simp: files_sim_def memfile_inv_def emptyMemoryFileRepository_def mem_files_def holds_files_def)
  moreover have "keys_sim [key_row (''1'', replicate 32 9, ''t'')] \<lparr>store = [(''1'', replicate 32 9)]\<rparr>"
    unfolding keys_sim_def by (rule exI [of _ "[(''1'', replicate 32 9, ''t'')]"]) (simp add: holds_keys_def plain_text_def)
  ultimately show ?thesis
    by (simp add: stores_sim_def transfer_sim_def transfer_view_def demo_sqlite_stores_def demo_stores_def demo_transfer_def
        ref_databases_def empty_db_def)
qed

theorem client_upload_on_sqlite_witness:
  "let P = sqlite_server (ref_sqlite users_schema users_stmts) (ref_sqlite files_schema files_stmts) (ref_sqlite keys_schema keys_stmts) ''t''
         (ref_sqlite transfers_schema transfers_stmts) fake_hasher memory_sessions vector_audit (binary_storage good_disk)
   in \<exists>w fr t blob. client_upload (server_link P (\<lambda>_. demo_env)) demo_client_env ''a.pdf'' ''bob'' ''y'' demo_sqlite_client
        = (Inr (), demo_sqlite_client\<lparr>wire := w, printed := [Safe (''UPLOAD ok transfer '' @ t)]\<rparr>)
     \<and> SqliteFile_findById (ref_sqlite files_schema files_stmts) (file_id fr) (sv_files (stores (sconn w))) = Inr (success (stored_file fr))
     \<and> owner fr = UserId ''1'' \<and> recipient fr = UserId ''1'' \<and> origName fr = ''a.pdf''
     \<and> bin_blobs (sv_storage (stores (sconn w))) (storageId fr) = Some blob
     \<and> decryptAndVerify demo_openssl blob (wrapped (stored_file fr)) (digest (stored_file fr)) (replicate 32 9) = Inr [1, 2, 3]"
proof -
  let ?cl = demo_sqlite_client and ?x = "new_session demo_token (UserId ''1'') 1000"
  have cl: "sessionToken ?cl \<noteq> []" "map_of (cfiles ?cl) ''a.pdf'' = Some [1, 2, 3]" "map_of (pubCache ?cl) ''bob'' = Some (replicate 32 9)"
    "in_step (wire ?cl)" "length [1, 2, 3 :: byte] + 20 < link (sconn (wire ?cl))" "printed ?cl = []"
    using demo_client_facts(6) by (simp_all add: demo_sqlite_client_def demo_client_def in_step_def accept_def)
  have sim: "conn_sim ref_databases (sconn (wire ?cl)) (demo_conn 100)"
    using demo_stores_sim by (simp add: conn_sim_def demo_sqlite_client_def demo_conn_def accept_def)
  have texts: "plain_text ''bob''" "plain_text (filename ''a.pdf'')" "plain_text (uid (userId ?x))"
    by (simp_all add: demo_client_facts(2) plain_text_def new_session_def)
  have clk: "\<forall>j::nat. - (2 ^ 63) \<le> now3 demo_env \<and> now3 demo_env < 2 ^ 63" by (simp add: demo_env_def)
  have sized: "length [1, 2, 3 :: byte] < 2 ^ 64" by simp
  have c: "openssl_ok (ssl demo_client_env) (\<lambda>a. a) xor_bytes (\<lambda>k n p. p) (\<lambda>k n p. replicate 16 0)"
    "\<forall>i n. \<exists>b. rndFile demo_client_env i n = Some b \<and> length b = n" "length (replicate 32 (9 :: byte)) = 32" "askYesNo ''y''"
    "length ''bob'' \<le> 1000000" "length (filename ''a.pdf'') \<le> 1000000"
    "validate (filename ''a.pdf'') (word_of_nat (length [1, 2, 3 :: byte])) fake_header = Inr ()"
    using demo_openssl_ok by (simp_all add: demo_client_facts askYesNo_def)
  from client_upload_on_sqlite [OF refserver.server_dbs_axioms c(1,2,3) cl(1) c(4) cl(2,3) c(5,6,7) sized cl(4) sim
      demo_can_store [OF demo_client_facts(1)] cl(5) texts clk, of "''t''" "ref_sqlite transfers_schema transfers_stmts" fake_hasher]
  show ?thesis unfolding Let_def demo_client_facts(2,4) cl(6) by (auto simp: new_session_def)
qed

end
