(* ===== verification/Fips180.thy ===== *)
theory Fips180
  imports Sha256
begin

text \<open>
  The program's hash function is SHA-256: a definition that follows the text of FIPS 180-4
  section by section, its constants computed from the primes as the standard describes
  them, and the proof that \<^verbatim>\<open>include/infrastructure/sha256.hpp\<close> computes the same bytes.
\<close>

section \<open>The standard\<close>

text \<open>
  4.2.2 and 5.3.3. The constants are the first 32 bits of the fractional parts of the cube
  roots of the first 64 primes, and of the square roots of the first eight.
\<close>

definition fips_primes :: "int list" where
  "fips_primes = concat [
     [2, 3, 5, 7, 11, 13, 17, 19, 23, 29, 31, 37, 41, 43, 47, 53],
     [59, 61, 67, 71, 73, 79, 83, 89, 97, 101, 103, 107, 109, 113, 127, 131],
     [137, 139, 149, 151, 157, 163, 167, 173, 179, 181, 191, 193, 197, 199, 211, 223],
     [227, 229, 233, 239, 241, 251, 257, 263, 269, 271, 277, 281, 283, 293, 307, 311]]"

text \<open>The integer part of a root below \<open>2^40\<close>, one bit after the other.\<close>

fun root_bits :: "nat \<Rightarrow> nat \<Rightarrow> int \<Rightarrow> int \<Rightarrow> int" where
  "root_bits k 0 x n = n"
| "root_bits k (Suc i) x n = root_bits k i x (if (n + 2 ^ i) ^ k \<le> x then n + 2 ^ i else n)"

definition floor_root :: "nat \<Rightarrow> int \<Rightarrow> int" where
  "floor_root k x = root_bits k 40 x 0"

text \<open>The low 32 bits of the root of \<open>p * 2^(32 k)\<close> are the fractional bits of the root of \<open>p\<close>.\<close>

definition root_fraction :: "nat \<Rightarrow> int \<Rightarrow> u32" where
  "root_fraction k p = word_of_int (floor_root k (p * 2 ^ (32 * k)))"

definition fips_K :: "nat \<Rightarrow> u32" where
  "fips_K t = root_fraction 3 (fips_primes ! t)"

definition fips_H0 :: "u32 list" where
  "fips_H0 = map (root_fraction 2) (take 8 fips_primes)"

lemma root_bits_spec:
  assumes "0 < k" "0 \<le> n" "n ^ k \<le> x" "x < (n + 2 ^ i) ^ k"
  shows "n \<le> root_bits k i x n \<and> root_bits k i x n ^ k \<le> x \<and> x < (root_bits k i x n + 1) ^ k"
  using assms(2-4)
proof (induction i arbitrary: n)
  case (Suc i)
  have split: "n + 2 ^ Suc i = (n + 2 ^ i) + 2 ^ i" by simp
  show ?case
  proof (cases "(n + 2 ^ i) ^ k \<le> x")
    case True
    have "n + 2 ^ i \<le> root_bits k i x (n + 2 ^ i) \<and> root_bits k i x (n + 2 ^ i) ^ k \<le> x \<and> x < (root_bits k i x (n + 2 ^ i) + 1) ^ k"
      by (rule Suc.IH) (use True Suc.prems in \<open>simp_all only: split, simp_all\<close>)
    then show ?thesis using True by (auto intro: order_trans [of n "n + 2 ^ i"])
  next
    case False
    then show ?thesis using Suc by simp
  qed
qed simp

lemma floor_root_spec:
  assumes "0 < k" "0 \<le> x" "x < (2 ^ 40) ^ k"
  shows "0 \<le> floor_root k x \<and> floor_root k x ^ k \<le> x \<and> x < (floor_root k x + 1) ^ k"
  using root_bits_spec [of k 0 x 40] assms by (simp add: floor_root_def zero_power)

lemma floor_root_unique:
  assumes "0 < k" "0 \<le> n" "n ^ k \<le> x" "x < (n + 1) ^ k" "n < 2 ^ 40"
  shows "floor_root k x = n"
proof -
  have "(n + 1) ^ k \<le> (2 ^ 40) ^ k" using assms(2,5) by (intro power_mono) simp_all
  then have r: "0 \<le> floor_root k x" "floor_root k x ^ k \<le> x" "x < (floor_root k x + 1) ^ k"
    using floor_root_spec [of k x] assms(1-4) zero_le_power [of n k] by linarith+
  have "n < floor_root k x + 1" using r(1,3) assms(2,3) by (metis add_nonneg_pos le_less_trans order_less_imp_le power_less_imp_less_base zero_less_one)
  moreover have "floor_root k x < n + 1" using r(2) assms(2,4) by (metis add_nonneg_pos le_less_trans order_less_imp_le power_less_imp_less_base zero_less_one)
  ultimately show ?thesis by simp
qed

text \<open>A constant is checked by multiplication: with an integer part before it, its power is just below the prime.\<close>

definition fraction_of :: "nat \<Rightarrow> int \<Rightarrow> int \<Rightarrow> int \<Rightarrow> bool" where
  "fraction_of k p m c \<longleftrightarrow> 0 \<le> m \<and> m < 2 ^ 8 \<and> 0 \<le> c \<and> c < 2 ^ 32 \<and> (m * 2 ^ 32 + c) ^ k \<le> p * 2 ^ (32 * k)
     \<and> p * 2 ^ (32 * k) < (m * 2 ^ 32 + c + 1) ^ k"

lemma fraction_of_root: "0 < k \<Longrightarrow> fraction_of k p m c \<Longrightarrow> root_fraction k p = word_of_int c"
proof -
  assume k: "0 < k" and f: "fraction_of k p m c"
  have "m * 2 ^ 32 + c < 2 ^ 40" using f by (simp add: fraction_of_def)
  then have "floor_root k (p * 2 ^ (32 * k)) = m * 2 ^ 32 + c"
    using k f by (intro floor_root_unique) (simp_all add: fraction_of_def)
  then have "root_fraction k p = word_of_int (m * 2 ^ 32) + word_of_int c" by (simp add: root_fraction_def)
  moreover have "word_of_int (m * 2 ^ 32) = (word_of_int 0 :: u32)" unfolding word_of_int_eq_iff by (simp add: take_bit_eq_mod)
  ultimately show ?thesis by simp
qed

definition cube_part :: "int \<Rightarrow> int" where
  "cube_part p = (if p < 8 then 1 else if p < 27 then 2 else if p < 64 then 3 else if p < 125 then 4 else if p < 216 then 5 else 6)"

lemma K_fractions: "list_all2 (\<lambda>p c. fraction_of 3 p (cube_part p) (uint c)) fips_primes K"
  by (simp add: fips_primes_def K_def fraction_of_def cube_part_def)

lemma list_all2_map_eq: "list_all2 (\<lambda>x y. y = f x) xs ys \<Longrightarrow> ys = map f xs"
  by (induction rule: list_all2_induct) simp_all

lemma K_fips: "K = map (root_fraction 3) fips_primes"
proof -
  have "list_all2 (\<lambda>p c. c = root_fraction 3 p) fips_primes K"
    by (rule list_all2_mono [OF K_fractions]) (use fraction_of_root [of 3] in simp)
  then show ?thesis by (rule list_all2_map_eq)
qed

lemma H0_fractions: "list_all2 (\<lambda>p c. fraction_of 2 p (if p < 4 then 1 else if p < 9 then 2 else if p < 16 then 3 else 4) (uint c)) (take 8 fips_primes) H0"
  by (simp add: fips_primes_def H0_def fraction_of_def)

lemma H0_fips: "H0 = fips_H0"
proof -
  have "list_all2 (\<lambda>p c. c = root_fraction 2 p) (take 8 fips_primes) H0"
    by (rule list_all2_mono [OF H0_fractions]) (use fraction_of_root [of 2] in simp)
  then show ?thesis unfolding fips_H0_def by (rule list_all2_map_eq)
qed

section \<open>The standard, continued\<close>

text \<open>4.1.2. The six functions, with the rotation of the word library.\<close>

definition Ch :: "u32 \<Rightarrow> u32 \<Rightarrow> u32 \<Rightarrow> u32" where
  "Ch x y z = (x AND y) XOR (NOT x AND z)"

definition Maj :: "u32 \<Rightarrow> u32 \<Rightarrow> u32 \<Rightarrow> u32" where
  "Maj x y z = (x AND y) XOR (x AND z) XOR (y AND z)"

definition Sigma0 :: "u32 \<Rightarrow> u32" where
  "Sigma0 x = word_rotr 2 x XOR word_rotr 13 x XOR word_rotr 22 x"

definition Sigma1 :: "u32 \<Rightarrow> u32" where
  "Sigma1 x = word_rotr 6 x XOR word_rotr 11 x XOR word_rotr 25 x"

definition sigma0 :: "u32 \<Rightarrow> u32" where
  "sigma0 x = word_rotr 7 x XOR word_rotr 18 x XOR drop_bit 3 x"

definition sigma1 :: "u32 \<Rightarrow> u32" where
  "sigma1 x = word_rotr 17 x XOR word_rotr 19 x XOR drop_bit 10 x"

text \<open>3.1. A word is four bytes, the most significant first.\<close>

definition be_word :: "bytes \<Rightarrow> u32" where
  "be_word bs = word_of_int (foldl (\<lambda>n b. n * 256 + uint b) 0 bs)"

definition be_bytes :: "u32 \<Rightarrow> bytes" where
  "be_bytes w = map (\<lambda>i. word_of_int (uint w div 256 ^ i mod 256)) [3, 2, 1, 0]"

text \<open>5.1.1. One bit, the least number of zeros, and the length in bits.\<close>

definition fips_pad :: "bytes \<Rightarrow> bytes" where
  "fips_pad msg = msg @ [0x80] @ replicate ((119 - length msg mod 64) mod 64) 0
     @ map (\<lambda>i. word_of_nat (8 * length msg div 256 ^ i mod 256)) [7, 6, 5, 4, 3, 2, 1, 0]"

text \<open>6.2.2. The schedule, the working variables after each round, and the next hash value.\<close>

fun fips_W :: "bytes \<Rightarrow> nat \<Rightarrow> u32" where
  "fips_W M t = (if t < 16 then be_word (take 4 (drop (4 * t) M))
     else sigma1 (fips_W M (t - 2)) + fips_W M (t - 7) + sigma0 (fips_W M (t - 15)) + fips_W M (t - 16))"

declare fips_W.simps [simp del]

primrec fips_vars :: "bytes \<Rightarrow> u32 list \<Rightarrow> nat \<Rightarrow> regs" where
  "fips_vars M h 0 = (h ! 0, h ! 1, h ! 2, h ! 3, h ! 4, h ! 5, h ! 6, h ! 7)"
| "fips_vars M h (Suc t) =
     (let (a, b, c, d, e, f, g, hh) = fips_vars M h t;
          T1 = hh + Sigma1 e + Ch e f g + fips_K t + fips_W M t;
          T2 = Sigma0 a + Maj a b c
      in (T1 + T2, a, b, c, d + T1, e, f, g))"

definition fips_block :: "u32 list \<Rightarrow> bytes \<Rightarrow> u32 list" where
  "fips_block h M =
     (let (a, b, c, d, e, f, g, hh) = fips_vars M h 64
      in map2 (+) h [a, b, c, d, e, f, g, hh])"

definition fips_sha256 :: "bytes \<Rightarrow> bytes" where
  "fips_sha256 msg =
     (let P = fips_pad msg; blocks = map (\<lambda>i. take 64 (drop (64 * i) P)) [0..<length P div 64]
      in concat (map be_bytes (foldl fips_block fips_H0 blocks)))"

section \<open>The code computes it\<close>

lemma sha_functions: "ch = Ch" "maj = Maj" "bsig0 = Sigma0" "bsig1 = Sigma1" "ssig0 = sigma0" "ssig1 = sigma1"
  by (auto simp: fun_eq_iff ch_def Ch_def maj_def Maj_def bsig0_def Sigma0_def bsig1_def Sigma1_def ssig0_def sigma0_def ssig1_def sigma1_def
      rotr_word_rotr)

lemma K_nth: "t < 64 \<Longrightarrow> K ! t = fips_K t"
proof -
  assume "t < 64"
  moreover have "length fips_primes = 64" by (simp add: fips_primes_def)
  ultimately show ?thesis by (simp add: K_fips fips_K_def)
qed

lemma byte_of_int: "n div 2 ^ k mod 256 = take_bit 8 (drop_bit k (n :: int))"
  by (simp add: take_bit_eq_mod drop_bit_eq_div)

lemma byte_of_word: "k + 8 \<le> 32 \<Longrightarrow> (ucast (drop_bit k (word_of_int n :: u32)) :: byte) = word_of_int (n div 2 ^ k mod 256)"
  unfolding byte_of_int by (rule bit_word_eqI) (auto simp: bit_simps)

lemma byte_of_long: "k + 8 \<le> 64 \<Longrightarrow> (ucast (drop_bit k (word_of_int n :: u64)) :: byte) = word_of_int (n div 2 ^ k mod 256)"
  unfolding byte_of_int by (rule bit_word_eqI) (auto simp: bit_simps)

lemma put32be_bytes: "put32be [] w = be_bytes w"
  using byte_of_word [of 24 "uint w"] byte_of_word [of 16 "uint w"] byte_of_word [of 8 "uint w"] byte_of_word [of 0 "uint w"]
  by (simp add: put32be_def be_bytes_def ucast_low_byte)

lemma uint_u32: "0 \<le> n \<Longrightarrow> n < 2 ^ 32 \<Longrightarrow> uint (word_of_int n :: u32) = n"
  by (simp add: uint_word_of_int)

lemma four_or_more: "4 \<le> length xs \<Longrightarrow> \<exists>a b c d r. xs = a # b # c # d # r"
  by (auto simp: numeral_eq_Suc Suc_le_length_iff)

lemma digits256: "(m * 256 + uint (x :: byte)) div 256 = m" "(m * 256 + uint x) mod 256 = uint x" "uint x mod 256 = uint x"
proof -
  have "0 \<le> uint x" "uint x < 256" using uint_lt2p [of x] by simp_all
  then show "(m * 256 + uint x) div 256 = m" "(m * 256 + uint x) mod 256 = uint x" "uint x mod 256 = uint x" by simp_all
qed

lemma be_bytes_word: "be_bytes (be_word [x0, x1, x2, x3]) = [x0, x1, x2, x3]"
proof -
  let ?m = "uint x0 * 256 + uint x1" and ?n = "((uint x0 * 256 + uint x1) * 256 + uint x2) * 256 + uint x3"
  have b: "0 \<le> uint x" "uint x < 256" for x :: byte using uint_lt2p [of x] by simp_all
  have "0 \<le> ?n" "?n < 2 ^ 32" using b [of x0] b [of x1] b [of x2] b [of x3] by simp_all
  then have "uint (word_of_int ?n :: u32) = ?n" by (rule uint_u32)
  then have u: "uint (be_word [x0, x1, x2, x3]) = ?n" by (simp only: be_word_def foldl.simps mult_zero_left add_0)
  have "?n div 256 ^ 3 = ?n div 256 div 256 div 256" "?n div 256 ^ 2 = ?n div 256 div 256" "?n div 256 ^ 1 = ?n div 256" "?n div 256 ^ 0 = ?n"
    by (simp_all only: power_one_right power_0 div_by_1 power3_eq_cube power2_eq_square zdiv_zmult2_eq zero_le_numeral)
  then show ?thesis by (simp only: be_bytes_def u digits256 list.map word_of_int_uint)
qed

lemma be_bytes_inj: "be_bytes v = be_bytes w \<Longrightarrow> v = w"
  using get32be_put32be [of v "[]"] get32be_put32be [of w "[]"] by (simp add: put32be_bytes)

lemma get32be_word:
  assumes "i + 4 \<le> length b"
  shows "get32be b i = be_word (take 4 (drop i b))"
proof -
  obtain x0 x1 x2 x3 r where x: "drop i b = x0 # x1 # x2 # x3 # r" using four_or_more [of "drop i b"] assms by fastforce
  have "get32be b i = get32be (drop i b) 0" using assms by (simp add: get32be_def)
  moreover have "be_bytes (get32be (drop i b) 0) = be_bytes (be_word (take 4 (drop i b)))"
    using be32_split [of "drop i b"] by (simp add: put32be_bytes x be_bytes_word)
  ultimately show ?thesis using be_bytes_inj by simp
qed

lemma pad_fips: "pad msg = fips_pad msg"
proof -
  obtain k where k: "k < 64" "(length msg + 1 + k) mod 64 = 56"
    "pad msg = msg @ [0x80] @ replicate k 0 @ put64be [] (word_of_nat (length msg) * 8)"
    by (rule pad_eq)
  define m where "m = length msg mod 64"
  have m: "m < 64" "(m + 1 + k) mod 64 = 56"
    using k(2) mod_add_left_eq [of "length msg" 64 "1 + k"] unfolding m_def by (simp_all only: add.assoc mod_less_divisor zero_less_numeral)
  have "m + 1 + k = 56 \<or> m + 1 + k = 120" using m k(1) le_mod_geq [of 64 "m + 1 + k"] by (cases "m + 1 + k < 64") simp_all
  then have "k = (119 - m) mod 64"
  proof
    assume "m + 1 + k = 56"
    then have "119 - m = k + 64" by simp
    then show ?thesis using k(1) by simp
  qed (use k(1) in simp)
  moreover have "put64be [] (word_of_nat (length msg) * 8) = map (\<lambda>i. word_of_nat (8 * length msg div 256 ^ i mod 256)) [7, 6, 5, 4, 3, 2, 1, 0]"
  proof -
    have w: "word_of_nat (length msg) * 8 = (word_of_int (int (8 * length msg)) :: u64)" by simp
    have byte: "(ucast (drop_bit (i * 8) (word_of_int (int (8 * length msg)) :: u64)) :: byte) = word_of_nat (8 * length msg div 256 ^ i mod 256)"
      if "i < 8" for i
    proof -
      have "int (8 * length msg) div 2 ^ (i * 8) mod 256 = int (8 * length msg div 256 ^ i mod 256)"
        by (simp only: zdiv_int zmod_int of_nat_power mult.commute [of i] power_mult) simp
      moreover have "i * 8 + 8 \<le> 64" using that by simp
      ultimately show ?thesis using byte_of_long [of "i * 8" "int (8 * length msg)"] by (simp only: of_int_of_nat_eq)
    qed
    show ?thesis unfolding w put64be_def ucast_low_byte append_Nil by (rule map_cong [OF refl], rule byte) auto
  qed
  ultimately show ?thesis using k(3) by (simp add: fips_pad_def m_def)
qed

lemma sha256_blocks: "length (pad msg) mod 64 = 0"
proof -
  obtain k where "(length msg + 1 + k) mod 64 = 56" "length (pad msg) = length msg + 1 + k + 8"
    using pad_eq [of msg] by (metis (no_types, lifting) add.assoc length_append length_put64be length_replicate list.size(3,4) add.right_neutral One_nat_def)
  then show ?thesis using mod64_shift [of "length msg + 1 + k"] by simp
qed

lemma W_fips: "length M = 64 \<Longrightarrow> W M t = fips_W M t"
proof (induction M t rule: W.induct)
  case (1 M t)
  show ?case
  proof (cases "t < 16")
    case True
    then show ?thesis using 1(5) get32be_word [of "t * 4" M] by (simp add: W.simps [of M t] fips_W.simps [of M t] mult.commute)
  next
    case False
    then show ?thesis using 1 by (simp add: W.simps [of M t] fips_W.simps [of M t] sha_functions)
  qed
qed

lemma rounds_fips:
  assumes "length M = 64" "n \<le> 64"
  shows "foldl (round1 (schedule M)) (h ! 0, h ! 1, h ! 2, h ! 3, h ! 4, h ! 5, h ! 6, h ! 7) [0..<n] = fips_vars M h n"
  using assms(2)
proof (induction n)
  case (Suc n)
  have "schedule M ! n = fips_W M n" using Suc.prems assms(1) by (simp add: schedule_W W_fips)
  moreover have "K ! n = fips_K n" using Suc.prems by (simp add: K_nth)
  ultimately show ?case using Suc by (simp add: round1_def sha_functions Let_def split: prod.split)
qed simp

lemma compress_fips:
  assumes "length M = 64" "length h = 8"
  shows "compress h M = fips_block h M"
proof -
  obtain a b c d e f g i where h: "h = [a, b, c, d, e, f, g, i]"
    using assms(2) by (auto simp: numeral_eq_Suc length_Suc_conv)
  show ?thesis using rounds_fips [OF assms(1), of 64 h]
    by (simp add: compress_def fips_block_def h split: prod.split)
qed

lemma chunks_loop_blocks:
  "length data = 64 * n \<Longrightarrow> chunks_loop h data = foldl compress h (map (\<lambda>i. take 64 (drop (64 * i) data)) [0..<n])"
proof (induction n arbitrary: h data)
  case 0
  then show ?case by (simp add: chunks_loop.simps)
next
  case (Suc n)
  have "chunks_loop h data = chunks_loop (compress h (take 64 data)) (drop 64 data)"
    using Suc.prems by (subst chunks_loop.simps) auto
  also have "\<dots> = foldl compress (compress h (take 64 data)) (map (\<lambda>i. take 64 (drop (64 * i) (drop 64 data))) [0..<n])"
    using Suc by simp
  also have "map (\<lambda>i. take 64 (drop (64 * i) (drop 64 data))) [0..<n] = map (\<lambda>i. take 64 (drop (64 * i) data)) [1..<Suc n]"
  proof -
    have up: "[1..<Suc n] = map Suc [0..<n]" by (simp only: map_Suc_upt One_nat_def)
    show ?thesis unfolding up by (simp add: comp_def add.commute)
  qed
  finally show ?case unfolding upt_conv_Cons [OF zero_less_Suc] by simp
qed

lemma blocks_fips:
  assumes "length h = 8" "\<And>M. M \<in> set Ms \<Longrightarrow> length M = 64"
  shows "foldl compress h Ms = foldl fips_block h Ms"
  using assms
proof (induction Ms arbitrary: h)
  case (Cons M Ms)
  have "compress h M = fips_block h M" using Cons.prems by (simp add: compress_fips)
  moreover from this have "length (fips_block h M) = 8" by (metis length_compress)
  ultimately show ?case using Cons.IH [of "fips_block h M"] Cons.prems(2) by simp
qed simp

section \<open>Properties\<close>

text \<open>
  C10. The hash function the program carries is SHA-256 as FIPS 180-4 defines it, on every
  string: the shifts and ORs of \<open>rotr\<close> are rotations, the tables \<open>k\<close> and \<open>h\<close> are the fractional
  bits of the cube and square roots of the primes, the padding loop appends the padding of
  the standard, and the in-place schedule and rounds over 64-byte chunks compute its hash
  value. The length is taken in 64 bits, as in both; the standard stops at \<open>2^64\<close> bits.
\<close>

theorem sha256_is_fips: "hash_bytes msg = fips_sha256 (bytes_of_string msg)"
proof -
  let ?P = "pad (bytes_of_string msg)" and ?b = "\<lambda>P. map (\<lambda>i. take 64 (drop (64 * i) P)) [0..<length P div 64]"
  have len: "length ?P = 64 * (length ?P div 64)"
    using div_mult_mod_eq [of "length ?P" 64] sha256_blocks [of "bytes_of_string msg"] by simp
  have sixtyfour: "length M = 64" if "M \<in> set (?b ?P)" for M using that len by (auto simp: min_def)
  have "chunks_loop H0 ?P = foldl compress H0 (?b ?P)" by (rule chunks_loop_blocks [OF len])
  also have "\<dots> = foldl fips_block H0 (?b ?P)" by (rule blocks_fips [OF _ sixtyfour]) (simp add: H0_def)
  finally have h: "chunks_loop H0 ?P = foldl fips_block fips_H0 (?b (fips_pad (bytes_of_string msg)))"
    unfolding H0_fips pad_fips .
  have "length (chunks_loop H0 ?P) = 8" by (rule length_chunks_loop) (simp add: H0_def)
  then have "map (\<lambda>i. put32be [] (chunks_loop H0 ?P ! i)) [0..<8] = map be_bytes (chunks_loop H0 ?P)"
    by (intro nth_equalityI) (simp_all add: put32be_bytes del: upt_rec_numeral)
  then show ?thesis unfolding hash_bytes_def fips_sha256_def Let_def h by (rule arg_cong)
qed

end
