(* ===== verification/TypeInvariants.thy ===== *)
theory TypeInvariants
  imports AdminService
begin

text \<open>
  The invariants of the domain classes. \<open>User\<close> and \<open>Session\<close> check their fields in their
  constructors (\<^verbatim>\<open>include/domain/user.hpp\<close>, \<^verbatim>\<open>include/domain/session.hpp\<close>), but the services
  change stored objects through setters that do not; that every object the repositories hold
  is nevertheless well formed is proved here for every run of both services, with a rule per
  way operations are put together.
\<close>

section \<open>Well-formed objects\<close>

definition user_wf :: "User \<Rightarrow> bool" where
  "user_wf u \<longleftrightarrow> uid (user_id u) \<noteq> [] \<and> username u \<noteq> [] \<and> email u \<noteq> []
     \<and> (isActive u \<or> status u = ''inactive'') \<and> failedAttempts u \<ge> 0"

definition session_wf :: "Session \<Rightarrow> bool" where
  "session_wf x \<longleftrightarrow> sid (session_id x) \<noteq> [] \<and> uid (userId x) \<noteq> [] \<and> createdAt x < expiresAt x \<and> expiresAt x = createdAt x + session_ms"

definition repo_wf :: "MemoryUserRepository \<Rightarrow> bool" where
  "repo_wf m \<longleftrightarrow> (\<forall>u\<in>ran (map_of (usersById m)). user_wf u)"

definition sessions_wf :: "MemorySessionStore \<Rightarrow> bool" where
  "sessions_wf s \<longleftrightarrow> (\<forall>p\<in>set (byHash s). session_wf (snd p))"

definition state_wf :: "(MemoryUserRepository, 'h, MemorySessionStore, 'a) AuthState \<Rightarrow> bool" where
  "state_wf s \<longleftrightarrow> repo_wf (st_repo s) \<and> sessions_wf (st_sessions s)"

section \<open>Rules\<close>

text \<open>From a state with \<open>I\<close> a computation ends in one, also when it throws, and what it returns has \<open>Q\<close>.\<close>

definition yields :: "('s \<Rightarrow> bool) \<Rightarrow> ('s, 'x) sx \<Rightarrow> ('x \<Rightarrow> bool) \<Rightarrow> bool" where
  "yields I m Q \<longleftrightarrow> (\<forall>s. I s \<longrightarrow> I (snd (m s)) \<and> (\<forall>x. fst (m s) = Inr x \<longrightarrow> Q x))"

lemma yieldsD: "yields I m Q \<Longrightarrow> I s \<Longrightarrow> m s = (r, s') \<Longrightarrow> I s'"
  by (auto simp: yields_def dest: spec [of _ s])

lemma yields_ret [intro]: "Q x \<Longrightarrow> yields I (retS x) Q"
  by (simp add: yields_def retS_def)

lemma yields_get [intro]: "(\<And>s x. I s \<Longrightarrow> g s = Inr x \<Longrightarrow> Q x) \<Longrightarrow> yields I (getS g) Q"
  by (simp add: yields_def getS_def)

lemma yields_bind:
  assumes "yields I m Q'" "\<And>x. Q' x \<Longrightarrow> yields I (k x) Q"
  shows "yields I (bindS m k) Q"
  unfolding yields_def
proof (intro allI impI)
  fix s assume s: "I s"
  obtain r s' where m: "m s = (r, s')" by (metis prod.collapse)
  show "I (snd (bindS m k s)) \<and> (\<forall>x. fst (bindS m k s) = Inr x \<longrightarrow> Q x)"
    using assms s m unfolding yields_def by (cases r) (force simp: bindS_def)+
qed

lemma yields_catch:
  assumes "yields I m Q" "\<And>e. yields I (h e) Q"
  shows "yields I (catchS m h) Q"
  unfolding yields_def
proof (intro allI impI)
  fix s assume s: "I s"
  obtain r s' where m: "m s = (r, s')" by (metis prod.collapse)
  show "I (snd (catchS m h s)) \<and> (\<forall>x. fst (catchS m h s) = Inr x \<longrightarrow> Q x)"
    using assms s m unfolding yields_def by (cases r) (force simp: catchS_def)+
qed

lemma yields_auditing: "Q x \<Longrightarrow> yields state_wf (auditing P e x) Q"
  by (auto simp: yields_def state_wf_def sx_simps split: prod.split sum.splits)

lemma yields_hasher: "yields state_wf (onHasher m) (\<lambda>_. True)"
  by (auto simp: yields_def state_wf_def onHasher_def zoomS_def split: prod.split)

lemma yields_repo: "(\<And>r. repo_wf r \<Longrightarrow> repo_wf (snd (m r))) \<Longrightarrow> yields state_wf (onRepo m) (\<lambda>_. True)"
  by (auto simp: yields_def state_wf_def onRepo_def zoomS_def split: prod.split) (metis snd_conv)

lemma yields_sessions: "(\<And>r. sessions_wf r \<Longrightarrow> sessions_wf (snd (m r))) \<Longrightarrow> yields state_wf (onSessions m) (\<lambda>_. True)"
  by (auto simp: yields_def state_wf_def onSessions_def zoomS_def split: prod.split) (metis snd_conv)

section \<open>The operations on stored objects\<close>

lemma ran_update: "ran (map_of (AList.update k v m)) \<subseteq> insert v (ran (map_of m))"
  by (auto simp: update_conv' ran_def)

lemma ran_emplace: "ran (map_of (emplace k v m)) \<subseteq> insert v (ran (map_of m))"
  by (auto simp: emplace_def ran_def map_add_def split: option.splits if_splits)

lemma repo_wf_save: "user_wf u \<Longrightarrow> repo_wf r \<Longrightarrow> repo_wf (snd (saveUser memory_users u h r))"
  using ran_emplace [of "uid (user_id u)" u "usersById r"] by (auto simp: memory_users_def MemUser_save_def repo_wf_def)

lemma repo_wf_update: "user_wf u \<Longrightarrow> repo_wf r \<Longrightarrow> repo_wf (snd (updateUser memory_users u r))"
  using ran_update [of "uid (user_id u)" u "usersById r"]
  by (auto simp: memory_users_def MemUser_update_def repo_wf_def split: option.split)

lemma repo_wf_modify:
  assumes "\<And>u. user_wf u \<Longrightarrow> user_wf (f u)" "repo_wf r"
  shows "repo_wf (snd (MemUser_modify i f r))"
proof (cases "map_of (usersById r) (uid i)")
  case (Some u)
  then have "user_wf (f u)" using assms by (auto simp: repo_wf_def ran_def)
  then show ?thesis using Some assms(2) ran_update [of "uid i" "f u" "usersById r"] by (auto simp: MemUser_modify_def repo_wf_def)
qed (simp add: MemUser_modify_def assms(2))

lemma user_wf_setters:
  "user_wf u \<Longrightarrow> user_wf (setStatus u ''active'')" "user_wf u \<Longrightarrow> user_wf (setStatus u ''inactive'')"
  "user_wf u \<Longrightarrow> user_wf (setLockout u 0 0)" "user_wf u \<Longrightarrow> user_wf (login_failed u now)"
  by (auto simp: user_wf_def setStatus_def setLockout_def login_failed_def Let_def isActive_def)

lemma repo_wf_counters:
  "repo_wf r \<Longrightarrow> repo_wf (snd (recordLoginFailure memory_users i now r))"
  "repo_wf r \<Longrightarrow> repo_wf (snd (resetLoginFailures memory_users i r))"
  by (auto simp: memory_users_def MemUser_recordLoginFailure_def MemUser_resetLoginFailures_def intro: repo_wf_modify user_wf_setters)

lemma found_wf:
  "repo_wf r \<Longrightarrow> findByUsername memory_users n r = Inr f \<Longrightarrow> got f = Some u \<Longrightarrow> user_wf u"
  "repo_wf r \<Longrightarrow> findById memory_users i r = Inr f \<Longrightarrow> got f = Some u \<Longrightarrow> user_wf u"
  by (auto simp: memory_users_def MemUser_findByUsername_def MemUser_findById_def repo_wf_def ran_def split: option.splits)

lemma set_alist_update: "(k', v') \<in> set (AList.update k v xs) \<Longrightarrow> v' = v \<or> (k', v') \<in> set xs"
  by (induction xs) (auto split: if_splits)

lemma sessions_wf_create: "uid u \<noteq> [] \<Longrightarrow> sessions_wf s \<Longrightarrow> sessions_wf (snd (createForUser memory_sessions rd u now s))"
  by (auto simp: memory_sessions_def MemSess_createForUser_def Let_def mkSession_def sessions_wf_def session_wf_def
      dest!: set_alist_update split: if_splits)

lemma session_wf_revoked [simp]: "session_wf (x\<lparr>revoked := b\<rparr>) = session_wf x"
  by (simp add: session_wf_def)

lemma revoke_loop_wf: "\<forall>p\<in>set ps. session_wf (snd p) \<Longrightarrow> \<forall>p\<in>set (snd (revoke_loop u ps n)). session_wf (snd p)"
proof (induction ps arbitrary: n)
  case (Cons p ps)
  obtain h x where p: "p = (h, x)" by (cases p)
  obtain m qs where "revoke_loop u ps (n + 1) = (m, qs)" by (metis prod.collapse)
  moreover obtain m' qs' where "revoke_loop u ps n = (m', qs')" by (metis prod.collapse)
  ultimately show ?case using Cons.IH [of "n + 1"] Cons.IH [of n] Cons.prems by (simp add: p)
qed simp

lemma sessions_wf_revoke:
  "sessions_wf s \<Longrightarrow> sessions_wf (snd (invalidate memory_sessions t s))"
  "sessions_wf s \<Longrightarrow> sessions_wf (snd (invalidateAllForUser memory_sessions u s))"
proof -
  assume s: "sessions_wf s"
  show "sessions_wf (snd (invalidateAllForUser memory_sessions u s))"
    using s revoke_loop_wf [of "byHash s" u 0] by (auto simp: memory_sessions_def MemSess_invalidateAllForUser_def sessions_wf_def split: prod.split)
  have "session_wf (x\<lparr>revoked := True\<rparr>)" if "map_of (byHash s) h = Some x" for h x
    using map_of_SomeD [OF that] s by (force simp: sessions_wf_def)
  then show "sessions_wf (snd (invalidate memory_sessions t s))"
    using s by (auto simp: memory_sessions_def MemSess_invalidate_def Let_def sessions_wf_def dest!: set_alist_update split: option.splits)
qed

section \<open>The services\<close>

abbreviation services :: "'h IPasswordHasher \<Rightarrow> 'a IAuditLogger \<Rightarrow> (MemoryUserRepository, 'h, MemorySessionStore, 'a) AuthPorts" where
  "services H A \<equiv> wired memory_users H memory_sessions A"

lemma yields_register: "yields state_wf (registerUser (services H A) rdSalt rdId u mail pw rl) (\<lambda>_. True)"
proof -
  have "user_wf nu" if "mkUser (generateUserId rdId) u mail rl ''active'' 0 0 = Inr nu" for nu
    using that by (auto simp: mkUser_def user_wf_def isActive_def split: if_splits)
  then show ?thesis unfolding registerUser_def Let_def wired_sel
    by (auto intro!: yields_bind [where Q' = "\<lambda>_. True"] yields_bind [where Q' = user_wf and m = "getS (\<lambda>_. mkUser _ _ _ _ _ _ _)"]
        yields_catch yields_auditing yields_hasher yields_repo repo_wf_save yields_ret yields_get)
qed

lemma found_yields:
  "yields state_wf (getS (\<lambda>s. findByUsername memory_users n (st_repo s))) (\<lambda>f. \<forall>u. got f = Some u \<longrightarrow> user_wf u)"
  "yields state_wf (getS (\<lambda>s. findById memory_users i (st_repo s))) (\<lambda>f. \<forall>u. got f = Some u \<longrightarrow> user_wf u)"
  using found_wf by (auto intro!: yields_get simp: state_wf_def)

lemma yields_login: "yields state_wf (login (services H A) rd now u pw) (\<lambda>_. True)"
  unfolding login_def wired_sel
proof (rule yields_bind [OF found_yields(1)])
  fix f :: "User Result" assume f: "\<forall>u. got f = Some u \<longrightarrow> user_wf u"
  have "uid (user_id v) \<noteq> []" if "got f = Some v" for v using f that by (auto simp: user_wf_def)
  then show "yields state_wf
       (case got f of None \<Rightarrow> auditing (services H A) (event u ''LOGIN_FAIL'' '''') (failure ''Login failed'')
        | Some user \<Rightarrow> if \<not> canLogin user now then auditing (services H A) (event u ''LOGIN_FAIL'' '''') (failure ''Login failed'')
            else bindS (getS (\<lambda>s. getEncodedHash memory_users (user_id user) (st_repo s))) (\<lambda>enc.
                 bindS (getS (\<lambda>s. Inr (verify_password H enc pw (st_hasher s)))) (\<lambda>good.
                 if \<not> good then bindS (onRepo (recordLoginFailure memory_users (user_id user) now)) (\<lambda>_.
                      auditing (services H A) (event u ''LOGIN_FAIL'' '''') (failure ''Login failed''))
                 else bindS (onRepo (resetLoginFailures memory_users (user_id user))) (\<lambda>_.
                      bindS (onSessions (createForUser memory_sessions rd (user_id user) now)) (\<lambda>token.
                      auditing (services H A) (event u ''LOGIN_OK'' '''') (success token)))))) (\<lambda>_. True)"
    by (auto intro!: yields_bind [where Q' = "\<lambda>_. True"] yields_auditing yields_repo repo_wf_counters yields_sessions
        sessions_wf_create yields_get split: option.split)
qed

lemma yields_logout: "yields state_wf (logout (services H A) tok) (\<lambda>_. True)"
  unfolding logout_def wired_sel
  by (auto intro!: yields_bind [where Q' = "\<lambda>_. True"] yields_sessions sessions_wf_revoke yields_auditing yields_ret)

lemma yields_activate_as: "yields state_wf (activate_as (services H A) adm tgt) (\<lambda>_. True)"
  unfolding activate_as_def wired_sel
  by (rule yields_bind [OF found_yields(2)])
     (auto intro!: yields_bind [where Q' = "\<lambda>_. True"] yields_repo repo_wf_update user_wf_setters yields_auditing yields_ret split: option.split)

lemma yields_deactivate_as: "yields state_wf (deactivate_as (services H A) adm tgt) (\<lambda>_. True)"
  unfolding deactivate_as_def wired_sel
  by (rule yields_bind [OF found_yields(2)])
     (auto intro!: yields_bind [where Q' = "\<lambda>_. True"] yields_repo repo_wf_update user_wf_setters yields_auditing yields_ret
       yields_get yields_sessions sessions_wf_revoke split: option.split)

lemmas yields_services = yields_register yields_login yields_logout yields_activate_as yields_deactivate_as

lemma yields_admin:
  "yields state_wf (activate (services H A) now tok tgt) (\<lambda>_. True)"
  "yields state_wf (deactivate (services H A) now tok tgt) (\<lambda>_. True)"
  "yields state_wf (activate_byId (services H A) adm tgt) (\<lambda>_. True)"
  "yields state_wf (deactivate_byId (services H A) adm tgt) (\<lambda>_. True)"
  unfolding activate_def deactivate_def activate_byId_def deactivate_byId_def
  by (auto intro!: yields_bind [where Q' = "\<lambda>_. True"] yields_get yields_auditing yields_services split: option.split)

section \<open>Properties\<close>

text \<open>
  C20. Stored objects keep the invariants of their classes: over every run of the
  authentication and administration services, with any password hasher and audit log, every
  user in the repository has an identifier, a name and an address, is active or inactive,
  and has a failure counter that is not negative; every session names a token and a user and
  lasts one hour from its creation.
\<close>

theorem stored_objects_wf:
  assumes "service_run (services H A) s s'" "state_wf s"
  shows "state_wf s'"
  using assms
proof (induction rule: service_run.induct)
  case (more s t t')
  from more.hyps(2) more.IH [OF more.prems] show ?case
    by (cases rule: service_step.cases) (auto dest: yieldsD [OF yields_services(1)] yieldsD [OF yields_services(2)]
        yieldsD [OF yields_services(3)] yieldsD [OF yields_admin(1)] yieldsD [OF yields_admin(2)] yieldsD [OF yields_admin(3)]
        yieldsD [OF yields_admin(4)])
qed

theorem stored_objects_wf_witness:
  "state_wf (snd (login (services fake_hasher vector_audit) (\<lambda>_. 0) 1000 ''bob'' ''guess'' (demo_state 2)))"
proof -
  let ?P = "services fake_hasher vector_audit"
  have "service_step ?P (demo_state 2) (snd (login ?P (\<lambda>_. 0) 1000 ''bob'' ''guess'' (demo_state 2)))"
    by (rule login_step) (rule prod.collapse [symmetric])
  then have "service_run ?P (demo_state 2) (snd (login ?P (\<lambda>_. 0) 1000 ''bob'' ''guess'' (demo_state 2)))"
    by (rule service_run.more [OF service_run.here])
  moreover have "state_wf (demo_state 2)"
    by (auto simp: state_wf_def repo_wf_def sessions_wf_def user_wf_def demo_repo_def demo_user_def isActive_def
        emptyMemorySessionStore_def ran_def split: if_splits)
  ultimately show ?thesis by (rule stored_objects_wf)
qed

end
