(* ===== verification/Durability.thy ===== *)
theory Durability
  imports Storage
begin

text \<open>
  What reaches the device: the staged write of \<^verbatim>\<open>src/infrastructure/binary_storage.cpp\<close> again,
  now with \<open>fsyncFile\<close> and \<open>fsyncDir\<close>. A file name leads to an inode; the content of an
  inode and the changes of the directory are in memory until they are synced. A crash
  keeps the content of a file only if it was synced after its last change, and any
  selection of the directory changes made since the directory was last synced. The theory
  relates this disk to the one of \<open>Storage\<close> and shows what survives a crash.
\<close>

section \<open>A disk with a cache\<close>

datatype dirop =
    Link string nat
  | Unlink string
  | Rename string string nat

record cached_disk =
  durable :: "(string \<times> nat) list"
  pending :: "dirop list"
  contents :: "(nat \<times> bytes) list"
  synced :: "nat list"
  fresh :: nat

primrec apply_op :: "dirop \<Rightarrow> (string \<times> nat) list \<Rightarrow> (string \<times> nat) list" where
  "apply_op (Link p i) d = AList.update p i d"
| "apply_op (Unlink p) d = AList.delete p d"
| "apply_op (Rename p q i) d = AList.update q i (AList.delete p d)"

definition apply_ops :: "dirop list \<Rightarrow> (string \<times> nat) list \<Rightarrow> (string \<times> nat) list" where
  "apply_ops ops d = foldl (\<lambda>x op. apply_op op x) d ops"

text \<open>The directory and the files as running processes see them.\<close>

definition names :: "cached_disk \<Rightarrow> (string \<times> nat) list" where
  "names d = apply_ops (pending d) (durable d)"

definition content_of :: "cached_disk \<Rightarrow> nat \<Rightarrow> bytes" where
  "content_of d i = (case map_of (contents d) i of None \<Rightarrow> [] | Some b \<Rightarrow> b)"

definition view :: "cached_disk \<Rightarrow> string \<Rightarrow> bytes option" where
  "view d p = map_option (content_of d) (map_of (names d) p)"

text \<open>The disk after a crash: a selection of the pending changes, and anything in files that were not synced.\<close>

definition crash_image :: "cached_disk \<Rightarrow> (string \<Rightarrow> bytes option) \<Rightarrow> bool" where
  "crash_image d f \<longleftrightarrow> (\<exists>ops junk. subseq ops (pending d) \<and>
     f = (\<lambda>p. map_option (\<lambda>i. if i \<in> set (synced d) then content_of d i else junk i) (map_of (apply_ops ops (durable d)) p)))"

text \<open>The system calls the store makes.\<close>

definition sys_put :: "nat \<Rightarrow> bytes \<Rightarrow> cached_disk \<Rightarrow> cached_disk" where
  "sys_put i b d = d\<lparr>contents := AList.update i b (contents d), synced := removeAll i (synced d)\<rparr>"

definition sys_create :: "string \<Rightarrow> cached_disk \<Rightarrow> cached_disk" where
  "sys_create p d = d\<lparr>pending := pending d @ [Link p (fresh d)], fresh := fresh d + 1\<rparr>"

definition sys_open :: "string \<Rightarrow> cached_disk \<Rightarrow> cached_disk" where
  "sys_open p d = (case map_of (names d) p of
       Some i \<Rightarrow> sys_put i [] d
     | None \<Rightarrow> sys_put (fresh d) [] (sys_create p d))"

definition sys_write :: "string \<Rightarrow> bytes \<Rightarrow> cached_disk \<Rightarrow> cached_disk" where
  "sys_write p b d = (case map_of (names d) p of None \<Rightarrow> d | Some i \<Rightarrow> sys_put i b d)"

definition sys_fsync :: "string \<Rightarrow> cached_disk \<Rightarrow> cached_disk" where
  "sys_fsync p d = (case map_of (names d) p of None \<Rightarrow> d | Some i \<Rightarrow> d\<lparr>synced := i # synced d\<rparr>)"

definition sys_unlink :: "string \<Rightarrow> cached_disk \<Rightarrow> cached_disk" where
  "sys_unlink p d = d\<lparr>pending := pending d @ [Unlink p]\<rparr>"

definition sys_rename :: "string \<Rightarrow> string \<Rightarrow> cached_disk \<Rightarrow> cached_disk" where
  "sys_rename p q d = (case map_of (names d) p of None \<Rightarrow> d | Some i \<Rightarrow> d\<lparr>pending := pending d @ [Rename p q i]\<rparr>)"

definition sys_fsync_dir :: "cached_disk \<Rightarrow> cached_disk" where
  "sys_fsync_dir d = d\<lparr>durable := names d, pending := []\<rparr>"

section \<open>The store\<close>

text \<open>
  The outcomes of the calls of \<open>Storage\<close>, and of those of the two sync functions: opening
  the file, the error number of its \<open>fsync\<close>, opening the directory at the first and at the
  second attempt, and its \<open>fsync\<close>.
\<close>

record sync_env = disk_env +
  y_open :: bool
  y_errno :: "nat option"
  y_dir :: bool
  y_dir_again :: bool
  y_dirsync :: bool

definition fsyncFile :: "sync_env \<Rightarrow> string \<Rightarrow> (cached_disk, unit) sx" where
  "fsyncFile env path d =
     (if \<not> y_open env then (Inl (StorageException (''fsync open file failed: '' @ path)), d)
      else case y_errno env of
             Some e \<Rightarrow> (Inl (StorageException (''fsync file failed: '' @ dec_string e)), d)
           | None \<Rightarrow> (Inr (), sys_fsync path d))"

definition fsyncDir :: "sync_env \<Rightarrow> cached_disk \<Rightarrow> cached_disk" where
  "fsyncDir env d =
     (if \<not> y_dir env \<and> \<not> y_dir_again env then d
      else if y_dirsync env then sys_fsync_dir d else d)"

definition sys_remove :: "bool \<Rightarrow> string \<Rightarrow> cached_disk \<Rightarrow> cached_disk" where
  "sys_remove works p d = (if works then sys_unlink p d else d)"

definition staged_sync ::
  "sync_env \<Rightarrow> string \<Rightarrow> string \<Rightarrow> bytes \<Rightarrow> cached_disk \<Rightarrow> (exn + unit) \<times> cached_disk list" where
  "staged_sync env dir k data d0 =
     (if k = [] then (Inl (ValidationException ''storageId empty''), [d0])
      else if CHR 0x00 \<in> set k then (Inl (ValidationException ''storageId NUL''), [d0])
      else if contains k ''..'' then (Inl (ValidationException ''storageId traversal''), [d0])
      else let tmp = tmp_path dir k;
               dst = dst_path dir k;
               d1 = sys_open tmp d0;
               d2 = sys_write tmp (take (d_partial env) data) d1;
               d3 = sys_write tmp data d2
           in if \<not> d_open env
              then (Inl (StorageException (''open tmp failed: '' @ tmp)), [d0, sys_remove (d_rmtmp env) tmp d0])
              else if data \<noteq> [] \<and> \<not> d_write env
              then (Inl (StorageException (''write tmp failed: '' @ tmp)), [d0, d1, d2, sys_remove (d_rmtmp env) tmp d2])
              else if \<not> d_flush env
              then (Inl (StorageException (''flush tmp failed: '' @ tmp)), [d0, d1, d2, sys_remove (d_rmtmp env) tmp d2])
              else if \<not> d_close env
              then (Inl (StorageException (''close tmp failed: '' @ tmp)), [d0, d1, d2, sys_remove (d_rmtmp env) tmp d2])
              else case fsyncFile env tmp d3 of
                     (Inl e, d4) \<Rightarrow> (Inl e, [d0, d1, d2, d3, d4, sys_remove (d_rmtmp env) tmp d4])
                   | (Inr _, d4) \<Rightarrow>
                       let d5 = (if d_stat env \<and> map_of (names d4) dst \<noteq> None
                                 then sys_remove (d_rmdst env) dst d4 else d4)
                       in case d_rename env of
                            Some m \<Rightarrow> (Inl (StorageException (''rename tmp->dst failed: '' @ m)),
                                       [d0, d1, d2, d3, d4, d5, sys_remove (d_rmtmp env) tmp d5])
                          | None \<Rightarrow> let d6 = sys_rename tmp dst d5
                                    in (Inr (), [d0, d1, d2, d3, d4, d5, d6, fsyncDir env d6]))"

definition removeStaged_sync :: "sync_env \<Rightarrow> string \<Rightarrow> string \<Rightarrow> cached_disk \<Rightarrow> cached_disk list" where
  "removeStaged_sync env dir k d0 =
     (if k = [] then [d0]
      else let d1 = sys_remove (d_rmtmp env) (tmp_path dir k) d0
           in [d0, d1, sys_remove (d_rmdst env) (dst_path dir k) d1])"

text \<open>Sequences of calls of the store, and all the disks they go through.\<close>

datatype store_call =
    StoreWrite sync_env string bytes
  | StoreRemove sync_env string

primrec call_states :: "string \<Rightarrow> store_call \<Rightarrow> cached_disk \<Rightarrow> cached_disk list" where
  "call_states dir (StoreWrite env k data) d = snd (staged_sync env dir k data d)"
| "call_states dir (StoreRemove env k) d = removeStaged_sync env dir k d"

fun store_states :: "string \<Rightarrow> store_call list \<Rightarrow> cached_disk \<Rightarrow> cached_disk list" where
  "store_states dir [] d = [d]"
| "store_states dir (c # cs) d = call_states dir c d @ store_states dir cs (last (call_states dir c d))"

section \<open>What a name can lead to after a crash\<close>

definition targets :: "cached_disk \<Rightarrow> string \<Rightarrow> nat set" where
  "targets d p = {i. (p, i) \<in> set (durable d) \<or> Link p i \<in> set (pending d) \<or> (\<exists>q. Rename q p i \<in> set (pending d))}"

lemma set_update_subset: "set (AList.update k v xs) \<subseteq> insert (k, v) (set xs)"
  by (induction xs) auto

lemma set_delete_subset: "set (AList.delete k xs) \<subseteq> set xs"
  by (auto simp: AList.delete_eq)

lemma apply_op_entries: "(p, i) \<in> set (apply_op op d) \<Longrightarrow> (p, i) \<in> set d \<or> op = Link p i \<or> (\<exists>q. op = Rename q p i)"
  using set_update_subset set_delete_subset by (cases op) fastforce+

lemma apply_ops_entries:
  "(p, i) \<in> set (apply_ops ops d) \<Longrightarrow> (p, i) \<in> set d \<or> Link p i \<in> set ops \<or> (\<exists>q. Rename q p i \<in> set ops)"
proof (induction ops arbitrary: d)
  case (Cons op ops)
  then have "(p, i) \<in> set (apply_op op d) \<or> Link p i \<in> set ops \<or> (\<exists>q. Rename q p i \<in> set ops)" by (simp add: apply_ops_def)
  then show ?case using apply_op_entries [of p i op d] by auto
qed (simp add: apply_ops_def)

lemma names_target: "(p, i) \<in> set (names d) \<Longrightarrow> i \<in> targets d p"
  unfolding names_def targets_def by (auto dest!: apply_ops_entries)

lemma subseq_in: "subseq xs ys \<Longrightarrow> x \<in> set xs \<Longrightarrow> x \<in> set ys"
  by (metis subseq_singleton_left subseq_order.order_trans)

lemma crash_target:
  assumes "crash_image d f" "f p = Some b"
  shows "\<exists>i\<in>targets d p. i \<in> set (synced d) \<longrightarrow> b = content_of d i"
proof -
  obtain ops junk i where "subseq ops (pending d)" "map_of (apply_ops ops (durable d)) p = Some i"
    "b = (if i \<in> set (synced d) then content_of d i else junk i)"
    using assms by (auto simp: crash_image_def)
  moreover then have "i \<in> targets d p"
    by (auto simp: targets_def dest!: map_of_SomeD apply_ops_entries dest: subseq_in)
  ultimately show ?thesis by auto
qed

lemma settled_image:
  assumes "pending d = []" "crash_image d f"
  shows "\<exists>junk. f = (\<lambda>p. map_option (\<lambda>i. if i \<in> set (synced d) then content_of d i else junk i) (map_of (names d) p))"
proof -
  obtain ops junk where "subseq ops []"
    "f = (\<lambda>p. map_option (\<lambda>i. if i \<in> set (synced d) then content_of d i else junk i) (map_of (apply_ops ops (durable d)) p))"
    using assms by (auto simp: crash_image_def)
  then show ?thesis using assms(1) by (auto simp: names_def dest!: list_emb_Nil2)
qed

section \<open>The invariant of the store\<close>

text \<open>
  Whatever a blob's name can lead to is synced and is one of the given contents \<open>H\<close>; the
  file behind a temporary name is behind no other temporary name and no blob's.
\<close>

definition crash_safe :: "string \<Rightarrow> (string \<Rightarrow> bytes set) \<Rightarrow> cached_disk \<Rightarrow> bool" where
  "crash_safe dir H d \<longleftrightarrow>
     (\<forall>j i. storage_id j \<and> i \<in> targets d (dst_path dir j) \<longrightarrow> i \<in> set (synced d) \<and> i < fresh d \<and> content_of d i \<in> H j)
     \<and> (\<forall>k i. map_of (names d) (tmp_path dir k) = Some i \<longrightarrow> i < fresh d
          \<and> (\<forall>j. storage_id j \<longrightarrow> i \<notin> targets d (dst_path dir j))
          \<and> (\<forall>k'. map_of (names d) (tmp_path dir k') = Some i \<longrightarrow> k' = k))"

lemma crash_safeD:
  assumes "crash_safe dir H d"
  shows "storage_id j \<Longrightarrow> i \<in> targets d (dst_path dir j) \<Longrightarrow> i \<in> set (synced d) \<and> i < fresh d \<and> content_of d i \<in> H j"
    and "map_of (names d) (tmp_path dir k) = Some i \<Longrightarrow> i < fresh d"
    and "map_of (names d) (tmp_path dir k) = Some i \<Longrightarrow> storage_id j \<Longrightarrow> i \<notin> targets d (dst_path dir j)"
    and "map_of (names d) (tmp_path dir k) = Some i \<Longrightarrow> map_of (names d) (tmp_path dir k') = Some i \<Longrightarrow> k' = k"
  using assms unfolding crash_safe_def by blast+

lemma crash_safeI:
  assumes "\<And>j i. storage_id j \<Longrightarrow> i \<in> targets d (dst_path dir j) \<Longrightarrow> i \<in> set (synced d) \<and> i < fresh d \<and> content_of d i \<in> H j"
    and "\<And>k i. map_of (names d) (tmp_path dir k) = Some i \<Longrightarrow> i < fresh d"
    and "\<And>k i j. map_of (names d) (tmp_path dir k) = Some i \<Longrightarrow> storage_id j \<Longrightarrow> i \<notin> targets d (dst_path dir j)"
    and "\<And>k i k'. map_of (names d) (tmp_path dir k) = Some i \<Longrightarrow> map_of (names d) (tmp_path dir k') = Some i \<Longrightarrow> k' = k"
  shows "crash_safe dir H d"
  using assms unfolding crash_safe_def by blast

lemma crash_safe_image:
  assumes "crash_safe dir H d" "crash_image d f" "storage_id j" "f (dst_path dir j) = Some b"
  shows "b \<in> H j"
  using crash_target [OF assms(2,4)] crash_safeD(1) [OF assms(1,3)] by blast

lemma tmp_path_inj [simp]: "tmp_path dir j = tmp_path dir k \<longleftrightarrow> j = k"
  by (simp add: tmp_path_def)

lemma apply_ops_snoc [simp]: "apply_ops (ops @ [op]) d = apply_op op (apply_ops ops d)"
  by (simp add: apply_ops_def)

lemma names_snoc [simp]: "names (d\<lparr>pending := pending d @ [op]\<rparr>) = apply_op op (names d)"
  by (simp add: names_def)

lemma names_other [simp]:
  "names (d\<lparr>contents := c\<rparr>) = names d" "names (d\<lparr>synced := y\<rparr>) = names d" "names (d\<lparr>fresh := n\<rparr>) = names d"
  "targets (d\<lparr>contents := c\<rparr>) p = targets d p" "targets (d\<lparr>synced := y\<rparr>) p = targets d p" "targets (d\<lparr>fresh := n\<rparr>) p = targets d p"
  by (simp_all add: names_def targets_def)

lemma sys_put_simps [simp]:
  "names (sys_put i b d) = names d" "targets (sys_put i b d) p = targets d p" "fresh (sys_put i b d) = fresh d"
  "content_of (sys_put i b d) j = (if j = i then b else content_of d j)" "set (synced (sys_put i b d)) = set (synced d) - {i}"
  by (simp_all add: sys_put_def content_of_def update_conv')

lemma content_of_same [simp]:
  "content_of (d\<lparr>pending := ops\<rparr>) = content_of d" "content_of (d\<lparr>synced := y\<rparr>) = content_of d"
  "content_of (sys_create p d) = content_of d" "content_of (sys_unlink p d) = content_of d" "content_of (sys_fsync_dir d) = content_of d"
  by (auto simp: content_of_def sys_create_def sys_unlink_def sys_fsync_dir_def)

lemma put_safe:
  assumes "crash_safe dir H d" "map_of (names d) (tmp_path dir k) = Some i"
  shows "crash_safe dir H (sys_put i b d)"
  using crash_safeD [OF assms(1)] assms(2) unfolding crash_safe_def by auto

lemma targets_snoc [simp]:
  "targets (d\<lparr>pending := pending d @ [Link q n]\<rparr>) p = (if p = q then insert n (targets d p) else targets d p)"
  "targets (d\<lparr>pending := pending d @ [Unlink q]\<rparr>) p = targets d p"
  "targets (d\<lparr>pending := pending d @ [Rename r q n]\<rparr>) p = (if p = q then insert n (targets d p) else targets d p)"
  by (auto simp: targets_def)

lemma sys_create_simps [simp]:
  "names (sys_create p d) = AList.update p (fresh d) (names d)" "synced (sys_create p d) = synced d"
  "targets (sys_create p d) q = (if q = p then insert (fresh d) (targets d q) else targets d q)"
  "fresh (sys_create p d) = Suc (fresh d)"
  by (auto simp: sys_create_def names_def targets_def content_of_def)

lemma sys_unlink_simps [simp]:
  "names (sys_unlink p d) = AList.delete p (names d)" "synced (sys_unlink p d) = synced d" "targets (sys_unlink p d) q = targets d q"
  "fresh (sys_unlink p d) = fresh d"
  by (simp_all add: sys_unlink_def content_of_def)

lemma dst_not_tmp [simp]: "storage_id j \<Longrightarrow> dst_path dir j \<noteq> tmp_path dir k" "storage_id j \<Longrightarrow> tmp_path dir k \<noteq> dst_path dir j"
  using storage_id_path by blast+

lemma create_safe:
  assumes "crash_safe dir H d"
  shows "crash_safe dir H (sys_create (tmp_path dir k) d)"
proof -
  have n: "fresh d \<notin> targets d (dst_path dir j)" if "storage_id j" for j using crash_safeD(1) [OF assms that] by blast
  have m: "map_of (names d) (tmp_path dir k') \<noteq> Some (fresh d)" for k' using crash_safeD(2) [OF assms, of k' "fresh d"] by blast
  show ?thesis
  proof (rule crash_safeI, goal_cases)
    case (1 j i) then show ?case using crash_safeD(1) [OF assms, of j i] by auto
  next
    case (2 k' i) then show ?case using crash_safeD(2) [OF assms, of k' i] by (auto simp: update_conv' split: if_splits)
  next
    case (3 k' i j) then show ?case using crash_safeD(3) [OF assms, of k' i j] n by (auto simp: update_conv' split: if_splits)
  next
    case (4 k' i k'') then show ?case using crash_safeD(4) [OF assms, of k' i k''] m by (auto simp: update_conv' split: if_splits)
  qed
qed

lemma open_safe: "crash_safe dir H d \<Longrightarrow> crash_safe dir H (sys_open (tmp_path dir k) d)"
  using put_safe [of dir H d k] put_safe [OF create_safe, of dir H d k k]
  by (auto simp: sys_open_def update_conv' split: option.split)

lemma write_safe: "crash_safe dir H d \<Longrightarrow> crash_safe dir H (sys_write (tmp_path dir k) b d)"
  by (auto simp: sys_write_def put_safe split: option.split)

lemma fsync_safe: "crash_safe dir H d \<Longrightarrow> crash_safe dir H (sys_fsync p d)"
  unfolding crash_safe_def by (auto simp: sys_fsync_def content_of_def split: option.split)

lemma unlink_safe: "crash_safe dir H d \<Longrightarrow> crash_safe dir H (sys_unlink p d)"
  unfolding crash_safe_def by (auto simp: delete_conv' split: if_splits)

lemma remove_safe: "crash_safe dir H d \<Longrightarrow> crash_safe dir H (sys_remove b p d)"
  by (simp add: sys_remove_def unlink_safe)

lemma rename_safe:
  assumes "crash_safe dir H d" "storage_id k" "\<And>i. map_of (names d) (tmp_path dir k) = Some i \<Longrightarrow> i \<in> set (synced d) \<and> content_of d i \<in> H k"
  shows "crash_safe dir H (sys_rename (tmp_path dir k) (dst_path dir k) d)"
proof (cases "map_of (names d) (tmp_path dir k)")
  case (Some i)
  note D = crash_safeD [OF assms(1)]
  show ?thesis unfolding sys_rename_def Some option.case
  proof (rule crash_safeI, goal_cases)
    case (1 j i')
    then show ?case using D(1) [of j i'] D(2) [OF Some] assms(3) [OF Some] by (auto simp: content_of_def split: if_splits)
  next
    case (2 k' i') then show ?case using D(2) [of k' i'] assms(2) by (auto simp: update_conv' delete_conv' split: if_splits)
  next
    case (3 k' i' j) then show ?case using D(3) [of k' i' j] D(4) [OF Some, of k'] assms(2)
      by (auto simp: update_conv' delete_conv' split: if_splits)
  next
    case (4 k' i' k'') then show ?case using D(4) [of k' i' k''] assms(2) by (auto simp: update_conv' delete_conv' split: if_splits)
  qed
qed (simp add: sys_rename_def assms(1))

lemma sys_fsync_dir_simps [simp]:
  "names (sys_fsync_dir d) = names d" "synced (sys_fsync_dir d) = synced d" "fresh (sys_fsync_dir d) = fresh d"
  "pending (sys_fsync_dir d) = []" "durable (sys_fsync_dir d) = names d"
  by (simp_all add: sys_fsync_dir_def names_def apply_ops_def content_of_def)

lemma fsync_dir_targets: "targets (sys_fsync_dir d) p \<subseteq> targets d p"
  using names_target by (auto simp: targets_def [of "sys_fsync_dir d"])

lemma fsync_dir_safe:
  assumes "crash_safe dir H d"
  shows "crash_safe dir H (sys_fsync_dir d)"
  using crash_safeD [OF assms] fsync_dir_targets [of d, THEN subsetD] by (intro crash_safeI) (unfold sys_fsync_dir_simps content_of_same, blast+)

lemma fsyncDir_safe: "crash_safe dir H d \<Longrightarrow> crash_safe dir H (fsyncDir env d)"
  by (simp add: fsyncDir_def fsync_dir_safe)

section \<open>A staged write\<close>

lemma opened: "\<exists>i. map_of (names (sys_open p d)) p = Some i"
  by (auto simp: sys_open_def update_conv' split: option.split)

lemma written_sel:
  assumes "map_of (names d) p = Some i"
  shows "names (sys_write p b d) = names d" "content_of (sys_write p b d) i = b"
    "names (sys_fsync p d) = names d" "content_of (sys_fsync p d) j = content_of d j" "i \<in> set (synced (sys_fsync p d))"
  using assms by (simp_all add: sys_write_def sys_fsync_def)

text \<open>The disk when the temporary file is written and synced.\<close>

definition prepared :: "string \<Rightarrow> bytes \<Rightarrow> bytes \<Rightarrow> cached_disk \<Rightarrow> cached_disk" where
  "prepared tmp part data d = sys_fsync tmp (sys_write tmp data (sys_write tmp part (sys_open tmp d)))"

lemma prepared_file:
  "\<exists>i. map_of (names (prepared tmp part data d)) tmp = Some i \<and> i \<in> set (synced (prepared tmp part data d))
     \<and> content_of (prepared tmp part data d) i = data"
proof -
  obtain i where "map_of (names (sys_open tmp d)) tmp = Some i" using opened by blast
  then show ?thesis unfolding prepared_def using written_sel by metis
qed

lemma prepared_safe: "crash_safe dir H d \<Longrightarrow> crash_safe dir H (prepared (tmp_path dir k) part data d)"
  unfolding prepared_def by (intro fsync_safe write_safe open_safe)

lemma staged_sync_ok:
  assumes "staged_sync env dir k data d0 = (Inr (), ds)"
  shows "\<exists>d5. last ds = fsyncDir env (sys_rename (tmp_path dir k) (dst_path dir k) d5)
     \<and> (d5 = prepared (tmp_path dir k) (take (d_partial env) data) data d0
        \<or> d5 = sys_unlink (dst_path dir k) (prepared (tmp_path dir k) (take (d_partial env) data) data d0))"
  using assms
  by (auto simp: staged_sync_def Let_def fsyncFile_def sys_remove_def prepared_def split: if_splits option.splits)

lemma staged_sync_safe:
  assumes "crash_safe dir H d0" "storage_id k" "data \<in> H k" "d \<in> set (snd (staged_sync env dir k data d0))"
  shows "crash_safe dir H d"
proof -
  let ?tmp = "tmp_path dir k" and ?dst = "dst_path dir k" and ?part = "take (d_partial env) data"
  let ?d4 = "prepared ?tmp ?part data d0"
  have steps: "crash_safe dir H (sys_open ?tmp d0)" "crash_safe dir H (sys_write ?tmp b (sys_open ?tmp d0))"
    "crash_safe dir H (sys_write ?tmp data (sys_write ?tmp b (sys_open ?tmp d0)))" for b
    using assms(1) by (simp_all add: open_safe write_safe)
  have d4: "crash_safe dir H ?d4" using prepared_safe [OF assms(1)] .
  obtain i where i: "map_of (names ?d4) ?tmp = Some i" "i \<in> set (synced ?d4)" "content_of ?d4 i = data"
    using prepared_file by blast
  have ren1: "crash_safe dir H (sys_rename ?tmp ?dst (sys_remove b ?dst ?d4))" for b
    by (rule rename_safe [OF remove_safe [OF d4] assms(2)])
       (use i assms(2,3) in \<open>cases b; auto simp: sys_remove_def delete_conv'\<close>)
  have ren2: "crash_safe dir H (sys_rename ?tmp ?dst ?d4)"
    by (rule rename_safe [OF d4 assms(2)]) (use i assms(3) in auto)
  note facts = assms(1) steps d4 remove_safe [OF assms(1)] remove_safe [OF steps(2)] remove_safe [OF steps(3)]
    remove_safe [OF d4] remove_safe [OF remove_safe [OF d4]] ren1 ren2 fsyncDir_safe [OF ren1] fsyncDir_safe [OF ren2]
  show ?thesis using assms(4) facts
    by (auto simp: staged_sync_def Let_def fsyncFile_def prepared_def [symmetric] split: if_splits option.splits)
qed

lemma removeStaged_safe:
  "crash_safe dir H d0 \<Longrightarrow> d \<in> set (removeStaged_sync env dir k d0) \<Longrightarrow> crash_safe dir H d"
  by (auto simp: removeStaged_sync_def Let_def remove_safe split: if_splits)

primrec storable_call :: "(string \<Rightarrow> bytes set) \<Rightarrow> store_call \<Rightarrow> bool" where
  "storable_call H (StoreWrite env k data) \<longleftrightarrow> storage_id k \<and> data \<in> H k"
| "storable_call H (StoreRemove env k) \<longleftrightarrow> True"

lemma call_safe: "crash_safe dir H d0 \<Longrightarrow> storable_call H c \<Longrightarrow> d \<in> set (call_states dir c d0) \<Longrightarrow> crash_safe dir H d"
  by (cases c) (auto intro: staged_sync_safe removeStaged_safe)

lemma call_states_nonempty: "call_states dir c d \<noteq> []"
  by (cases c) (auto simp: staged_sync_def removeStaged_sync_def Let_def fsyncFile_def split: option.split)

lemma store_safe:
  "crash_safe dir H d0 \<Longrightarrow> \<forall>c\<in>set cs. storable_call H c \<Longrightarrow> d \<in> set (store_states dir cs d0) \<Longrightarrow> crash_safe dir H d"
proof (induction cs arbitrary: d0)
  case (Cons c cs)
  have "crash_safe dir H (last (call_states dir c d0))"
    using Cons.prems call_safe last_in_set [OF call_states_nonempty] by force
  then show ?case using Cons call_safe [of dir H d0 c d] by auto
qed simp

text \<open>A disk after boot: nothing is pending, and every file there is has reached the device under one name.\<close>

definition booted :: "cached_disk \<Rightarrow> bool" where
  "booted d \<longleftrightarrow> pending d = [] \<and> (\<forall>(p, i)\<in>set (durable d). i \<in> set (synced d) \<and> i < fresh d)
     \<and> distinct (map fst (durable d)) \<and> distinct (map snd (durable d))"

lemma booted_safe:
  assumes "booted d" "\<And>j b. storage_id j \<Longrightarrow> view d (dst_path dir j) = Some b \<Longrightarrow> b \<in> H j"
  shows "crash_safe dir H d"
proof -
  have n: "names d = durable d" "targets d p = {i. (p, i) \<in> set (durable d)}" for p
    using assms(1) by (auto simp: booted_def names_def apply_ops_def targets_def)
  have ok: "i \<in> set (synced d)" "i < fresh d" "map_of (durable d) p = Some i" if "(p, i) \<in> set (durable d)" for p i
    using assms(1) that by (auto simp: booted_def)
  have one: "p = q" if "(p, i) \<in> set (durable d)" "(q, i) \<in> set (durable d)" for p q i
  proof -
    have "inj_on snd (set (durable d))" using assms(1) by (simp add: booted_def distinct_map)
    from inj_onD [OF this, of "(p, i)" "(q, i)"] that show ?thesis by simp
  qed
  show ?thesis
  proof (rule crash_safeI, goal_cases)
    case (1 j i) then show ?case using ok [of "dst_path dir j" i] assms(2) [of j "content_of d i"] by (simp add: n view_def)
  next
    case (2 k i) then show ?case using ok(2) by (auto simp: n dest: map_of_SomeD)
  next
    case (3 k i j) then show ?case using one [of "tmp_path dir k" i "dst_path dir j"] by (auto simp: n dest!: map_of_SomeD)
  next
    case (4 k i k') then show ?case using one [of "tmp_path dir k" i "tmp_path dir k'"] by (auto simp: n dest!: map_of_SomeD)
  qed
qed

section \<open>The cache is transparent\<close>

text \<open>No file has two names, and none the inode of a file to come.\<close>

definition single_names :: "cached_disk \<Rightarrow> bool" where
  "single_names d \<longleftrightarrow> (\<forall>p i. map_of (names d) p = Some i \<longrightarrow> i < fresh d \<and> (\<forall>q. map_of (names d) q = Some i \<longrightarrow> q = p))"

lemma single_namesD:
  assumes "single_names d" "map_of (names d) p = Some i"
  shows "i < fresh d" "map_of (names d) q = Some i \<Longrightarrow> q = p"
  using assms unfolding single_names_def by blast+

lemma view_put:
  assumes "single_names d" "map_of (names d) p = Some i"
  shows "view (sys_put i b d) = (view d)(p \<mapsto> b)" "single_names (sys_put i b d)"
proof -
  show "view (sys_put i b d) = (view d)(p \<mapsto> b)"
  proof
    fix q show "view (sys_put i b d) q = ((view d)(p \<mapsto> b)) q"
      using single_namesD(2) [OF assms, of q] assms(2) by (cases "map_of (names d) q") (auto simp: view_def)
  qed
  show "single_names (sys_put i b d)" using assms(1) by (simp add: single_names_def)
qed

lemma single_names_create: "single_names d \<Longrightarrow> single_names (sys_create p d)"
  unfolding single_names_def by (fastforce simp: update_conv' less_Suc_eq split: if_splits)

lemma view_open:
  assumes "single_names d"
  shows "view (sys_open p d) = (view d)(p \<mapsto> [])" "single_names (sys_open p d)" "\<exists>i. map_of (names (sys_open p d)) p = Some i"
proof -
  have c: "map_of (names (sys_create p d)) p = Some (fresh d)" by (simp add: update_conv')
  have "(view (sys_create p d))(p \<mapsto> []) = (view d)(p \<mapsto> [])" by (auto simp: view_def fun_eq_iff update_conv' option.map_comp comp_def)
  then show "view (sys_open p d) = (view d)(p \<mapsto> [])" "single_names (sys_open p d)"
    using view_put [OF assms] view_put [OF single_names_create [OF assms] c] by (auto simp: sys_open_def split: option.split)
qed (rule opened)

lemma view_write:
  assumes "single_names d" "map_of (names d) p = Some i"
  shows "view (sys_write p b d) = (view d)(p \<mapsto> b)" "single_names (sys_write p b d)" "map_of (names (sys_write p b d)) p = Some i"
  using view_put [OF assms] assms(2) by (simp_all add: sys_write_def)

lemma view_fsync: "view (sys_fsync p d) = view d" "single_names (sys_fsync p d) = single_names d" "names (sys_fsync p d) = names d"
  "content_of (sys_fsync p d) = content_of d"
  by (auto simp: sys_fsync_def view_def single_names_def fun_eq_iff split: option.split)

lemma view_unlink: "view (sys_unlink p d) = (view d)(p := None)" "single_names d \<Longrightarrow> single_names (sys_unlink p d)"
  by (auto simp: view_def single_names_def content_of_def fun_eq_iff delete_conv' split: if_splits)

lemma view_rename:
  assumes "map_of (names d) p = Some i"
  shows "view (sys_rename p q d) = (view d)(p := None, q \<mapsto> content_of d i)"
  using assms by (auto simp: sys_rename_def view_def content_of_def fun_eq_iff update_conv' delete_conv')

lemma view_fsyncDir: "view (fsyncDir env d) = view d"
  by (auto simp: fsyncDir_def view_def fun_eq_iff)

text \<open>The outcomes of the calls as the uncached disk has them.\<close>

definition plain_env :: "sync_env \<Rightarrow> string \<Rightarrow> disk_env" where
  "plain_env env tmp = (disk_env.truncate env)\<lparr>d_fsync :=
     (if \<not> y_open env then Some (''fsync open file failed: '' @ tmp)
      else map_option (\<lambda>e. ''fsync file failed: '' @ dec_string e) (y_errno env))\<rparr>"

lemma plain_env_sel [simp]:
  "d_open (plain_env env t) = d_open env" "d_partial (plain_env env t) = d_partial env" "d_write (plain_env env t) = d_write env"
  "d_flush (plain_env env t) = d_flush env" "d_close (plain_env env t) = d_close env" "d_stat (plain_env env t) = d_stat env"
  "d_rmdst (plain_env env t) = d_rmdst env" "d_rename (plain_env env t) = d_rename env" "d_rmtmp (plain_env env t) = d_rmtmp env"
  "d_fsync (plain_env env t) = (if \<not> y_open env then Some (''fsync open file failed: '' @ t)
     else map_option (\<lambda>e. ''fsync file failed: '' @ dec_string e) (y_errno env))"
  by (simp_all add: plain_env_def disk_env.truncate_def)

section \<open>Properties\<close>

text \<open>A disk with one blob, and calls that all work.\<close>

definition sample_disk :: cached_disk where
  "sample_disk = \<lparr>durable = [(''/s/a'', 0)], pending = [], contents = [(0, [7])], synced = [0], fresh = 1\<rparr>"

definition good_sync :: sync_env where
  "good_sync = disk_env.extend good_disk \<lparr>y_open = True, y_errno = None, y_dir = True, y_dir_again = True, y_dirsync = True\<rparr>"


text \<open>
  C13. No crash leaves half a blob: from a disk after boot, run any sequence of staged writes
  and removals, with any failures of system calls, the syncs included, and let the machine
  stop at any moment; then whatever part of the unsynced changes has reached the device,
  every blob is missing, the one that was there before, or one that some call wrote, complete.
\<close>

theorem crash_never_partial:
  assumes "booted d0" "\<forall>env k data. StoreWrite env k data \<in> set cs \<longrightarrow> storage_id k"
    "d \<in> set (store_states dir cs d0)" "crash_image d f" "storage_id j"
  shows "f (dst_path dir j) \<in> {None, view d0 (dst_path dir j)} \<union> {Some data |env data. StoreWrite env j data \<in> set cs}"
proof -
  let ?H = "\<lambda>j. {b. view d0 (dst_path dir j) = Some b} \<union> {data. \<exists>env. StoreWrite env j data \<in> set cs}"
  have "\<forall>c\<in>set cs. storable_call ?H c"
  proof
    fix c assume "c \<in> set cs"
    then show "storable_call ?H c" using assms(2) by (cases c rule: store_call.exhaust) auto
  qed
  then have "crash_safe dir ?H d" using store_safe [OF booted_safe [OF assms(1)] _ assms(3)] by auto
  then show ?thesis using crash_safe_image [OF _ assms(4,5)] by (cases "f (dst_path dir j)") fastforce+
qed

theorem crash_never_partial_witness:
  "let cs = [StoreWrite good_sync ''a'' [1, 2]]; d = store_states ''/s'' cs sample_disk ! 6
   in \<exists>f. crash_image d f \<and> f (dst_path ''/s'' ''a'') = Some [1, 2]
      \<and> f (dst_path ''/s'' ''a'') \<in> {None, view sample_disk (dst_path ''/s'' ''a'')} \<union> {Some data |env data. StoreWrite env ''a'' data \<in> set cs}"
proof -
  let ?cs = "[StoreWrite good_sync ''a'' [1, 2]]"
  let ?d = "store_states ''/s'' ?cs sample_disk ! 6"
  let ?f = "\<lambda>p. map_option (\<lambda>i. if i \<in> set (synced ?d) then content_of ?d i else []) (map_of (apply_ops (pending ?d) (durable ?d)) p)"
  have img: "crash_image ?d ?f" unfolding crash_image_def by (intro exI [of _ "pending ?d"] exI [of _ "\<lambda>_. []"]) simp
  have "booted sample_disk" by code_simp
  moreover have "?d \<in> set (store_states ''/s'' ?cs sample_disk)" by (rule nth_mem) code_simp
  moreover have "storage_id ''a''" by code_simp
  ultimately have "?f (dst_path ''/s'' ''a'') \<in> {None, view sample_disk (dst_path ''/s'' ''a'')} \<union> {Some data |env data. StoreWrite env ''a'' data \<in> set ?cs}"
    by (intro crash_never_partial [OF _ _ _ img]) auto
  moreover have "?f (dst_path ''/s'' ''a'') = Some [1, 2]" by code_simp
  ultimately show ?thesis using img unfolding Let_def by blast
qed

text \<open>
  C19. A reported write is durable: when a staged write returns, and the directory could be
  synced, every crash from then on keeps the blob complete, leaves no temporary file of it,
  and keeps every other blob as it is seen.
\<close>

theorem reported_write_durable:
  assumes "crash_safe dir H d0" "storage_id k" "data \<in> H k" "staged_sync env dir k data d0 = (Inr (), ds)"
    "y_dir env \<or> y_dir_again env" "y_dirsync env" "crash_image (last ds) f"
  shows "f (dst_path dir k) = Some data \<and> f (tmp_path dir k) = None
     \<and> (\<forall>j. storage_id j \<longrightarrow> f (dst_path dir j) = view (last ds) (dst_path dir j))"
proof -
  let ?tmp = "tmp_path dir k" and ?dst = "dst_path dir k"
  obtain d5 where d5: "last ds = fsyncDir env (sys_rename ?tmp ?dst d5)"
    "d5 = prepared ?tmp (take (d_partial env) data) data d0 \<or> d5 = sys_unlink ?dst (prepared ?tmp (take (d_partial env) data) data d0)"
    using staged_sync_ok [OF assms(4)] by blast
  obtain i where i: "map_of (names d5) ?tmp = Some i" "i \<in> set (synced d5)" "content_of d5 i = data"
    using prepared_file [of ?tmp "take (d_partial env) data" data d0] d5(2) assms(2) by (auto simp: delete_conv')
  have l: "last ds = sys_fsync_dir (sys_rename ?tmp ?dst d5)" using d5(1) assms(5,6) by (auto simp: fsyncDir_def)
  obtain junk where f: "f = (\<lambda>p. map_option (\<lambda>i. if i \<in> set (synced (last ds)) then content_of (last ds) i else junk i) (map_of (names (last ds)) p))"
    using settled_image [OF _ assms(7)] by (auto simp: l)
  have n: "names (last ds) = AList.update ?dst i (AList.delete ?tmp (names d5))" "synced (last ds) = synced d5"
    "content_of (last ds) i = content_of d5 i" using i(1) by (simp_all add: l sys_rename_def content_of_def [of "d5\<lparr>pending := _\<rparr>"] content_of_def [of d5])
  have "last ds \<in> set (snd (staged_sync env dir k data d0))"
    using last_in_set [of ds] assms(4) call_states_nonempty [of dir "StoreWrite env k data" d0] by simp
  then have safe: "crash_safe dir H (last ds)" by (rule staged_sync_safe [OF assms(1-3)])
  have "f (dst_path dir j) = view (last ds) (dst_path dir j)" if "storage_id j" for j
    using crash_safeD(1) [OF safe that] names_target [of "dst_path dir j" _ "last ds"]
    by (cases "map_of (names (last ds)) (dst_path dir j)") (auto simp: f view_def dest: map_of_SomeD)
  then show ?thesis using i n assms(2) by (simp add: f update_conv' delete_conv')
qed

theorem reported_write_durable_witness:
  "\<exists>f. crash_image (last (snd (staged_sync good_sync ''/s'' ''a'' [1, 2] sample_disk))) f \<and> f (dst_path ''/s'' ''a'') = Some [1, 2]"
proof -
  let ?ds = "snd (staged_sync good_sync ''/s'' ''a'' [1, 2] sample_disk)"
  let ?f = "\<lambda>p. map_option (\<lambda>i. if i \<in> set (synced (last ?ds)) then content_of (last ?ds) i else [])
    (map_of (apply_ops [] (durable (last ?ds))) p)"
  have img: "crash_image (last ?ds) ?f" unfolding crash_image_def by (intro exI [of _ "[]"] exI [of _ "\<lambda>_. []"]) simp
  have id: "storage_id ''a''" and b: "booted sample_disk" and ok: "fst (staged_sync good_sync ''/s'' ''a'' [1, 2] sample_disk) = Inr ()"
    and env: "y_dir good_sync" "y_dirsync good_sync" by code_simp+
  have "staged_sync good_sync ''/s'' ''a'' [1, 2] sample_disk = (Inr (), ?ds)" using ok by (metis prod.collapse)
  from reported_write_durable [OF booted_safe [OF b, where H = "\<lambda>_. UNIV"] id _ this _ env(2) img] env(1) img
  show ?thesis by auto
qed

text \<open>
  The cache is transparent: as long as the machine runs, a staged write on the disk with
  a cache answers as on the plain disk of \<open>Storage\<close>, and goes through the same file systems
  as processes see them, whatever calls fail.
\<close>

theorem staged_sync_refines:
  assumes "single_names d0" "view d0 = map_of f0" "storage_id k"
  shows "fst (staged_sync env dir k data d0) = fst (staged_run (plain_env env (tmp_path dir k)) dir k data f0)
     \<and> view ` set (snd (staged_sync env dir k data d0)) = map_of ` set (snd (staged_run (plain_env env (tmp_path dir k)) dir k data f0))"
proof -
  define tmp dst where paths: "tmp = tmp_path dir k" "dst = dst_path dir k"
  define d1 where d1: "d1 = sys_open tmp d0"
  define d2 where d2: "d2 = sys_write tmp (take (d_partial env) data) d1"
  define d3 where d3: "d3 = sys_write tmp data d2"
  define f1 f2 f3 where f: "f1 = AList.update tmp [] f0" "f2 = AList.update tmp (take (d_partial env) data) f0" "f3 = AList.update tmp data f0"
  define f5 where f5: "f5 = (\<lambda>g. AList.update dst data (AList.delete tmp g))"
  obtain i where i: "map_of (names d1) tmp = Some i" using opened d1 by blast
  note v1 = view_open [OF assms(1), of tmp, folded d1]
  note v2 = view_write [OF v1(2) i, of "take (d_partial env) data", folded d2]
  note v3 = view_write [OF v2(2,3), of data, folded d3]
  have views: "view d1 = map_of f1" "view d2 = map_of f2" "view d3 = map_of f3"
    using v1 v2 v3 assms(2) by (simp_all add: update_conv' f)
  have c3: "content_of d3 i = data" using v2(3) by (simp add: d3 sys_write_def)
  have ex: "map_of (names d3) dst = None \<longleftrightarrow> map_of f3 dst = None"
    using fun_cong [OF views(3), of dst] by (metis map_option_is_None view_def)
  have ne: "tmp \<noteq> dst" "dst \<noteq> tmp" by (simp_all add: paths)
  have ren: "view (sys_rename tmp dst (sys_unlink dst (sys_fsync tmp d3))) = map_of (f5 (AList.delete dst f3))"
    "view (sys_rename tmp dst (sys_fsync tmp d3)) = map_of (f5 f3)"
    using v3(3) c3 views(3) ne by (simp_all add: view_rename view_unlink view_fsync delete_conv' update_conv' f5)
  have k: "k \<noteq> []" "CHR 0x00 \<notin> set k" "\<not> contains k ''..''" using assms(3) by (simp_all add: storage_id_def)
  show ?thesis unfolding staged_sync_def staged_run_def Let_def fsyncFile_def rm_tmp_def sys_remove_def plain_env_sel
      paths [symmetric] d1 [symmetric] d2 [symmetric] d3 [symmetric] f [symmetric] fun_cong [OF f5, symmetric]
    by (cases "map_of f3 dst")
       (simp_all add: k views assms(2) ren ex view_unlink view_fsync view_fsyncDir delete_conv' split: option.split)
qed

theorem staged_sync_refines_witness:
  "fst (staged_sync (good_sync\<lparr>y_errno := Some 5\<rparr>) ''/s'' ''b'' [1, 2] sample_disk) = Inl (StorageException ''fsync file failed: 5'')
     \<and> view ` set (snd (staged_sync (good_sync\<lparr>y_errno := Some 5\<rparr>) ''/s'' ''b'' [1, 2] sample_disk))
       = map_of ` set (snd (staged_run (plain_env (good_sync\<lparr>y_errno := Some 5\<rparr>) (tmp_path ''/s'' ''b'')) ''/s'' ''b'' [1, 2] [(''/s/a'', [7])]))"
proof -
  have "single_names sample_disk" by (auto simp: single_names_def sample_disk_def names_def apply_ops_def split: if_splits)
  moreover have "view sample_disk = map_of [(''/s/a'', [7])]" by (auto simp: fun_eq_iff view_def names_def apply_ops_def sample_disk_def content_of_def)
  moreover have "storage_id ''b''" by code_simp
  moreover have "fst (staged_run (plain_env (good_sync\<lparr>y_errno := Some 5\<rparr>) (tmp_path ''/s'' ''b'')) ''/s'' ''b'' [1, 2] [(''/s/a'', [7])])
      = Inl (StorageException ''fsync file failed: 5'')" by code_simp
  ultimately show ?thesis using staged_sync_refines [of sample_disk "[(''/s/a'', [7])]" "''b''" "good_sync\<lparr>y_errno := Some 5\<rparr>" "''/s''" "[1, 2]"]
    by simp
qed

text \<open>
  The sync of the directory is not checked: a staged write that replaces a blob reports
  success although the directory could not be synced, and a crash can then lose the new
  and the old blob.
\<close>

theorem unsynced_directory_loses_blob:
  "\<exists>env d0 ds f. booted d0 \<and> view d0 ''/s/a'' = Some [7] \<and> staged_sync env ''/s'' ''a'' [1, 2] d0 = (Inr (), ds)
     \<and> view (last ds) ''/s/a'' = Some [1, 2] \<and> crash_image (last ds) f \<and> f ''/s/a'' = None"
proof -
  let ?f = "\<lambda>p :: string. None :: bytes option"
  let ?ds = "snd (staged_sync (good_sync\<lparr>y_dirsync := False\<rparr>) ''/s'' ''a'' [1, 2] sample_disk)"
  have "booted sample_disk" "view sample_disk ''/s/a'' = Some [7]"
    "fst (staged_sync (good_sync\<lparr>y_dirsync := False\<rparr>) ''/s'' ''a'' [1, 2] sample_disk) = Inr ()"
    "view (last ?ds) ''/s/a'' = Some [1, 2]" "pending (last ?ds) = [Link ''/s/tmp.a.part'' 1, Unlink ''/s/a'', Rename ''/s/tmp.a.part'' ''/s/a'' 1]"
    "durable (last ?ds) = [(''/s/a'', 0)]" by code_simp+
  moreover then have "crash_image (last ?ds) ?f"
    unfolding crash_image_def by (intro exI [of _ "[Unlink ''/s/a'']"] exI [of _ "\<lambda>_. []"]) (auto simp: apply_ops_def)
  ultimately show ?thesis by (metis prod.collapse)
qed

end
