(* ===== verification/Transports.thy ===== *)
theory Transports
  imports TlsTrust ServerApp
begin

text \<open>
  The life of a connection: the transports of \<^verbatim>\<open>asio_tls_transport.cpp\<close> and
  \<^verbatim>\<open>asio_transport.cpp\<close> from \<open>connect\<close> to \<open>close\<close>, the listener of
  \<^verbatim>\<open>asio_tls_listener.cpp\<close>, and the server's start and accept loop around it. The receive
  loops are those of \<open>Framing\<close>. What asio answers is an argument of each call; a call that
  goes through a null pointer is a result of its own.
\<close>

datatype 'x called = Done 'x | Raised exn | NullDeref

section \<open>Streams\<close>

record Stream =
  s_open :: bool
  s_in :: "read list"
  s_out :: bytes

text \<open>The reads a stream still delivers; on a closed socket \<open>read_some\<close> reports an error.\<close>

definition stream_reads :: "Stream \<Rightarrow> read list" where
  "stream_reads st = (if s_open st then s_in st else [ReadError])"

definition stream_left :: "Stream \<Rightarrow> read list \<Rightarrow> Stream" where
  "stream_left st rs = (if s_open st then st\<lparr>s_in := rs\<rparr> else st)"

text \<open>\<open>asio::write\<close>: all bytes, or an exception after some of them.\<close>

definition stream_write :: "(string \<times> nat) option \<Rightarrow> bytes \<Rightarrow> Stream \<Rightarrow> unit called \<times> Stream" where
  "stream_write err b st =
     (if \<not> s_open st then (Raised (RuntimeError ''write: Bad file descriptor''), st)
      else case err of
             Some (m, n) \<Rightarrow> (Raised (RuntimeError m), st\<lparr>s_out := s_out st @ take n b\<rparr>)
           | None \<Rightarrow> (Done (), st\<lparr>s_out := s_out st @ b\<rparr>))"

record Transport =
  t_stream :: "Stream option"
  t_rx :: bytes

text \<open>What connecting ends in, whether a failed attempt leaves the socket open, and what the peer will send.\<close>

record net =
  n_resolve :: "string option"
  n_outcome :: connect_outcome
  n_left_open :: bool
  n_reads :: "read list"

definition fresh_stream :: "net \<Rightarrow> Stream" where
  "fresh_stream N = \<lparr>s_open = (n_outcome N = Connected \<or> n_left_open N), s_in = n_reads N, s_out = []\<rparr>"

section \<open>The TLS transport\<close>

text \<open>The file whose certificates are trusted, if any; \<open>load_verify_file\<close> throws if it cannot be read.\<close>

definition AsioTls_new :: "(string \<Rightarrow> string option) \<Rightarrow> TrustConfig \<Rightarrow> exn + Transport" where
  "AsioTls_new load cfg =
     (let t = \<lparr>t_stream = None, t_rx = []\<rparr>
      in if caPath cfg \<noteq> [] then (case load (caPath cfg) of Some m \<Rightarrow> Inl (RuntimeError m) | None \<Rightarrow> Inr t)
         else if certPath cfg \<noteq> [] then (case load (certPath cfg) of Some m \<Rightarrow> Inl (RuntimeError m) | None \<Rightarrow> Inr t)
         else Inr t)"

definition AsioTls_accepted :: "Stream \<Rightarrow> Transport" where
  "AsioTls_accepted st = \<lparr>t_stream = Some st, t_rx = []\<rparr>"

definition Tls_connect :: "net \<Rightarrow> Transport \<Rightarrow> unit called \<times> Transport" where
  "Tls_connect N t =
     (let t' = t\<lparr>t_stream := Some (fresh_stream N)\<rparr>
      in case n_resolve N of
           Some m \<Rightarrow> (Raised (TransportException (''TLS handshake failed: '' @ m)), t')
         | None \<Rightarrow> (case AsioTls_connect (n_outcome N) of Inl e \<Rightarrow> (Raised e, t') | Inr _ \<Rightarrow> (Done (), t')))"

definition Tls_sendFrame :: "(string \<times> nat) option \<Rightarrow> Frame \<Rightarrow> Transport \<Rightarrow> unit called \<times> Transport" where
  "Tls_sendFrame err f t =
     (case t_stream t of
        None \<Rightarrow> (NullDeref, t)
      | Some st \<Rightarrow> (case stream_write err (encodeFrame f) st of (r, st') \<Rightarrow> (r, t\<lparr>t_stream := Some st'\<rparr>)))"

text \<open>\<open>Waiting\<close> is the state in which the loop calls \<open>read_some\<close>.\<close>

definition Tls_recvFrame :: "Transport \<Rightarrow> recv called \<times> Transport" where
  "Tls_recvFrame t =
     (case t_stream t of
        None \<Rightarrow> (case AsioTls_recvFrame (t_rx t) [] of
                   (r, rx, _) \<Rightarrow> (if r = Waiting then NullDeref else Done r, t\<lparr>t_rx := rx\<rparr>))
      | Some st \<Rightarrow> (case AsioTls_recvFrame (t_rx t) (stream_reads st) of
                     (r, rx, rs) \<Rightarrow> (Done r, t\<lparr>t_rx := rx, t_stream := Some (stream_left st rs)\<rparr>)))"

definition Tls_close :: "Transport \<Rightarrow> Transport" where
  "Tls_close t = t\<lparr>t_stream := map_option (\<lambda>st. st\<lparr>s_open := False\<rparr>) (t_stream t), t_rx := []\<rparr>"

section \<open>The TCP transport\<close>

definition AsioTcp_new :: Transport where
  "AsioTcp_new = \<lparr>t_stream = None, t_rx = []\<rparr>"

definition Tcp_close :: "Transport \<Rightarrow> Transport" where
  "Tcp_close t = t\<lparr>t_stream := map_option (\<lambda>st. st\<lparr>s_open := False\<rparr>) (t_stream t), t_rx := []\<rparr>"

text \<open>The old socket is closed and the whole implementation object replaced, the buffer with it; resolving comes before the new socket.\<close>

definition Tcp_connect :: "net \<Rightarrow> Transport \<Rightarrow> unit called \<times> Transport" where
  "Tcp_connect N t =
     (let t' = AsioTcp_new
      in case n_resolve N of
           Some m \<Rightarrow> (Raised (RuntimeError m), t')
         | None \<Rightarrow> let t'' = t'\<lparr>t_stream := Some (fresh_stream N)\<rparr>
                   in (case n_outcome N of
                         Connected \<Rightarrow> (Done (), t'')
                       | SystemError m \<Rightarrow> (Raised (RuntimeError m), t'')
                       | OtherException m \<Rightarrow> (Raised (RuntimeError m), t'')))"

definition Tcp_sendFrame :: "(string \<times> nat) option \<Rightarrow> Frame \<Rightarrow> Transport \<Rightarrow> unit called \<times> Transport" where
  "Tcp_sendFrame err f t =
     (case t_stream t of
        None \<Rightarrow> (NullDeref, t)
      | Some st \<Rightarrow> (case stream_write err (encodeFrame f) st of (r, st') \<Rightarrow> (r, t\<lparr>t_stream := Some st'\<rparr>)))"

definition Tcp_recvFrame :: "Transport \<Rightarrow> recv called \<times> Transport" where
  "Tcp_recvFrame t =
     (case t_stream t of
        None \<Rightarrow> (case AsioTcp_recvFrame (t_rx t) [] of
                   (r, rx, _) \<Rightarrow> (if r = Waiting then NullDeref else Done r, t\<lparr>t_rx := rx\<rparr>))
      | Some st \<Rightarrow> (case AsioTcp_recvFrame (t_rx t) (stream_reads st) of
                     (r, rx, rs) \<Rightarrow> (Done r, t\<lparr>t_rx := rx, t_stream := Some (stream_left st rs)\<rparr>)))"

section \<open>The listener\<close>

record Listener =
  l_cfg :: TrustConfig
  l_acceptor :: "bool option"

text \<open>The constructor reads the certificate chain and the key; either throws if it cannot be used.\<close>

definition AsioTlsListener_new :: "(string \<Rightarrow> string option) \<Rightarrow> (string \<Rightarrow> string option) \<Rightarrow> TrustConfig \<Rightarrow> exn + Listener" where
  "AsioTlsListener_new useChain useKey cfg =
     (case useChain (certPath cfg) of
        Some m \<Rightarrow> Inl (RuntimeError m)
      | None \<Rightarrow> (case useKey (keyPath cfg) of
                   Some m \<Rightarrow> Inl (RuntimeError m)
                 | None \<Rightarrow> Inr \<lparr>l_cfg = cfg, l_acceptor = None\<rparr>))"

text \<open>Binding the port throws, or gives the port bound (another one if \<open>0\<close> was asked for).\<close>

definition AsioTlsListener_listen :: "(16 word \<Rightarrow> string + 16 word) \<Rightarrow> 16 word \<Rightarrow> (Listener, 16 word) sx" where
  "AsioTlsListener_listen bound port l =
     (case bound port of
        Inl m \<Rightarrow> (Inl (RuntimeError m), l)
      | Inr actual \<Rightarrow> (Inr actual, l\<lparr>l_acceptor := Some True\<rparr>))"

datatype 'c accepted = AcceptError string | HandshakeError string | Peer 'c

definition AsioTlsListener_accept :: "'c accepted \<Rightarrow> Listener \<Rightarrow> 'c called" where
  "AsioTlsListener_accept out l =
     (case l_acceptor l of
        None \<Rightarrow> NullDeref
      | Some False \<Rightarrow> Raised (RuntimeError ''accept: Bad file descriptor'')
      | Some True \<Rightarrow> (case out of
            AcceptError m \<Rightarrow> Raised (RuntimeError m)
          | HandshakeError m \<Rightarrow> Raised (RuntimeError m)
          | Peer c \<Rightarrow> Done c))"

definition AsioTlsListener_close :: "Listener \<Rightarrow> Listener" where
  "AsioTlsListener_close l = (if l_acceptor l = Some True then l\<lparr>l_acceptor := Some False\<rparr> else l)"

definition FakeListener_listen :: "16 word \<Rightarrow> 16 word" where
  "FakeListener_listen port = 0"

section \<open>The server around it\<close>

definition server_trust :: "'x509 x509_lib \<Rightarrow> bytes option \<Rightarrow> bytes option \<Rightarrow> TrustConfig" where
  "server_trust X fopen1 fopen2 =
     (let trust = \<lparr>fingerprint = '''', certPath = ''./certs/server.crt'', keyPath = ''./certs/server.key'', caPath = ''./certs/server.crt''\<rparr>;
          fp = computeSha256Fingerprint X fopen1 fopen2
      in if fp \<noteq> [] then trust\<lparr>fingerprint := fp\<rparr> else trust\<lparr>fingerprint := ''NO-CERT-FOUND''\<rparr>)"

text \<open>
  The loop over one connection, on the bytes that arrive: it ends when \<open>recvFrame\<close> returns
  false or a handler throws (\<open>Over\<close>), is stuck in \<open>read_some\<close> when the peer sends nothing more
  and stays (\<open>Silent\<close>), or leaves the receive buffer's bounds (\<open>Broken\<close>). \<open>envs\<close> gives the
  environment of each frame handled.
\<close>

datatype conn_end = Over | Silent | Broken

function conn_loop ::
  "('r, 'h, 's, 'a, 'd, 'k, 'f, 't) ServerPorts \<Rightarrow> (nat \<Rightarrow> env) \<Rightarrow> nat \<Rightarrow> bytes \<Rightarrow> read list
   \<Rightarrow> ('r, 'h, 's, 'a, 'd, 'k, 'f, 't) Conn \<Rightarrow> conn_end \<times> ('r, 'h, 's, 'a, 'd, 'k, 'f, 't) Conn" where
  "conn_loop P envs i rx reads c =
     (case AsioTls_recvFrame rx reads of
        (r, rx', rs) \<Rightarrow>
          (case r of
             Got f \<Rightarrow> (case handle P (envs i) f c of
                        (Inl _, c') \<Rightarrow> (Over, c')
                      | (Inr _, c') \<Rightarrow> conn_loop P envs (Suc i) rx' rs c')
           | RecvFalse \<Rightarrow> (Over, c)
           | Waiting \<Rightarrow> (Silent, c)
           | Undefined \<Rightarrow> (Broken, c)))"
  by pat_completeness auto
termination
proof (relation "measure (\<lambda>(P, envs, i, rx, reads, c). length (rx @ fst (heard reads)))", simp, goal_cases)
  case (1 P envs i rx reads c r y rx' rs f q c' b)
  then have "AsioTls_recvFrame rx reads = (Got f, rx', rs)" by (metis prod.collapse)
  from recvFrame_stream [OF this] obtain n where n: "tryDecode (rx @ fst (heard reads)) = Some (f, n)"
    "rx' @ fst (heard rs) = drop n (rx @ fst (heard reads))" by (auto split: option.splits if_splits)
  show ?case using tryDecode_size [OF n(1)] arg_cong [OF n(2), of length] by (simp del: length_append drop_append) linarith
qed

declare conn_loop.simps [simp del]

text \<open>
  One round per call of \<open>accept\<close>: an exception is swallowed and the loop goes on, a
  connection is served to its end. A connection that does not end is the last round.
\<close>

fun listen_loop ::
  "('r, 'h, 's, 'a, 'd, 'k, 'f, 't) ServerPorts \<Rightarrow> (nat \<times> (nat \<Rightarrow> env) \<times> read list) accepted list \<Rightarrow> Listener
   \<Rightarrow> ('r, 'h, 's, 'a, 'd, 'k, 'f, 't) Stores \<Rightarrow> (conn_end \<times> ('r, 'h, 's, 'a, 'd, 'k, 'f, 't) Stores) called" where
  "listen_loop P [] l s = Done (Over, s)"
| "listen_loop P (out # outs) l s =
     (case AsioTlsListener_accept out l of
        NullDeref \<Rightarrow> NullDeref
      | Raised _ \<Rightarrow> listen_loop P outs l s
      | Done (n, envs, reads) \<Rightarrow>
          (case conn_loop P envs 0 [] reads (accept n s) of
             (Over, c) \<Rightarrow> listen_loop P outs l (stores c)
           | (r, c) \<Rightarrow> Done (r, stores c)))"

text \<open>
  What the system and the operator answer while the server starts: the certificate file,
  the storage directory, the first administrator, the certificate chain, the key and the port.
\<close>

record start_env =
  e_cert :: "bytes option \<times> bytes option"
  e_root :: bool
  e_remove :: "string \<Rightarrow> bool"
  e_salt :: random_device
  e_id :: random_device
  e_admin :: "string \<times> string \<times> string"
  e_chain :: "string \<Rightarrow> string option"
  e_key :: "string \<Rightarrow> string option"
  e_bind :: "16 word \<Rightarrow> string + 16 word"

definition boot_with ::
  "('r, 'h, 's, 'a, BinaryFileStorage, 'k, 'f, 't) ServerPorts \<Rightarrow> start_env \<Rightarrow> (('r, 'h, 's, 'a, BinaryFileStorage, 'k, 'f, 't) Stores, unit) sx" where
  "boot_with P e = (case e_admin e of (u, mail, pw) \<Rightarrow> boot P (e_root e) (e_remove e) (e_salt e) (e_id e) u mail pw)"

text \<open>
  \<open>ServerApp::run\<close>: boot, open the listener, serve. An exception before the loop ends the
  program. \<open>outs\<close> is what the calls of \<open>accept\<close> answer until Enter is pressed. Then \<open>run\<close>
  closes the listener and returns, and destroys the objects the detached thread refers to:
  what that thread does afterwards is undefined, and not part of the result, which is how
  the loop stands and what the stores hold at that moment.
\<close>

definition ServerApp_run ::
  "('r, 'h, 's, 'a, BinaryFileStorage, 'k, 'f, 't) ServerPorts \<Rightarrow> 'x509 x509_lib \<Rightarrow> start_env \<Rightarrow> 16 word
   \<Rightarrow> (nat \<times> (nat \<Rightarrow> env) \<times> read list) accepted list
   \<Rightarrow> ('r, 'h, 's, 'a, BinaryFileStorage, 'k, 'f, 't) Stores \<Rightarrow> (conn_end \<times> ('r, 'h, 's, 'a, BinaryFileStorage, 'k, 'f, 't) Stores) called" where
  "ServerApp_run P X e port outs s =
     (let trust = server_trust X (fst (e_cert e)) (snd (e_cert e))
      in case boot_with P e s of
           (Inl ex, s1) \<Rightarrow> Raised ex
         | (Inr _, s1) \<Rightarrow>
             (case AsioTlsListener_new (e_chain e) (e_key e) trust of
                Inl ex \<Rightarrow> Raised ex
              | Inr l \<Rightarrow>
                  (case AsioTlsListener_listen (e_bind e) port l of
                     (Inl ex, _) \<Rightarrow> Raised ex
                   | (Inr actual, l1) \<Rightarrow> listen_loop P outs l1 s1)))"

section \<open>Sequences of calls on a TLS transport\<close>

datatype transport_call =
    Connect net
  | SendFrame "(string \<times> nat) option" Frame
  | RecvFrame
  | Close

datatype transport_answer = Answered "unit called" | Received "recv called"

primrec tls_call :: "transport_call \<Rightarrow> Transport \<Rightarrow> transport_answer \<times> Transport" where
  "tls_call (Connect N) t = apfst Answered (Tls_connect N t)"
| "tls_call (SendFrame err f) t = apfst Answered (Tls_sendFrame err f t)"
| "tls_call RecvFrame t = apfst Received (Tls_recvFrame t)"
| "tls_call Close t = (Answered (Done ()), Tls_close t)"

fun tls_calls :: "transport_call list \<Rightarrow> Transport \<Rightarrow> transport_answer list \<times> Transport" where
  "tls_calls [] t = ([], t)"
| "tls_calls (c # cs) t = (case tls_call c t of (a, t') \<Rightarrow> apfst ((#) a) (tls_calls cs t'))"

definition is_null :: "transport_answer \<Rightarrow> bool" where
  "is_null a \<longleftrightarrow> a = Answered NullDeref \<or> a = Received NullDeref"

lemma stream_write_cases: "fst (stream_write err b st) \<noteq> NullDeref"
  by (auto simp: stream_write_def split: option.split)

lemma tls_call_stream:
  assumes "t_stream t \<noteq> None"
  shows "\<not> is_null (fst (tls_call c t)) \<and> t_stream (snd (tls_call c t)) \<noteq> None"
proof -
  obtain st where st: "t_stream t = Some st" using assms by blast
  show ?thesis
  proof (cases c)
    case (Connect N)
    then show ?thesis
      by (simp add: is_null_def Tls_connect_def AsioTls_connect_def Let_def split: option.split connect_outcome.split)
  next
    case (SendFrame err f)
    obtain r st' where "stream_write err (encodeFrame f) st = (r, st')" by (metis prod.collapse)
    then show ?thesis using SendFrame st stream_write_cases [of err "encodeFrame f" st] by (simp add: is_null_def Tls_sendFrame_def)
  next
    case RecvFrame
    obtain r rx rs where "AsioTls_recvFrame (t_rx t) (stream_reads st) = (r, rx, rs)" by (metis prod.collapse)
    then show ?thesis using RecvFrame st by (simp add: is_null_def Tls_recvFrame_def)
  next
    case Close
    then show ?thesis using st by (simp add: is_null_def Tls_close_def)
  qed
qed

lemma tls_calls_stream:
  "t_stream t \<noteq> None \<Longrightarrow> a \<in> set (fst (tls_calls cs t)) \<Longrightarrow> \<not> is_null a"
proof (induction cs arbitrary: t)
  case (Cons c cs)
  obtain b t' where b: "tls_call c t = (b, t')" by (metis prod.collapse)
  with tls_call_stream [OF Cons.prems(1), of c] have "\<not> is_null b" "t_stream t' \<noteq> None" by auto
  then show ?case using Cons.IH [of t'] Cons.prems(2) b by auto
qed simp

text \<open>A closed transport: no socket, or a closed one, and an empty buffer.\<close>

definition shut :: "Transport \<Rightarrow> bool" where
  "shut t \<longleftrightarrow> t_rx t = [] \<and> (\<exists>st. t_stream t = Some st \<and> \<not> s_open st)"

lemma shut_recv: "AsioTls_recvFrame [] [ReadError] = (RecvFalse, [], [])"
  by (simp add: AsioTls_recvFrame.simps from_buffer_def)

lemma shut_call:
  assumes "shut t" "\<forall>N. c \<noteq> Connect N"
  shows "snd (tls_call c t) = t \<and> (\<forall>f. fst (tls_call c t) \<noteq> Received (Done (Got f)))
     \<and> (\<forall>err f. c = SendFrame err f \<longrightarrow> (\<exists>e. fst (tls_call c t) = Answered (Raised e)))"
proof -
  obtain st where st: "t = \<lparr>t_stream = Some st, t_rx = []\<rparr>" "\<not> s_open st" using assms(1) by (cases t) (auto simp: shut_def)
  then show ?thesis using assms(2)
    by (cases c) (auto simp: Tls_sendFrame_def stream_write_def Tls_recvFrame_def stream_reads_def stream_left_def shut_recv
        Tls_close_def)
qed

lemma shut_calls:
  assumes "shut t" "\<forall>N. Connect N \<notin> set cs"
  shows "snd (tls_calls cs t) = t \<and> (\<forall>f. Received (Done (Got f)) \<notin> set (fst (tls_calls cs t)))"
  using assms(2)
proof (induction cs)
  case (Cons c cs)
  have "\<forall>N. c \<noteq> Connect N" using Cons.prems by auto
  from shut_call [OF assms(1) this] obtain a where "tls_call c t = (a, t)" "\<forall>f. a \<noteq> Received (Done (Got f))" by (metis prod.collapse)
  then show ?case using Cons by auto
qed simp

section \<open>Properties\<close>

text \<open>
  The life of a TLS transport: after an attempt to connect, whether it succeeded or not,
  no call goes through a null pointer; after closing, nothing is sent or received until the
  next connection; and what a closed and reconnected transport answers does not depend on
  the connection before.
\<close>

theorem tls_lifecycle:
  assumes "\<forall>N. Connect N \<notin> set idle"
  shows "(\<forall>a\<in>set (fst (tls_calls (Connect N # cs) t)). \<not> is_null a)
     \<and> (let t' = snd (tls_calls (Connect N # cs @ [Close]) t)
        in snd (tls_calls idle t') = t' \<and> (\<forall>f. Received (Done (Got f)) \<notin> set (fst (tls_calls idle t'))))
     \<and> fst (tls_calls (Close # Connect N # cs) t) = fst (tls_calls (Close # Connect N # cs) u)"
proof -
  have c: "fst (Tls_connect N t) \<noteq> NullDeref" "t_stream (snd (Tls_connect N t)) \<noteq> None"
    by (auto simp: Tls_connect_def AsioTls_connect_def Let_def split: option.split connect_outcome.split)
  obtain r x where r: "Tls_connect N t = (r, x)" by (metis prod.collapse)
  have nulls: "\<not> is_null a" if "a \<in> set (fst (tls_calls (Connect N # cs) t))" for a
    using that c r tls_calls_stream [of x a cs] by (auto simp: is_null_def)
  have keep: "t_stream x \<noteq> None \<Longrightarrow> shut (snd (tls_calls (cs @ [Close]) x))" for cs x
  proof (induction cs arbitrary: x)
    case (Cons d ds)
    then show ?case using tls_call_stream [of x d] by (cases "tls_call d x") simp
  qed (auto simp: shut_def Tls_close_def)
  have "shut (snd (tls_calls (Connect N # cs @ [Close]) t))"
    using keep [OF c(2), of cs] r by simp
  note idle = shut_calls [OF this assms]
  have "Tls_connect N (Tls_close t) = Tls_connect N (Tls_close u)"
    by (cases t; cases u) (simp add: Tls_connect_def Tls_close_def Let_def split: option.split)
  then show ?thesis using nulls idle unfolding Let_def by simp
qed

definition demo_net :: net where
  "demo_net = \<lparr>n_resolve = None, n_outcome = Connected, n_left_open = False,
     n_reads = [ReadSome (encodeFrame \<lparr>ftype = HELLO, requestId = 1, body = []\<rparr>)]\<rparr>"

theorem tls_lifecycle_witness:
  "fst (tls_calls [Close, Connect demo_net, RecvFrame] \<lparr>t_stream = None, t_rx = [0, 0]\<rparr>)
     = [Answered (Done ()), Answered (Done ()), Received (Done (Got \<lparr>ftype = HELLO, requestId = 1, body = []\<rparr>))]"
proof -
  have "fst (tls_calls [Close, Connect demo_net, RecvFrame] \<lparr>t_stream = None, t_rx = []\<rparr>)
      = [Answered (Done ()), Answered (Done ()), Received (Done (Got \<lparr>ftype = HELLO, requestId = 1, body = []\<rparr>))]" by code_simp
  then show ?thesis
    using tls_lifecycle [of "[]" demo_net "[RecvFrame]" "\<lparr>t_stream = None, t_rx = [0, 0]\<rparr>" "\<lparr>t_stream = None, t_rx = []\<rparr>"] by simp
qed

text \<open>
  Without closing first, the bytes left over from the old connection are taken for the
  beginning of the new one's; the TCP transport starts with an empty buffer. A TCP
  transport whose host name did not resolve has no socket to send on.
\<close>

lemma stale_bytes:
  "fst (tls_calls [Connect demo_net, RecvFrame] \<lparr>t_stream = None, t_rx = [0, 0]\<rparr>) = [Answered (Done ()), Received (Done RecvFalse)]"
  by code_simp

lemma tcp_connect_fresh: "Tcp_connect N t = Tcp_connect N u"
  by (simp add: Tcp_connect_def)

lemma tcp_unresolved_null:
  "n_resolve N = Some m \<Longrightarrow> fst (Tcp_sendFrame err f (snd (Tcp_connect N t))) = NullDeref"
  by (simp add: Tcp_connect_def Tcp_sendFrame_def AsioTcp_new_def Let_def)

section \<open>The server on the bytes of its connections\<close>

text \<open>The connections among the outcomes, and the frames of one, each with its environment.\<close>

fun established :: "'c accepted list \<Rightarrow> 'c list" where
  "established [] = []"
| "established (Peer c # outs) = c # established outs"
| "established (_ # outs) = established outs"

fun with_envs :: "(nat \<Rightarrow> env) \<Rightarrow> nat \<Rightarrow> Frame list \<Rightarrow> (env \<times> Frame) list" where
  "with_envs envs i [] = []"
| "with_envs envs i (f # fs) = (envs i, f) # with_envs envs (Suc i) fs"

definition on_wire :: "nat \<times> (nat \<Rightarrow> env) \<times> read list \<Rightarrow> nat \<times> (env \<times> Frame) list" where
  "on_wire = (\<lambda>(n, envs, reads). (n, with_envs envs 0 (frames_of (fst (heard reads)))))"

text \<open>A peer that ends the stream, or is cut off for a bad length; and one that stays without sending a frame.\<close>

definition leaves :: "nat \<times> (nat \<Rightarrow> env) \<times> read list \<Rightarrow> bool" where
  "leaves = (\<lambda>(n, envs, reads). snd (heard reads) \<or> bad_length (rest_of (fst (heard reads))))"

definition silent :: "nat \<times> (nat \<Rightarrow> env) \<times> read list \<Rightarrow> bool" where
  "silent p \<longleftrightarrow> \<not> leaves p \<and> snd (on_wire p) = []"

lemma conn_loop_serves:
  "snd (conn_loop P envs i rx reads c) = serve P (with_envs envs i (frames_of (rx @ fst (heard reads)))) c"
  "snd (heard reads) \<or> bad_length (rest_of (rx @ fst (heard reads))) \<Longrightarrow> fst (conn_loop P envs i rx reads c) = Over"
proof (induction P envs i rx reads c rule: conn_loop.induct)
  case (1 P envs i rx reads c)
  obtain r rx' rs where r: "AsioTls_recvFrame rx reads = (r, rx', rs)" by (metis prod.collapse)
  note st = recvFrame_stream [OF r] and loop = conn_loop.simps [of P envs i rx reads c] and IH = 1 [OF r [symmetric] refl]
  let ?b = "rx @ fst (heard reads)"
  have one: "snd (conn_loop P envs i rx reads c) = serve P (with_envs envs i (frames_of ?b)) c
      \<and> (snd (heard reads) \<or> bad_length (rest_of ?b) \<longrightarrow> fst (conn_loop P envs i rx reads c) = Over)"
  proof (cases "tryDecode ?b")
    case None
    then show ?thesis using r st loop by (auto simp: frames_of.simps [of ?b] rest_of.simps [of ?b])
  next
    case (Some p)
    then obtain f n where p: "tryDecode ?b = Some (f, n)" by (cases p) simp
    with st have g: "r = Got f" "rx' @ fst (heard rs) = drop n ?b" "snd (heard rs) = snd (heard reads)" by simp_all
    have fr: "frames_of ?b = f # frames_of (rx' @ fst (heard rs))" "rest_of ?b = rest_of (rx' @ fst (heard rs))"
      using p g(2) by (simp_all add: frames_of.simps [of ?b] rest_of.simps [of ?b])
    obtain q c' where h: "handle P (envs i) f c = (q, c')" by (metis prod.collapse)
    show ?thesis
    proof (cases q)
      case (Inl e)
      then show ?thesis using r g(1) h loop fr by simp
    next
      case (Inr u)
      then show ?thesis using IH [OF g(1) h [symmetric] Inr] r g h loop fr by simp
    qed
  qed
  { case 1 show ?case using one by simp }
  { case 2 then show ?case using one by simp }
qed

lemma conn_loop_silent:
  assumes "silent (n, envs, reads)"
  shows "conn_loop P envs i [] reads c = (Silent, c)"
proof -
  obtain r rx' rs where r: "AsioTls_recvFrame [] reads = (r, rx', rs)" by (metis prod.collapse)
  let ?b = "fst (heard reads)"
  have none: "tryDecode ?b = None"
    using assms by (cases "tryDecode ?b") (auto simp: silent_def on_wire_def frames_of.simps [of ?b])
  then have "\<not> snd (heard reads)" "\<not> bad_length ?b" using assms by (auto simp: silent_def leaves_def rest_of.simps [of ?b])
  then show ?thesis using recvFrame_stream [OF r] none r conn_loop.simps [of P envs i "[]" reads c] by simp
qed

lemma open_loop:
  assumes "l_acceptor l = Some True" "\<forall>p\<in>set (established outs). leaves p"
  shows "listen_loop P (outs @ rest) l s = listen_loop P rest l (accept_loop P (map on_wire (established outs)) s)"
  using assms(2)
proof (induction outs arbitrary: s)
  case (Cons out outs)
  show ?case
  proof (cases out)
    case (Peer p)
    obtain n envs reads where p: "p = (n, envs, reads)" by (cases p)
    have "snd (heard reads) \<or> bad_length (rest_of ([] @ fst (heard reads)))" using Cons.prems Peer p by (simp add: leaves_def)
    then have "conn_loop P envs 0 [] reads (accept n s) = (Over, serve P (with_envs envs 0 (frames_of (fst (heard reads)))) (accept n s))"
      using conn_loop_serves [where P = P and envs = envs and i = 0 and rx = "[]" and reads = reads and c = "accept n s"]
      by (metis append_Nil prod.collapse)
    then show ?thesis using Cons Peer p assms(1) by (simp add: AsioTlsListener_accept_def on_wire_def)
  qed (use Cons assms(1) in \<open>simp_all add: AsioTlsListener_accept_def\<close>)
qed simp

text \<open>
  C32. The server from the bytes up. Once it has started, whatever its \<open>accept\<close> calls answer,
  failed handshakes included, and in whatever pieces the bytes of its connections are read,
  the server does what the accept loop does on the frames in those bytes: the connections
  one after the other, each on the stores the one before it left. This holds for peers that
  end their stream or send a length no frame has. A peer that connects and stays, without
  completing a frame, is waited for for good: no connection after it is served, since no
  timeout is enforced.
\<close>

theorem server_over_tls:
  assumes "boot_with P e s = (Inr (), s1)" "e_chain e ''./certs/server.crt'' = None" "e_key e ''./certs/server.key'' = None"
    "e_bind e port = Inr actual" "\<forall>p\<in>set (established outs). leaves p" "silent q"
  shows "ServerApp_run P X e port outs s = Done (Over, accept_loop P (map on_wire (established outs)) s1)
     \<and> ServerApp_run P X e port (outs @ Peer q # late) s = Done (Silent, accept_loop P (map on_wire (established outs)) s1)"
proof -
  obtain n envs reads where q: "q = (n, envs, reads)" by (cases q)
  have run: "ServerApp_run P X e port os s = listen_loop P os \<lparr>l_cfg = server_trust X (fst (e_cert e)) (snd (e_cert e)), l_acceptor = Some True\<rparr> s1" for os
    using assms(1-4) by (simp add: ServerApp_run_def AsioTlsListener_new_def server_trust_def Let_def AsioTlsListener_listen_def)
  let ?l = "\<lparr>l_cfg = server_trust X (fst (e_cert e)) (snd (e_cert e)), l_acceptor = Some True\<rparr>"
  have loop: "listen_loop P (outs @ os) ?l s1 = listen_loop P os ?l (accept_loop P (map on_wire (established outs)) s1)" for os
    by (rule open_loop [OF _ assms(5)]) simp
  have "listen_loop P (Peer q # late) ?l t = Done (Silent, t)" for t
    using conn_loop_silent [OF assms(6) [unfolded q], of P 0 "accept n t"] by (simp add: q AsioTlsListener_accept_def) (simp add: accept_def)
  then show ?thesis using loop [of "[]"] loop [of "Peer q # late"] unfolding run by simp
qed

definition demo_start :: start_env where
  "demo_start = \<lparr>e_cert = (Some [1], None), e_root = True, e_remove = (\<lambda>_. True), e_salt = (\<lambda>_. 0), e_id = (\<lambda>_. 0),
     e_admin = ('''', '''', ''''), e_chain = (\<lambda>_. None), e_key = (\<lambda>_. None), e_bind = Inr\<rparr>"

text \<open>
  A failed handshake, a client that sends a request in two pieces and goes away, one that
  sends a byte and stays, and one that is never served.
\<close>

theorem server_over_tls_witness:
  "let f = \<lparr>ftype = LIST, requestId = 9, body = []\<rparr>; bs = encodeFrame f; envs = (\<lambda>_. demo_env)
   in ServerApp_run demo_server demo_x509 demo_start 5000
        [HandshakeError ''bad'', Peer (1, envs, [ReadSome (take 3 bs), ReadSome (drop 3 bs), ReadError]),
         Peer (1, envs, [ReadSome [0]]), Peer (1, envs, [ReadSome bs, ReadError])] demo_stores
      = Done (Silent, accept_loop demo_server [(1, [(demo_env, f)])] (snd (boot_with demo_server demo_start demo_stores)))"
proof -
  let ?f = "\<lparr>ftype = LIST, requestId = 9, body = []\<rparr>" and ?envs = "\<lambda>_ :: nat. demo_env"
  let ?bs = "encodeFrame ?f"
  let ?p = "(1, ?envs, [ReadSome (take 3 ?bs), ReadSome (drop 3 ?bs), ReadError])" and ?q = "(1, ?envs, [ReadSome [0]])"
  have "listAll memory_users m = Inr (map snd (usersById m))" for m by (simp add: memory_users_def MemUser_listAll_def)
  then have "fst (boot_with demo_server demo_start demo_stores) = Inr ()"
    by (simp add: boot_with_def demo_start_def boot_def Let_def demo_server_def)
  then have boot: "boot_with demo_server demo_start demo_stores = (Inr (), snd (boot_with demo_server demo_start demo_stores))"
    by (metis prod.collapse)
  have env: "e_chain demo_start x = None" "e_key demo_start x = None" "e_bind demo_start 5000 = Inr 5000" for x
    by (simp_all add: demo_start_def)
  have "length ?bs = 9" by simp
  then have "length (take 3 ?bs) = 3" "length (drop 3 ?bs) = 6" by simp_all
  then have "take 3 ?bs \<noteq> []" "drop 3 ?bs \<noteq> []" by (metis list.size(3) zero_neq_numeral)+
  then have h: "heard [ReadSome (take 3 ?bs), ReadSome (drop 3 ?bs), ReadError] = (?bs, True)" by simp
  have "frames_of ?bs = [?f]" using frames_of_encoded(1) [of "[?f]" "[]"] by (simp add: sendable_def tryDecode_def)
  then have p: "leaves ?p" "on_wire ?p = (1, [(demo_env, ?f)])" using h by (simp_all add: leaves_def on_wire_def)
  have "tryDecode [0] = None" by (simp add: tryDecode_def)
  then have q: "silent ?q" by (simp add: silent_def leaves_def on_wire_def frames_of.simps rest_of.simps bad_length_def)
  show ?thesis unfolding Let_def
    using server_over_tls [OF boot env(1,2,3) _ q, of "[HandshakeError ''bad'', Peer ?p]" demo_x509 "[Peer (1, ?envs, [ReadSome ?bs, ReadError])]"] p
    by (simp del: accept_loop.simps)
qed

end
