(* ===== verification/Spec2Isabelle.thy ===== *)
theory Spec2Isabelle
  imports EntryPoints SqliteClient Fips180 TypeInvariants Durability Transports
begin

text \<open>
  A verification of the secure file transfer system.

  \<^bold>\<open>The program.\<close> Clients register, log in, upload PDF files for a recipient and download
  them over a framed TLS connection. A file is encrypted on the client to the recipient's
  public key; the server stores ciphertext, a record about it and who may read it, keeps
  users, sessions and a hash-chained audit log, and never decrypts. The code is layered:
  a domain (\<^verbatim>\<open>include/domain\<close>), ports (\<^verbatim>\<open>include/ports\<close>), services over the ports
  (\<^verbatim>\<open>src/application\<close>), implementations of the ports (\<^verbatim>\<open>src/infrastructure\<close>) and the two
  applications (\<^verbatim>\<open>src/presentation\<close>). The development follows these layers: a port is a
  record of operations, its contract a locale, an implementation a set of definitions with
  an interpretation of the locale, and a service is verified once against the locales.

  \<^bold>\<open>Conventions.\<close> An operation that changes state or throws has type
  \<open>('s, 'a) sx = 's \<Rightarrow> (exn + 'a) \<times> 's\<close>; the state it had reached when it threw is kept, as
  in the code. Bytes and fixed-width integers are words, a \<open>std::string\<close> is a list of
  characters, a \<open>std::unordered_map\<close> an association list. The clock, the random generator,
  what the user types and what the operating system answers are arguments. Libraries
  (OpenSSL, SQLite, Argon2, asio) are records with one field per call, and what is relied
  on about them is a named hypothesis with an instance that satisfies it.

  \<^bold>\<open>Theories.\<close>

  \<^item> \<open>Prelude\<close>: the exceptions of \<^verbatim>\<open>domain/exceptions.hpp\<close>, the state and exception
    combinators, byte, text, hexadecimal and decimal helpers.
  \<^item> \<open>Domain\<close>: identifiers, users, sessions, file records, transfers, tokens, the policy
    engine (\<^verbatim>\<open>include/domain\<close>, \<^verbatim>\<open>application/policy_engine.hpp\<close>).
  \<^item> \<open>Framing\<close>: frames and their codec (\<^verbatim>\<open>ports/transport.hpp\<close>), the TLS and TCP receive loops
    (\<^verbatim>\<open>asio_tls_transport.cpp\<close>, \<^verbatim>\<open>asio_transport.cpp\<close>): round trip, soundness, reassembly of
    any fragmentation, the 4 MiB bound over the reads of a connection. An access to the
    receive buffer outside its bounds has no value, so that the TLS receiver stays within
    them and when the TCP one does not are consequences of the accesses.
  \<^item> \<open>Protocol\<close>: the request bodies (\<^verbatim>\<open>protocol.cpp\<close>): every decoder inverts its encoder, up
    to the default algorithm name of an upload header.
  \<^item> \<open>Sha256\<close>: \<^verbatim>\<open>sha256.hpp\<close> on 32-bit words, with the padding loop against FIPS 180-4;
    \<open>Fips180\<close>: the standard itself, with its constants computed from the primes, and that the
    code computes it.
  \<^item> \<open>UserRepo\<close>, \<open>Sessions\<close>, \<open>Hasher\<close>, \<open>FileRepo\<close>: the ports with their contracts (locales
    \<open>user_repository\<close>, \<open>session_store\<close>, \<open>file_repository\<close>, \<open>key_directory\<close> and those of the
    hashers) and the in-memory implementations that satisfy them.
  \<^item> \<open>AuditLog\<close>: the hash-chained file (\<^verbatim>\<open>hash_chain_file_audit.cpp\<close>): it verifies after every
    record, resumes after reopening, is tamper evident up to SHA-256 collisions, and is
    broken by an actor that needs a JSON escape.
  \<^item> \<open>AuthService\<close>, \<open>AdminService\<close>: registration, login with lockout, logout, activation
    (\<^verbatim>\<open>src/application\<close>); runs of both services are an inductive step relation, with the
    invariants that an administrator remains and live sessions belong to active users.
  \<^item> \<open>Storage\<close>: blobs in memory and on disk (\<^verbatim>\<open>binary_storage.cpp\<close>) with every failing call
    and every state a crash can leave; \<open>Durability\<close>: the same calls with \<open>fsync\<close> on a disk with
    a cache, where a crash loses any selection of what was not synced: no crash leaves half a
    blob, a reported write survives, and the cache is transparent while the machine runs;
    \<open>Validator\<close>: names, sizes and headers.
  \<^item> \<open>TypeInvariants\<close>: every stored user and session keeps the invariants of its class over
    every run of the two services.
  \<^item> \<open>TransferService\<close>: upload with rollback, download, over the locales above (locale
    \<open>transfer_core\<close>, interpreted on both storages).
  \<^item> \<open>Cli\<close>, \<open>ServerApp\<close>: one handler per request, the loop over a connection and the accept
    loop (\<^verbatim>\<open>server_app.cpp\<close>); what every handler keeps is proved once per relation in the
    locales \<open>frame_relation\<close> and \<open>connection_relation\<close>, among it the invariants of the services.
  \<^item> \<open>ClientCrypto\<close>: key pairs, sealing and AES-GCM (\<^verbatim>\<open>client_crypto.cpp\<close>), with the casts of
    lengths to \<open>int\<close>, which bound round trip and tamper detection by 2 GiB; \<open>ClientApp\<close>: the
    client's menu (\<^verbatim>\<open>client_app.cpp\<close>); \<open>TlsTrust\<close>: certificate pinning; \<open>EntryPoints\<close>: the
    command lines and the connection before the menu.
  \<^item> \<open>Transports\<close>: the life of a connection in the TLS and TCP transports
    (\<^verbatim>\<open>asio_tls_transport.cpp\<close>, \<^verbatim>\<open>asio_transport.cpp\<close>), the listener
    (\<^verbatim>\<open>asio_tls_listener.cpp\<close>) and \<open>ServerApp::run\<close> around it: no null pointer after an attempt
    to connect, nothing sent or received after closing, and a server that, from the bytes of
    its connections up, does what the accept loop of \<open>ServerApp\<close> does on their frames, until a
    peer connects and stays silent.
  \<^item> \<open>Sqlite\<close>: the SQLite calls, two contracts for them (locale \<open>transactional\<close>: what a
    transaction is when any call may fail; locale \<open>sql_engine\<close>: what the statements of the
    program do to a table) and a reference engine; \<open>SqliteUsers\<close>, \<open>SqliteFiles\<close>: the four
    persistent repositories, atomic under the first contract, and under the second a
    refinement of the in-memory user repository and faithful stores of file records,
    transfers and keys. \<open>SqliteAuth\<close>: the two services on the persistent user repository give
    the same answers, sessions and audit log as on the in-memory one, by a simulation with a
    rule per way operations are put together. \<open>SqliteServer\<close>: the whole server as
    \<open>ServerApp::run\<close> wires it, one database per repository (locale \<open>server_dbs\<close>), answers every
    admissible connection frame by frame as the server in memory does: text without NUL bytes,
    which C strings cut, clocks and counters within their columns, wrapped keys below 2 GiB. \<open>SqliteClient\<close>: the
    client's upload into these databases.
  \<^item> \<open>EndToEnd\<close>: the client's transport connected to a server connection. An upload by the
    client ends with exactly one new record and a blob that the recipient's key decrypts
    to the file. The frames of an upload are followed once, for any server whose transfer
    service accepts it, and the property is read off for the server in memory here and for
    the one on databases in \<open>SqliteClient\<close>.

  \<^bold>\<open>Loops.\<close> Every loop of the code is a total function: structural recursion, or a measure
  (the padding of \<open>Sha256\<close>, the chunks of the client's upload). Loops that end with their
  input (the receive loops, a connection, the accept loop, the menu) recurse on the list of
  reads, frames, connections or commands they will see, so no fuel is needed. The steps of a
  \<open>SELECT\<close> are the list of rows the statement delivers.

  \<^bold>\<open>Not modelled.\<close> Prompts on the console and option flags of sockets and TLS contexts;
  the Windows branches of the sync functions; creating the storage directory, whose effect
  is that of opening a file in it; \<open>fsync\<close> of the audit file and the wiping of secrets, which
  have no effect on the values the model keeps; failing \<open>sqlite3_bind\<close> calls; integer overflow
  of clock arithmetic, which takes 64-bit milliseconds past their range. The time
  the system clock reads is an argument. The server handles one connection at a time; what its detached thread does
  once \<open>run\<close> has returned and destroyed the objects it uses is undefined, and outside the model.
\<close>

end
